(* ===== verification/Prelude.thy ===== *)
theory Prelude
  imports Main "HOL-Library.Word"
begin

text \<open>
  Shared vocabulary of the development.
  \<^item> Fallible code returns \<open>'e + 'a\<close>: \<open>Inl\<close> is Rust's \<open>Err\<close>, \<open>Inr\<close> its \<open>Ok\<close>.
    \<open>sbind\<close> is the \<open>?\<close> operator, \<open>fold_res\<close> a \<open>for\<close> loop whose body uses \<open>?\<close>,
    \<open>collect_res\<close> the \<open>collect::<Result<Vec<_>, _>>()\<close> of an iterator.
  \<^item> \<open>select_ready\<close> is an unbiased \<open>tokio::select!\<close>: the results of the branches that are
    ready. The macro takes any one of them, and suspends when there is none.
  \<^item> \<open>reach\<close> and the locale \<open>invariant_system\<close> are used by every concurrent component: a
    predicate that the initial states satisfy and the steps keep holds in all reachable states.
  \<^item> \<open>system_refinement\<close> is the interface of a refinement between two such systems.
  \<^item> \<open>enumerates\<close> says that a list is an iteration order of a hash map. The order is
    unspecified in Rust, so the operations that iterate take it as an argument.
\<close>

named_theorems res_simps \<open>equations of the result combinators\<close>

section \<open>Results\<close>

definition sbind :: "'e + 'a \<Rightarrow> ('a \<Rightarrow> 'e + 'b) \<Rightarrow> 'e + 'b" where
  "sbind r f = (case r of Inl e \<Rightarrow> Inl e | Inr x \<Rightarrow> f x)"

lemma sbind_simps [simp, res_simps]:
  "sbind (Inl e) f = Inl e"
  "sbind (Inr x) f = f x"
  by (simp_all add: sbind_def)

lemma sbind_eq_Inr [res_simps]: "sbind r f = Inr y \<longleftrightarrow> (\<exists>x. r = Inr x \<and> f x = Inr y)"
  by (cases r) simp_all

lemma sbind_eq_Inl [res_simps]:
  "sbind r f = Inl e \<longleftrightarrow> r = Inl e \<or> (\<exists>x. r = Inr x \<and> f x = Inl e)"
  by (cases r) simp_all

lemma sbind_cong [fundef_cong]:
  "r = r' \<Longrightarrow> (\<And>x. r' = Inr x \<Longrightarrow> f x = g x) \<Longrightarrow> sbind r f = sbind r' g"
  by (cases r') simp_all

definition ok_or :: "'a option \<Rightarrow> 'e \<Rightarrow> 'e + 'a" where
  "ok_or v e = (case v of None \<Rightarrow> Inl e | Some x \<Rightarrow> Inr x)"

lemma ok_or_simps [simp, res_simps]:
  "ok_or None e = Inl e"
  "ok_or (Some x) e = Inr x"
  by (simp_all add: ok_or_def)

lemma ok_or_eq_Inl [res_simps]: "ok_or v e = Inl e' \<longleftrightarrow> v = None \<and> e' = e"
  by (auto simp: ok_or_def split: option.split)

lemma ok_or_eq_Inr [res_simps]: "ok_or v e = Inr x \<longleftrightarrow> v = Some x"
  by (cases v) simp_all

fun fold_res :: "('s \<Rightarrow> 'a \<Rightarrow> 'e + 's) \<Rightarrow> 's \<Rightarrow> 'a list \<Rightarrow> 'e + 's" where
  "fold_res f s [] = Inr s"
| "fold_res f s (x # xs) = sbind (f s x) (\<lambda>s'. fold_res f s' xs)"

lemma fold_res_invariant:
  assumes "fold_res f s xs = Inr t" and "I s"
    and "\<And>s x t. x \<in> set xs \<Longrightarrow> f s x = Inr t \<Longrightarrow> I s \<Longrightarrow> I t"
  shows "I t"
  using assms by (induction xs arbitrary: s) (auto simp: sbind_eq_Inr)

lemma fold_res_append:
  "fold_res f s (xs @ ys) = sbind (fold_res f s xs) (\<lambda>t. fold_res f t ys)"
  by (induction xs arbitrary: s) (auto simp: sbind_def split: sum.splits)

fun collect_res :: "('a \<Rightarrow> 'e + 'b) \<Rightarrow> 'a list \<Rightarrow> 'e + 'b list" where
  "collect_res f [] = Inr []"
| "collect_res f (x # xs) = sbind (f x) (\<lambda>y. sbind (collect_res f xs) (\<lambda>ys. Inr (y # ys)))"

lemma collect_res_iff: "collect_res f xs = Inr ys \<longleftrightarrow> list_all2 (\<lambda>x y. f x = Inr y) xs ys"
  by (induction xs arbitrary: ys) (auto simp: sbind_eq_Inr list_all2_Cons1)

lemma collect_res_map_inverse:
  "(\<And>x. x \<in> set xs \<Longrightarrow> f (g x) = Inr x) \<Longrightarrow> collect_res f (map g xs) = Inr xs"
  by (induction xs) simp_all

section \<open>Ready branches of a select\<close>

definition select_ready :: "(bool \<times> 'a) list \<Rightarrow> 'a list" where
  "select_ready branches = map snd (filter fst branches)"

lemma select_ready_simps [simp]:
  "select_ready [] = []"
  "select_ready ((r, x) # bs) = (if r then x # select_ready bs else select_ready bs)"
  by (simp_all add: select_ready_def)

lemma select_ready_mem: "x \<in> set (select_ready bs) \<longleftrightarrow> (True, x) \<in> set bs"
  by (force simp: select_ready_def)

section \<open>Transition systems\<close>

inductive reach :: "('s \<Rightarrow> bool) \<Rightarrow> ('s \<Rightarrow> 's \<Rightarrow> bool) \<Rightarrow> 's \<Rightarrow> bool"
  for start :: "'s \<Rightarrow> bool" and step :: "'s \<Rightarrow> 's \<Rightarrow> bool" where
  reach_start: "start s \<Longrightarrow> reach start step s"
| reach_step: "reach start step s \<Longrightarrow> step s t \<Longrightarrow> reach start step t"

locale invariant_system =
  fixes start :: "'s \<Rightarrow> bool" and step :: "'s \<Rightarrow> 's \<Rightarrow> bool" and inv :: "'s \<Rightarrow> bool"
  assumes inv_start: "start s \<Longrightarrow> inv s"
    and inv_step: "inv s \<Longrightarrow> step s t \<Longrightarrow> inv t"
begin

lemma reach_inv: "reach start step s \<Longrightarrow> inv s"
  by (induction rule: reach.induct) (auto intro: inv_start inv_step)

lemma inv_steps: "step\<^sup>*\<^sup>* s t \<Longrightarrow> inv s \<Longrightarrow> inv t"
  by (induction rule: rtranclp_induct) (auto intro: inv_step)

end

lemma reach_steps:
  assumes "step\<^sup>*\<^sup>* s t" and "reach start step s"
  shows "reach start step t"
  using assms by (induction rule: rtranclp_induct) (auto intro: reach_step)

text \<open>
  Refinement by a map to abstract states: every step is matched by some abstract steps, possibly
  none, from the states that satisfy an invariant.
\<close>

locale system_refinement =
  fixes start :: "'c \<Rightarrow> bool" and step :: "'c \<Rightarrow> 'c \<Rightarrow> bool" and inv :: "'c \<Rightarrow> bool"
    and astart :: "'a \<Rightarrow> bool" and astep :: "'a \<Rightarrow> 'a \<Rightarrow> bool" and absf :: "'c \<Rightarrow> 'a"
  assumes refine_start: "start c \<Longrightarrow> inv c \<and> astart (absf c)"
    and refine_step: "inv c \<Longrightarrow> reach astart astep (absf c) \<Longrightarrow> step c c' \<Longrightarrow>
      inv c' \<and> astep\<^sup>*\<^sup>* (absf c) (absf c')"
begin

lemma refine_reach: "reach start step c \<Longrightarrow> inv c \<and> reach astart astep (absf c)"
proof (induction rule: reach.induct)
  case (reach_start c)
  with refine_start [OF this] show ?case by (simp add: reach.reach_start)
next
  case (reach_step c c')
  with refine_step [of c c'] show ?case by (blast intro: reach_steps)
qed

end

section \<open>Iteration orders of hash maps\<close>

definition enumerates :: "'k list \<Rightarrow> ('k \<rightharpoonup> 'v) \<Rightarrow> bool" where
  "enumerates ks m \<longleftrightarrow> distinct ks \<and> set ks = dom m"

lemma enumerates_exists: "finite (dom m) \<Longrightarrow> \<exists>ks. enumerates ks m"
  unfolding enumerates_def using finite_distinct_list by metis

lemma enumerates_empty [simp]: "enumerates ks Map.empty \<longleftrightarrow> ks = []"
  by (auto simp: enumerates_def)

end
