(* ===== verification/Errors.thy ===== *)
theory Errors
  imports Prelude
begin

text \<open>
  Models \<open>splitter-client/src/error.rs\<close>: the client's error type, its translation to and
  from gRPC statuses, and the classification that decides whether a failed call is retried.

  \<open>tonic::Status\<close> is an external type of which the client only uses the code and the message.
  Of the gRPC codes the source names six; every other code is \<open>OtherCode\<close> with its number, so
  nothing here depends on codes the source does not mention. \<open>tonic::transport::Error\<close> is
  represented by its display text, the only thing the source reads from it.

  \<open>fault\<close> adds the panics of the standard library's checked arithmetic to the error values, so
  that a panic propagates through \<open>sbind\<close> the way unwinding does, while code that inspects a
  \<open>Result\<close> only ever matches \<open>Err\<close>.
\<close>

section \<open>Statuses and client errors\<close>

datatype Code =
    OutOfRange | Aborted | Unavailable | DeadlineExceeded | CancelledCode | InvalidArgument
  | OtherCode nat

record Status =
  st_code :: Code
  st_message :: string

datatype ClientError =
    NotOwned
  | Draining
  | NoResolution
  | Revoked
  | Expired
  | SessionClosed string
  | Cancelled
  | InvalidMessage string
  | Transport Status
  | TransportSetup string

fun into_grpc :: "ClientError \<Rightarrow> Status" where
  "into_grpc NotOwned = \<lparr>st_code = OutOfRange, st_message = ''not owned''\<rparr>"
| "into_grpc Draining = \<lparr>st_code = Aborted, st_message = ''draining''\<rparr>"
| "into_grpc NoResolution = \<lparr>st_code = Unavailable, st_message = ''no resolution''\<rparr>"
| "into_grpc Revoked = \<lparr>st_code = Aborted, st_message = ''revoked''\<rparr>"
| "into_grpc Expired = \<lparr>st_code = DeadlineExceeded, st_message = ''expired''\<rparr>"
| "into_grpc (SessionClosed msg) = \<lparr>st_code = Unavailable, st_message = msg\<rparr>"
| "into_grpc Cancelled = \<lparr>st_code = CancelledCode, st_message = ''cancelled''\<rparr>"
| "into_grpc (InvalidMessage m) = \<lparr>st_code = InvalidArgument, st_message = m\<rparr>"
| "into_grpc (Transport s) = s"
| "into_grpc (TransportSetup e) = \<lparr>st_code = Unavailable, st_message = e\<rparr>"

definition from_grpc :: "Status \<Rightarrow> ClientError" where
  "from_grpc status =
     (case st_code status of
        OutOfRange \<Rightarrow> NotOwned
      | Aborted \<Rightarrow> Draining
      | _ \<Rightarrow> Transport status)"

fun is_ownership :: "ClientError \<Rightarrow> bool" where
  "is_ownership NotOwned = True"
| "is_ownership Draining = True"
| "is_ownership (Transport s) = (st_code s = Unavailable)"
| "is_ownership _ = False"

section \<open>Panics\<close>

datatype fault = Panic | Err ClientError

definition lift_err :: "ClientError + 'a \<Rightarrow> fault + 'a" where
  "lift_err r = (case r of Inl e \<Rightarrow> Inl (Err e) | Inr x \<Rightarrow> Inr x)"

lemma lift_err_simps [simp, res_simps]:
  "lift_err (Inl e) = Inl (Err e)"
  "lift_err (Inr x) = Inr x"
  by (simp_all add: lift_err_def)

lemma lift_err_eq_Inr [res_simps]: "lift_err r = Inr x \<longleftrightarrow> r = Inr x"
  by (cases r) simp_all

lemma lift_err_eq_Inl [res_simps]: "lift_err r = Inl f \<longleftrightarrow> (\<exists>e. r = Inl e \<and> f = Err e)"
  by (cases r) auto

lemma lift_err_no_panic [simp]: "lift_err r \<noteq> Inl Panic"
  by (cases r) simp_all

lemma lift_err_sbind: "lift_err (sbind r f) = sbind (lift_err r) (\<lambda>x. lift_err (f x))"
  by (cases r) simp_all

section \<open>Behaviour across a hop\<close>

lemma from_grpc_code:
  "st_code s = OutOfRange \<Longrightarrow> from_grpc s = NotOwned"
  "st_code s = Aborted \<Longrightarrow> from_grpc s = Draining"
  "st_code s \<noteq> OutOfRange \<Longrightarrow> st_code s \<noteq> Aborted \<Longrightarrow> from_grpc s = Transport s"
  by (auto simp: from_grpc_def split: Code.split)

lemma is_ownership_from_grpc:
  "is_ownership (from_grpc s) \<longleftrightarrow> st_code s \<in> {OutOfRange, Aborted, Unavailable}"
  by (auto simp: from_grpc_def split: Code.split)

text \<open>
  What the caller of a peer sees of the peer's error: which errors arrive unchanged, which
  arrive as a different domain error, and that every other one arrives as a transport error
  with its own code and message.
\<close>

theorem error_after_hop:
  "from_grpc (into_grpc e) =
     (case e of
        NotOwned \<Rightarrow> NotOwned
      | Draining \<Rightarrow> Draining
      | Revoked \<Rightarrow> Draining
      | Transport s \<Rightarrow> (if st_code s = OutOfRange then NotOwned
                       else if st_code s = Aborted then Draining else Transport s)
      | _ \<Rightarrow> Transport (into_grpc e))"
  by (cases e) (auto simp: from_grpc_def split: Code.split)

text \<open>
  Retryability survives forwarding: a peer's ownership-class error is still ownership-class
  for its caller. The errors that only become retryable on the wire are exactly a revoked grant,
  a missing resolution, a closed session, a failed transport setup and a transport status that
  already carries one of the two domain codes.
\<close>

theorem retryable_after_hop:
  "is_ownership (from_grpc (into_grpc e)) \<longleftrightarrow>
     is_ownership e \<or> e = NoResolution \<or> e = Revoked
     \<or> (\<exists>m. e = SessionClosed m \<or> e = TransportSetup m)
     \<or> (\<exists>s. e = Transport s \<and> (st_code s = OutOfRange \<or> st_code s = Aborted))"
  unfolding is_ownership_from_grpc by (cases e) auto

text \<open>
  Forwarding is stable: an error received from one peer and forwarded again is received
  unchanged by the next one, whatever the number of hops.
\<close>

theorem hops_are_stable: "((from_grpc \<circ> into_grpc) ^^ n) (from_grpc s) = from_grpc s"
proof -
  have "from_grpc (into_grpc (from_grpc s)) = from_grpc s"
    by (auto simp: from_grpc_def split: Code.split)
  then show ?thesis by (induction n) simp_all
qed

end
