(* ===== verification/Clock.thy ===== *)
theory Clock
  imports Errors
begin

text \<open>
  The parts of \<open>std::time\<close> the client uses, at nanosecond resolution.
  \<^item> \<open>SystemTime\<close> is the signed number of nanoseconds since the Unix epoch. On Unix its seconds are
    an \<open>i64\<close>; adding a \<open>Duration\<close> outside that range panics.
  \<^item> \<open>Duration\<close> is an unsigned number of nanoseconds; its seconds are a \<open>u64\<close>.
  \<^item> \<open>duration_since\<close> is an error when the other time is later.
  The current time is an argument of the operations that read it.
\<close>

type_synonym SystemTime = int
type_synonym Duration = nat

abbreviation nanos_per_sec :: nat where
  "nanos_per_sec \<equiv> 1000000000"

definition from_secs :: "nat \<Rightarrow> Duration" where
  "from_secs s = s * nanos_per_sec"

definition from_millis :: "nat \<Rightarrow> Duration" where
  "from_millis ms = ms * 1000000"

definition duration_max :: Duration where
  "duration_max = 2 ^ 64 * nanos_per_sec - 1"

definition system_time_valid :: "SystemTime \<Rightarrow> bool" where
  "system_time_valid t \<longleftrightarrow>
     - (2 ^ 63 * int nanos_per_sec) \<le> t \<and> t < 2 ^ 63 * int nanos_per_sec"

definition add_duration :: "SystemTime \<Rightarrow> Duration \<Rightarrow> fault + SystemTime" where
  "add_duration t d =
     (if t + int d < 2 ^ 63 * int nanos_per_sec then Inr (t + int d) else Inl Panic)"

definition duration_since :: "SystemTime \<Rightarrow> SystemTime \<Rightarrow> Duration option" where
  "duration_since t earlier = (if earlier \<le> t then Some (nat (t - earlier)) else None)"

text \<open>\<open>t.duration_since(now).unwrap_or(Duration::ZERO)\<close>, the time left until \<open>t\<close>.\<close>

definition time_left :: "SystemTime \<Rightarrow> SystemTime \<Rightarrow> Duration" where
  "time_left t now = (case duration_since t now of None \<Rightarrow> 0 | Some d \<Rightarrow> d)"

lemma time_left_eq: "time_left t now = nat (t - now)"
  by (auto simp: time_left_def duration_since_def)

lemma time_left_zero: "time_left t now = 0 \<longleftrightarrow> t \<le> now"
  by (simp add: time_left_eq)

lemma add_duration_valid: "add_duration t d = Inr u \<Longrightarrow> system_time_valid t \<Longrightarrow> system_time_valid u"
  by (auto simp: add_duration_def system_time_valid_def split: if_splits)

lemma add_duration_error: "add_duration t d = Inl f \<Longrightarrow> f = Panic"
  by (auto simp: add_duration_def split: if_splits)

end
