(* ===== verification/Ids.thy ===== *)
theory Ids
  imports Clock
begin

text \<open>
  Models \<open>splitter-client/src/ids.rs\<close>: the domain types of the client.
  Every \<open>name_newtype!\<close> is a datatype of its own with one constructor over \<open>string\<close>, so that a
  tenant cannot be passed for a service here either; the selector is \<open>as_str\<close>. \<open>Default\<close> of a
  name is the empty string. Strings are lists of bytes (UTF-8), which is also how Rust compares them.

  \<open>uuid::Uuid\<close> is an external type of 16 bytes. Its parser and printer are arguments of the
  operations that use them; \<open>uuid_laws\<close> states the documented fact that the parser reads the
  printer's hyphenated form back.
\<close>

section \<open>Identifiers\<close>

type_synonym uuid = "128 word"

datatype InstanceId = InstanceId (as_uuid: uuid)

type_synonym ConsumerId = InstanceId

record uuid_lib =
  parse_str :: "string \<Rightarrow> string + uuid"  \<comment> \<open>\<open>Inl\<close>: the display text of \<open>uuid::Error\<close>\<close>
  show_uuid :: "uuid \<Rightarrow> string"

definition uuid_laws :: "uuid_lib \<Rightarrow> bool" where
  "uuid_laws U \<longleftrightarrow> (\<forall>u. parse_str U (show_uuid U u) = Inr u)"

definition instance_id_try_from :: "uuid_lib \<Rightarrow> string \<Rightarrow> string + InstanceId" where
  "instance_id_try_from U s = map_sum id InstanceId (parse_str U s)"

definition instance_id_to_string :: "uuid_lib \<Rightarrow> InstanceId \<Rightarrow> string" where
  "instance_id_to_string U i = show_uuid U (as_uuid i)"

lemma instance_id_roundtrip:
  "uuid_laws U \<Longrightarrow> instance_id_try_from U (instance_id_to_string U i) = Inr i"
  by (simp add: uuid_laws_def instance_id_try_from_def instance_id_to_string_def)

section \<open>Name newtypes\<close>

datatype GrantId = GrantId (grant_id_str: string)
datatype Region = Region (region_str: string)
datatype NodeName = NodeName (node_str: string)
datatype TenantName = TenantName (tenant_str: string)
datatype ServiceName = ServiceName (service_str: string)
datatype DomainName = DomainName (domain_str: string)
datatype Endpoint = Endpoint (endpoint_str: string)
datatype InstanceName = InstanceName (instance_name_str: string)

text \<open>\<open>#[derive(Default)]\<close> of the names that are defaulted somewhere.\<close>

instantiation Region :: default
begin
definition "default = Region []"
instance ..
end

instantiation NodeName :: default
begin
definition "default = NodeName []"
instance ..
end

instantiation Endpoint :: default
begin
definition "default = Endpoint []"
instance ..
end

definition region_is_empty :: "Region \<Rightarrow> bool" where
  "region_is_empty r \<longleftrightarrow> region_str r = []"

definition endpoint_is_empty :: "Endpoint \<Rightarrow> bool" where
  "endpoint_is_empty e \<longleftrightarrow> endpoint_str e = []"

section \<open>Locations and instances\<close>

record Location =
  loc_region :: Region
  loc_node :: NodeName

definition location_new :: "string \<Rightarrow> string \<Rightarrow> Location" where
  "location_new region node = \<lparr>loc_region = Region region, loc_node = NodeName node\<rparr>"

definition location_default :: Location where
  "location_default = \<lparr>loc_region = default, loc_node = default\<rparr>"

definition location_to_string :: "Location \<Rightarrow> string" where
  "location_to_string l = region_str (loc_region l) @ ''/'' @ node_str (loc_node l)"

record Instance =
  inst_id :: InstanceId
  inst_location :: Location
  inst_name :: InstanceName
  inst_created :: SystemTime
  inst_endpoint :: Endpoint

definition instance_to_string :: "uuid_lib \<Rightarrow> Instance \<Rightarrow> string" where
  "instance_to_string U i =
     instance_id_to_string U (inst_id i) @ ''@'' @ location_to_string (inst_location i)"

section \<open>Qualified names\<close>

record QualifiedServiceName =
  qsn_tenant :: TenantName
  qsn_service :: ServiceName

definition qsn_new :: "string \<Rightarrow> string \<Rightarrow> QualifiedServiceName" where
  "qsn_new tenant service =
     \<lparr>qsn_tenant = TenantName tenant, qsn_service = ServiceName service\<rparr>"

text \<open>\<open>str::split_once\<close>: the parts before and after the first occurrence of the separator.\<close>

fun split_once :: "char \<Rightarrow> string \<Rightarrow> (string \<times> string) option" where
  "split_once c [] = None"
| "split_once c (x # xs) =
     (if x = c then Some ([], xs)
      else case split_once c xs of None \<Rightarrow> None | Some (a, b) \<Rightarrow> Some (x # a, b))"

definition qsn_parse :: "string \<Rightarrow> QualifiedServiceName option" where
  "qsn_parse s =
     (case split_once (CHR ''/'') s of
        None \<Rightarrow> None
      | Some (tenant, service) \<Rightarrow>
          if tenant = [] \<or> service = [] then None else Some (qsn_new tenant service))"

definition qsn_to_string :: "QualifiedServiceName \<Rightarrow> string" where
  "qsn_to_string q = tenant_str (qsn_tenant q) @ ''/'' @ service_str (qsn_service q)"

record QualifiedDomainName =
  qdn_service :: QualifiedServiceName
  qdn_name :: DomainName

definition qdn_to_string :: "QualifiedDomainName \<Rightarrow> string" where
  "qdn_to_string d = qsn_to_string (qdn_service d) @ ''/'' @ domain_str (qdn_name d)"

record DomainKey =
  dk_region :: Region
  dk_key :: string

definition domain_key_default :: DomainKey where
  "domain_key_default = \<lparr>dk_region = default, dk_key = []\<rparr>"

record QualifiedDomainKey =
  qdk_domain :: QualifiedDomainName
  qdk_key :: DomainKey

record DomainKeyName =
  dkn_domain :: DomainName
  dkn_name :: string

section \<open>Shards and grant states\<close>

datatype DomainType = Invalid | Unit | Global | Regional

datatype GrantState =
  Unknown | Active | Allocated | Revoked | AllocatedLoaded | RevokedUnloaded

record Shard =
  sh_domain :: QualifiedDomainName
  sh_kind :: DomainType
  sh_region :: Region
  sh_from :: string
  sh_to :: string

definition shard_to_string :: "Shard \<Rightarrow> string" where
  "shard_to_string s =
     qdn_to_string (sh_domain s) @ ''['' @ sh_from s @ ''..'' @ sh_to s @ '']''"

section \<open>Parsing service names\<close>

lemma split_once_eq_Some:
  "split_once c s = Some (a, b) \<longleftrightarrow> s = a @ c # b \<and> c \<notin> set a"
proof (induction s arbitrary: a)
  case Nil
  show ?case by simp
next
  case (Cons x xs)
  have "split_once c (x # xs) = Some (a, b) \<longleftrightarrow>
      (if x = c then a = [] \<and> b = xs else \<exists>a'. a = x # a' \<and> split_once c xs = Some (a', b))"
    by (auto split: option.split)
  then show ?case
    unfolding Cons.IH by (cases a) auto
qed

lemma split_once_eq_None: "split_once c s = None \<longleftrightarrow> c \<notin> set s"
  by (induction s) (auto split: option.splits)

lemma split_once_append: "c \<notin> set a \<Longrightarrow> split_once c (a @ c # b) = Some (a, b)"
  by (simp add: split_once_eq_Some)

text \<open>
  Parsing \<open>tenant/service\<close> is the exact inverse of printing: a string parses to \<open>q\<close> if and only
  if it is the text of \<open>q\<close>, both names are non-empty and the tenant has no slash (the service may).
\<close>

theorem qsn_parse_iff:
  "qsn_parse s = Some q \<longleftrightarrow>
     qsn_to_string q = s \<and> tenant_str (qsn_tenant q) \<noteq> [] \<and> service_str (qsn_service q) \<noteq> []
     \<and> CHR ''/'' \<notin> set (tenant_str (qsn_tenant q))"
proof
  assume "qsn_parse s = Some q"
  then show "qsn_to_string q = s \<and> tenant_str (qsn_tenant q) \<noteq> [] \<and> service_str (qsn_service q) \<noteq> []
     \<and> CHR ''/'' \<notin> set (tenant_str (qsn_tenant q))"
    by (auto simp: qsn_parse_def qsn_new_def qsn_to_string_def split_once_eq_Some
        split: option.splits if_splits)
next
  assume q: "qsn_to_string q = s \<and> tenant_str (qsn_tenant q) \<noteq> [] \<and> service_str (qsn_service q) \<noteq> []
     \<and> CHR ''/'' \<notin> set (tenant_str (qsn_tenant q))"
  then have "split_once (CHR ''/'') s = Some (tenant_str (qsn_tenant q), service_str (qsn_service q))"
    by (auto simp: qsn_to_string_def split_once_append)
  with q show "qsn_parse s = Some q" by (simp add: qsn_parse_def qsn_new_def)
qed

end
