(* ===== verification/Wire.thy ===== *)
theory Wire
  imports Ids
begin

text \<open>
  The messages of \<open>proto/atoms/splitter/*.proto\<close> as the generated Rust structs hold them: a
  singular message field is an \<open>option\<close>, a \<open>oneof\<close> an \<open>option\<close> of a datatype, an enum field the
  raw \<open>i32\<close>, a repeated field a list. The enum types list the numbers the \<open>.proto\<close> files give; a
  number outside the list has no variant. \<open>i32\<close> and \<open>i64\<close> are words read with \<open>sint\<close>.
\<close>

type_synonym i32 = "32 word"
type_synonym i64 = "64 word"
type_synonym u64 = "64 word"

section \<open>Model messages (model.proto, location.proto)\<close>

record pb_Timestamp =
  ts_seconds :: i64
  ts_nanos :: i32

record pb_Location =
  pbl_region :: string
  pbl_node :: string

record pb_LocInstance =
  pbli_id :: string
  pbli_location :: "pb_Location option"
  pbli_created :: "pb_Timestamp option"
  pbli_name :: string

record pb_Instance =
  pbi_instance :: "pb_LocInstance option"
  pbi_endpoint :: string

record pb_QualifiedServiceName =
  pbqs_tenant :: string
  pbqs_service :: string

record pb_QualifiedDomainName =
  pbqd_service :: "pb_QualifiedServiceName option"
  pbqd_name :: string

record pb_DomainKey =
  pbk_region :: string
  pbk_key :: string

record pb_QualifiedDomainKey =
  pbqk_domain :: "pb_QualifiedDomainName option"
  pbqk_key :: "pb_DomainKey option"

record pb_DomainKeyName =
  pbkn_domain :: string
  pbkn_name :: string

datatype pb_DomainType = Invalid | Unit | Global | Regional

definition pb_domain_type_try_from :: "i32 \<Rightarrow> pb_DomainType option" where
  "pb_domain_type_try_from v =
     (if v = 0 then Some pb_DomainType.Invalid
      else if v = 1 then Some pb_DomainType.Unit
      else if v = 2 then Some pb_DomainType.Global
      else if v = 3 then Some pb_DomainType.Regional
      else None)"

fun pb_domain_type_as_i32 :: "pb_DomainType \<Rightarrow> i32" where
  "pb_domain_type_as_i32 pb_DomainType.Invalid = 0"
| "pb_domain_type_as_i32 pb_DomainType.Unit = 1"
| "pb_domain_type_as_i32 pb_DomainType.Global = 2"
| "pb_domain_type_as_i32 pb_DomainType.Regional = 3"

datatype pb_GrantState =
  Unknown | Active | Allocated | Revoked | AllocatedLoaded | RevokedUnloaded

definition pb_grant_state_try_from :: "i32 \<Rightarrow> pb_GrantState option" where
  "pb_grant_state_try_from v =
     (if v = 0 then Some pb_GrantState.Unknown
      else if v = 1 then Some pb_GrantState.Active
      else if v = 2 then Some pb_GrantState.Allocated
      else if v = 3 then Some pb_GrantState.Revoked
      else if v = 4 then Some pb_GrantState.AllocatedLoaded
      else if v = 5 then Some pb_GrantState.RevokedUnloaded
      else None)"

fun pb_grant_state_as_i32 :: "pb_GrantState \<Rightarrow> i32" where
  "pb_grant_state_as_i32 pb_GrantState.Unknown = 0"
| "pb_grant_state_as_i32 pb_GrantState.Active = 1"
| "pb_grant_state_as_i32 pb_GrantState.Allocated = 2"
| "pb_grant_state_as_i32 pb_GrantState.Revoked = 3"
| "pb_grant_state_as_i32 pb_GrantState.AllocatedLoaded = 4"
| "pb_grant_state_as_i32 pb_GrantState.RevokedUnloaded = 5"

record pb_Shard =
  pbs_domain :: "pb_QualifiedDomainName option"
  pbs_type :: i32
  pbs_region :: string
  pbs_from :: string
  pbs_to :: string

record pb_Grant =
  pbg_id :: string
  pbg_shard :: "pb_Shard option"
  pbg_state :: i32
  pbg_lease :: "pb_Timestamp option"
  pbg_assigned :: "pb_Timestamp option"

section \<open>Cluster messages (cluster.proto)\<close>

record pb_GrantInfo =
  gi_id :: string
  gi_shard :: "pb_Shard option"
  gi_state :: i32

record pb_Assignment =
  as_consumer :: "pb_Instance option"
  as_grants :: "pb_GrantInfo list"

record pb_Snapshot =
  sn_assignments :: "pb_Assignment list"
  sn_origin :: "pb_LocInstance option"
  sn_shards :: "pb_Shard list"

record pb_ClusterAssign =
  ca_assignments :: "pb_Assignment list"

record pb_ClusterUpdate =
  cu_grants :: "pb_GrantInfo list"

record pb_ClusterUnassign =
  cun_grants :: "string list"

record pb_ClusterRemove =
  crm_consumers :: "string list"

record pb_ClusterShards =
  csh_shards :: "pb_Shard list"

record pb_Change =
  ch_assign :: "pb_ClusterAssign option"
  ch_update :: "pb_ClusterUpdate option"
  ch_unassign :: "pb_ClusterUnassign option"
  ch_remove :: "pb_ClusterRemove option"
  ch_shards :: "pb_ClusterShards option"

datatype cluster_Msg = Snapshot pb_Snapshot | Change pb_Change

record pb_ClusterMessage =
  cm_msg :: "cluster_Msg option"
  cm_id :: string
  cm_version :: i64
  cm_timestamp :: "pb_Timestamp option"

section \<open>Session messages (session.proto)\<close>

record pb_Establish =
  es_client :: "pb_LocInstance option"
  es_id :: string

record pb_Established =
  ed_ttl :: "pb_Timestamp option"
  ed_server :: "pb_LocInstance option"

record pb_Heartbeat =
  hb_now :: "pb_Timestamp option"

record pb_HeartbeatAck =
  ha_ttl :: "pb_Timestamp option"

record pb_Closed =
  cl_error :: string

datatype session_Request =
    Establish pb_Establish
  | Established pb_Established
  | Heartbeat pb_Heartbeat
  | Ack pb_HeartbeatAck
  | Closed pb_Closed

record pb_SessionMessage =
  se_request :: "session_Request option"

section \<open>Client messages (consumer.proto)\<close>

record pb_RegisterOptions =
  ro_names :: "pb_DomainKeyName list"
  ro_capacity_limit :: u64

record pb_Register =
  rg_consumer :: "pb_Instance option"
  rg_service :: "pb_QualifiedServiceName option"
  rg_domains :: "pb_QualifiedDomainName list"
  rg_active :: "pb_Grant list"
  rg_options :: "pb_RegisterOptions option"

record pb_Extend =
  ex_lease :: "pb_Timestamp option"

record pb_Notify =
  no_update :: "pb_Grant option"
  no_target :: "pb_Grant option"

record pb_ShardLoad =
  sl_id :: string
  sl_load :: i64

record pb_Status =
  status_load :: "pb_ShardLoad list option"  \<comment> \<open>\<open>oneof { Load load = 1; }\<close>\<close>

text \<open>
  The \<open>oneof\<close> of \<open>ClientMessage\<close>; \<open>Assign\<close>, \<open>Promote\<close>, \<open>Revoke\<close> and \<open>Released\<close> only carry a
  list of grants, \<open>Update\<close> one optional grant.
\<close>

datatype client_Msg =
    Register pb_Register
  | Deregister
  | Extend pb_Extend
  | Assign "pb_Grant list"
  | Promote "pb_Grant list"
  | Revoke "pb_Grant list"
  | Released "pb_Grant list"
  | Update "pb_Grant option"
  | Notify pb_Notify
  | StatusMsg pb_Status

record pb_ClientMessage =
  clm_msg :: "client_Msg option"

datatype consumer_Msg = Client pb_ClientMessage | Cluster pb_ClusterMessage

record pb_ConsumerMessage =
  com_msg :: "consumer_Msg option"

datatype join_Msg = Session pb_SessionMessage | Consumer pb_ConsumerMessage

record pb_JoinMessage =
  jm_msg :: "join_Msg option"

section \<open>Enum numbers\<close>

lemma pb_domain_type_roundtrip [simp]:
  "pb_domain_type_try_from (pb_domain_type_as_i32 d) = Some d"
  by (cases d) (simp_all add: pb_domain_type_try_from_def)

lemma pb_grant_state_roundtrip [simp]:
  "pb_grant_state_try_from (pb_grant_state_as_i32 s) = Some s"
  by (cases s) (simp_all add: pb_grant_state_try_from_def)

lemma pb_domain_type_try_from_Some:
  "pb_domain_type_try_from v = Some d \<longleftrightarrow> v = pb_domain_type_as_i32 d"
  by (cases d) (auto simp: pb_domain_type_try_from_def)

lemma pb_grant_state_try_from_Some:
  "pb_grant_state_try_from v = Some s \<longleftrightarrow> v = pb_grant_state_as_i32 s"
  by (cases s) (auto simp: pb_grant_state_try_from_def)

end
