(* ===== verification/Wrap.thy ===== *)
theory Wrap
  imports Wire
begin

text \<open>
  Models \<open>splitter-client/src/wrap.rs\<close>: the conversions between the wire messages and the domain
  types. \<open>*_try_from\<close> are the \<open>TryFrom\<close> impls (and \<open>From\<close> impls in the wire-to-domain
  direction), \<open>*_into\<close> the \<open>From\<close> impls that build wire messages.
\<close>

section \<open>Required fields and timestamps\<close>

definition required :: "'a option \<Rightarrow> string \<Rightarrow> ClientError + 'a" where
  "required value field = ok_or value (InvalidMessage (''missing field: '' @ field))"

lemma required_simps [simp, res_simps]:
  "required None f = Inl (InvalidMessage (''missing field: '' @ f))"
  "required (Some x) f = Inr x"
  by (simp_all add: required_def)

definition timestamp_to_system_time :: "pb_Timestamp \<Rightarrow> fault + SystemTime" where
  "timestamp_to_system_time ts =
     (let secs = nat (max 0 (sint (ts_seconds ts)));
          nanos = nat (max 0 (sint (ts_nanos ts)))
      in add_duration 0 (secs * nanos_per_sec + nanos))"

definition system_time_to_timestamp :: "SystemTime \<Rightarrow> pb_Timestamp" where
  "system_time_to_timestamp t =
     (case duration_since t 0 of
        Some d \<Rightarrow> \<lparr>ts_seconds = of_nat (d div nanos_per_sec), ts_nanos = of_nat (d mod nanos_per_sec)\<rparr>
      | None \<Rightarrow> \<lparr>ts_seconds = 0, ts_nanos = 0\<rparr>)"

definition now_timestamp :: "SystemTime \<Rightarrow> pb_Timestamp" where
  "now_timestamp now = system_time_to_timestamp now"

section \<open>Locations and instances\<close>

definition location_from :: "pb_Location \<Rightarrow> Location" where
  "location_from l = \<lparr>loc_region = Region (pbl_region l), loc_node = NodeName (pbl_node l)\<rparr>"

definition location_into :: "Location \<Rightarrow> pb_Location" where
  "location_into l = \<lparr>pbl_region = region_str (loc_region l), pbl_node = node_str (loc_node l)\<rparr>"

definition invalid_instance_id :: "string \<Rightarrow> string \<Rightarrow> ClientError" where
  "invalid_instance_id i e =
     InvalidMessage (''invalid instance id '' @ [CHR 0x27] @ i @ [CHR 0x27] @ '': '' @ e)"

definition loc_instance_try_from :: "uuid_lib \<Rightarrow> pb_LocInstance \<Rightarrow> fault + Instance" where
  "loc_instance_try_from U pb =
     sbind (lift_err (required (pbli_created pb) ''location.Instance.created'')) (\<lambda>created.
     sbind (lift_err (map_sum (invalid_instance_id (pbli_id pb)) id
              (instance_id_try_from U (pbli_id pb)))) (\<lambda>i.
     sbind (timestamp_to_system_time created) (\<lambda>t.
     Inr \<lparr>inst_id = i,
          inst_location = (case pbli_location pb of None \<Rightarrow> location_default
                           | Some l \<Rightarrow> location_from l),
          inst_name = InstanceName (pbli_name pb),
          inst_created = t,
          inst_endpoint = default\<rparr>)))"

definition instance_try_from :: "uuid_lib \<Rightarrow> pb_Instance \<Rightarrow> fault + Instance" where
  "instance_try_from U pb =
     sbind (lift_err (required (pbi_instance pb) ''Instance.instance'')) (\<lambda>inner.
     sbind (loc_instance_try_from U inner) (\<lambda>inst.
     Inr (inst\<lparr>inst_endpoint := Endpoint (pbi_endpoint pb)\<rparr>)))"

definition loc_instance_into :: "uuid_lib \<Rightarrow> Instance \<Rightarrow> pb_LocInstance" where
  "loc_instance_into U i =
     \<lparr>pbli_id = instance_id_to_string U (inst_id i),
      pbli_location = Some (location_into (inst_location i)),
      pbli_created = Some (system_time_to_timestamp (inst_created i)),
      pbli_name = instance_name_str (inst_name i)\<rparr>"

definition instance_into :: "uuid_lib \<Rightarrow> Instance \<Rightarrow> pb_Instance" where
  "instance_into U i =
     \<lparr>pbi_instance = Some (loc_instance_into U i),
      pbi_endpoint = endpoint_str (inst_endpoint i)\<rparr>"

section \<open>Names and keys\<close>

definition qsn_from :: "pb_QualifiedServiceName \<Rightarrow> QualifiedServiceName" where
  "qsn_from p = \<lparr>qsn_tenant = TenantName (pbqs_tenant p), qsn_service = ServiceName (pbqs_service p)\<rparr>"

definition qsn_into :: "QualifiedServiceName \<Rightarrow> pb_QualifiedServiceName" where
  "qsn_into q = \<lparr>pbqs_tenant = tenant_str (qsn_tenant q), pbqs_service = service_str (qsn_service q)\<rparr>"

definition qdn_try_from :: "pb_QualifiedDomainName \<Rightarrow> ClientError + QualifiedDomainName" where
  "qdn_try_from p =
     sbind (required (pbqd_service p) ''QualifiedDomainName.service'') (\<lambda>s.
     Inr \<lparr>qdn_service = qsn_from s, qdn_name = DomainName (pbqd_name p)\<rparr>)"

definition qdn_into :: "QualifiedDomainName \<Rightarrow> pb_QualifiedDomainName" where
  "qdn_into d = \<lparr>pbqd_service = Some (qsn_into (qdn_service d)), pbqd_name = domain_str (qdn_name d)\<rparr>"

definition domain_key_from :: "pb_DomainKey \<Rightarrow> DomainKey" where
  "domain_key_from p = \<lparr>dk_region = Region (pbk_region p), dk_key = pbk_key p\<rparr>"

definition domain_key_into :: "DomainKey \<Rightarrow> pb_DomainKey" where
  "domain_key_into d = \<lparr>pbk_region = region_str (dk_region d), pbk_key = dk_key d\<rparr>"

definition qdk_try_from :: "pb_QualifiedDomainKey \<Rightarrow> ClientError + QualifiedDomainKey" where
  "qdk_try_from p =
     sbind (required (pbqk_domain p) ''QualifiedDomainKey.domain'') (\<lambda>pd.
     sbind (qdn_try_from pd) (\<lambda>d.
     Inr \<lparr>qdk_domain = d,
          qdk_key = (case pbqk_key p of None \<Rightarrow> domain_key_default | Some k \<Rightarrow> domain_key_from k)\<rparr>))"

definition qdk_into :: "QualifiedDomainKey \<Rightarrow> pb_QualifiedDomainKey" where
  "qdk_into k =
     \<lparr>pbqk_domain = Some (qdn_into (qdk_domain k)), pbqk_key = Some (domain_key_into (qdk_key k))\<rparr>"

definition domain_key_name_from :: "pb_DomainKeyName \<Rightarrow> DomainKeyName" where
  "domain_key_name_from p = \<lparr>dkn_domain = DomainName (pbkn_domain p), dkn_name = pbkn_name p\<rparr>"

definition domain_key_name_into :: "DomainKeyName \<Rightarrow> pb_DomainKeyName" where
  "domain_key_name_into n = \<lparr>pbkn_domain = domain_str (dkn_domain n), pbkn_name = dkn_name n\<rparr>"

section \<open>Enums\<close>

fun domain_type_from :: "pb_DomainType \<Rightarrow> DomainType" where
  "domain_type_from pb_DomainType.Invalid = DomainType.Invalid"
| "domain_type_from pb_DomainType.Unit = DomainType.Unit"
| "domain_type_from pb_DomainType.Global = DomainType.Global"
| "domain_type_from pb_DomainType.Regional = DomainType.Regional"

fun domain_type_into :: "DomainType \<Rightarrow> pb_DomainType" where
  "domain_type_into DomainType.Invalid = pb_DomainType.Invalid"
| "domain_type_into DomainType.Unit = pb_DomainType.Unit"
| "domain_type_into DomainType.Global = pb_DomainType.Global"
| "domain_type_into DomainType.Regional = pb_DomainType.Regional"

definition domain_type_from_i32 :: "i32 \<Rightarrow> DomainType" where
  "domain_type_from_i32 v =
     domain_type_from (case pb_domain_type_try_from v of None \<Rightarrow> pb_DomainType.Invalid | Some d \<Rightarrow> d)"

fun grant_state_from :: "pb_GrantState \<Rightarrow> GrantState" where
  "grant_state_from pb_GrantState.Unknown = GrantState.Unknown"
| "grant_state_from pb_GrantState.Active = GrantState.Active"
| "grant_state_from pb_GrantState.Allocated = GrantState.Allocated"
| "grant_state_from pb_GrantState.Revoked = GrantState.Revoked"
| "grant_state_from pb_GrantState.AllocatedLoaded = GrantState.AllocatedLoaded"
| "grant_state_from pb_GrantState.RevokedUnloaded = GrantState.RevokedUnloaded"

fun grant_state_into :: "GrantState \<Rightarrow> pb_GrantState" where
  "grant_state_into GrantState.Unknown = pb_GrantState.Unknown"
| "grant_state_into GrantState.Active = pb_GrantState.Active"
| "grant_state_into GrantState.Allocated = pb_GrantState.Allocated"
| "grant_state_into GrantState.Revoked = pb_GrantState.Revoked"
| "grant_state_into GrantState.AllocatedLoaded = pb_GrantState.AllocatedLoaded"
| "grant_state_into GrantState.RevokedUnloaded = pb_GrantState.RevokedUnloaded"

definition grant_state_from_i32 :: "i32 \<Rightarrow> GrantState" where
  "grant_state_from_i32 v =
     grant_state_from (case pb_grant_state_try_from v of None \<Rightarrow> pb_GrantState.Unknown | Some s \<Rightarrow> s)"

section \<open>Shards\<close>

definition shard_try_from :: "pb_Shard \<Rightarrow> ClientError + Shard" where
  "shard_try_from p =
     sbind (required (pbs_domain p) ''Shard.domain'') (\<lambda>pd.
     sbind (qdn_try_from pd) (\<lambda>d.
     Inr \<lparr>sh_domain = d, sh_kind = domain_type_from_i32 (pbs_type p),
          sh_region = Region (pbs_region p), sh_from = pbs_from p, sh_to = pbs_to p\<rparr>))"

definition shard_into :: "Shard \<Rightarrow> pb_Shard" where
  "shard_into s =
     \<lparr>pbs_domain = Some (qdn_into (sh_domain s)),
      pbs_type = pb_domain_type_as_i32 (domain_type_into (sh_kind s)),
      pbs_region = region_str (sh_region s), pbs_from = sh_from s, pbs_to = sh_to s\<rparr>"

section \<open>Timestamps\<close>

lemma sint_of_nat:
  assumes "n < 2 ^ (LENGTH('a::len) - 1)"
  shows "sint (of_nat n :: 'a word) = int n"
proof -
  have "sint (of_nat n :: 'a word) = sint (word_of_int (int n) :: 'a word)" by simp
  also have "\<dots> = signed_take_bit (LENGTH('a) - 1) (int n)" by (rule sint_sbintrunc')
  also have "\<dots> = int n"
  proof (rule signed_take_bit_int_eq_self)
    have "- (2 ^ (LENGTH('a) - 1)) \<le> (0 :: int)" by simp
    then show "- (2 ^ (LENGTH('a) - 1)) \<le> int n" by linarith
    show "int n < 2 ^ (LENGTH('a) - 1)"
      using assms by (simp add: of_nat_less_iff [symmetric] del: of_nat_less_iff)
  qed
  finally show ?thesis .
qed

lemma sint_i64_of_nat: "n < 2 ^ 63 \<Longrightarrow> sint (of_nat n :: i64) = int n"
  by (rule sint_of_nat) simp

lemma sint_i32_of_nat: "n < 2 ^ 31 \<Longrightarrow> sint (of_nat n :: i32) = int n"
  by (rule sint_of_nat) simp

lemma sint_i64_less: "sint (w :: i64) < 2 ^ 63"
  using sint_less [of w] by simp

lemma sint_i32_less: "sint (w :: i32) < 2 ^ 31"
  using sint_less [of w] by simp

lemma timestamp_to_system_time_eq:
  "timestamp_to_system_time ts =
     (let t = max 0 (sint (ts_seconds ts)) * 1000000000 + max 0 (sint (ts_nanos ts))
      in if t < 2 ^ 63 * 1000000000 then Inr t else Inl Panic)"
  by (simp add: timestamp_to_system_time_def add_duration_def Let_def)

lemma timestamp_overflow:
  assumes "s < (9223372036854775808 :: int)" and "n < 2147483648"
  shows "\<not> max 0 s * 1000000000 + max 0 n < 9223372036854775808000000000 \<longleftrightarrow>
    (s = 9223372036854775807 \<and> 1000000000 \<le> n) \<or> (s = 9223372036854775806 \<and> 2000000000 \<le> n)"
proof -
  consider "s \<le> 9223372036854775805" | "s = 9223372036854775806" | "s = 9223372036854775807"
    using assms(1) by linarith
  then show ?thesis
  proof cases
    case 1
    then have "max 0 s * 1000000000 + max 0 n < 9223372036854775808000000000"
      using assms(2) by linarith
    with 1 show ?thesis by simp
  qed (use assms(2) in \<open>auto simp: max_def\<close>)
qed

text \<open>
  C38. Decoding a wire timestamp never fails with an error value; it panics exactly for the timestamps
  whose seconds and carried nanoseconds leave the range of \<open>SystemTime\<close>. Only two values of the
  seconds field can do that.
\<close>

theorem timestamp_panics_iff:
  "timestamp_to_system_time ts = Inl Panic \<longleftrightarrow>
     (sint (ts_seconds ts) = 2 ^ 63 - 1 \<and> 1000000000 \<le> sint (ts_nanos ts))
     \<or> (sint (ts_seconds ts) = 2 ^ 63 - 2 \<and> 2000000000 \<le> sint (ts_nanos ts))"
  using timestamp_overflow [of "sint (ts_seconds ts)" "sint (ts_nanos ts)"]
    sint_i64_less [of "ts_seconds ts"] sint_i32_less [of "ts_nanos ts"]
  unfolding timestamp_to_system_time_eq Let_def by auto

lemma timestamp_no_err: "timestamp_to_system_time ts \<noteq> Inl (Err e)"
  by (simp add: timestamp_to_system_time_eq Let_def)

lemma timestamp_valid: "timestamp_to_system_time ts = Inr t \<Longrightarrow> system_time_valid t \<and> 0 \<le> t"
  by (auto simp: timestamp_to_system_time_eq Let_def system_time_valid_def split: if_splits)

lemma system_time_to_timestamp_fields:
  assumes "system_time_valid t" and "0 \<le> t"
  shows "sint (ts_seconds (system_time_to_timestamp t)) = t div 1000000000"
    and "sint (ts_nanos (system_time_to_timestamp t)) = t mod 1000000000"
proof -
  let ?d = "nat t"
  have d: "duration_since t 0 = Some ?d" using assms(2) by (simp add: duration_since_def)
  have "?d div nanos_per_sec < 2 ^ 63"
    using assms by (simp add: system_time_valid_def less_mult_imp_div_less nat_less_iff)
  moreover have "?d mod nanos_per_sec < 2 ^ 31"
    by (rule less_trans [OF mod_less_divisor]) simp_all
  ultimately show "sint (ts_seconds (system_time_to_timestamp t)) = t div 1000000000"
    and "sint (ts_nanos (system_time_to_timestamp t)) = t mod 1000000000"
    using assms(2) unfolding system_time_to_timestamp_def d
    by (simp_all add: sint_i64_of_nat sint_i32_of_nat zdiv_int zmod_int)
qed

lemma timestamp_decode_encode:
  assumes "system_time_valid t" and "0 \<le> t"
  shows "timestamp_to_system_time (system_time_to_timestamp t) = Inr t"
proof -
  have "t div 1000000000 * 1000000000 + t mod 1000000000 = t" by simp
  with assms show ?thesis
    by (simp add: timestamp_to_system_time_eq system_time_to_timestamp_fields Let_def
        system_time_valid_def)
qed

lemma timestamp_before_epoch:
  "t < 0 \<Longrightarrow> timestamp_to_system_time (system_time_to_timestamp t) = Inr 0"
  by (simp add: timestamp_to_system_time_eq system_time_to_timestamp_def duration_since_def)

text \<open>
  A point in time survives the wire with full precision; times before the epoch, which the wire
  format's encoder does not represent, come back as the epoch.
\<close>

theorem timestamp_roundtrip:
  assumes "system_time_valid t"
  shows "timestamp_to_system_time (system_time_to_timestamp t) = Inr (max 0 t)"
  using assms by (cases "0 \<le> t") (simp_all add: timestamp_decode_encode timestamp_before_epoch)

theorem timestamp_roundtrip_witness:
  "timestamp_to_system_time (system_time_to_timestamp 1700000000123456789) = Inr 1700000000123456789"
  using timestamp_roundtrip [of 1700000000123456789] by (simp add: system_time_valid_def)

section \<open>Names, keys and shards\<close>

lemma location_roundtrip [simp]: "location_from (location_into l) = l"
  by (simp add: location_from_def location_into_def)

lemma qsn_roundtrip [simp]: "qsn_from (qsn_into q) = q"
  by (simp add: qsn_from_def qsn_into_def)

lemma qsn_into_from [simp]: "qsn_into (qsn_from q) = q"
  by (simp add: qsn_from_def qsn_into_def)

lemma qdn_try_from_iff: "qdn_try_from p = Inr d \<longleftrightarrow> p = qdn_into d"
proof
  assume "qdn_try_from p = Inr d"
  then obtain s where s: "pbqd_service p = Some s"
    and d: "d = \<lparr>qdn_service = qsn_from s, qdn_name = DomainName (pbqd_name p)\<rparr>"
    by (cases "pbqd_service p") (simp_all add: qdn_try_from_def)
  then show "p = qdn_into d"
    by (cases p) (simp add: qdn_into_def)
next
  assume "p = qdn_into d"
  then show "qdn_try_from p = Inr d"
    by (simp add: qdn_try_from_def qdn_into_def)
qed

lemma qdn_roundtrip [simp]: "qdn_try_from (qdn_into d) = Inr d"
  by (simp add: qdn_try_from_iff)

lemma domain_key_roundtrip [simp]: "domain_key_from (domain_key_into k) = k"
  by (simp add: domain_key_from_def domain_key_into_def)

lemma domain_key_name_roundtrip [simp]: "domain_key_name_from (domain_key_name_into k) = k"
  by (simp add: domain_key_name_from_def domain_key_name_into_def)

lemma domain_type_roundtrip [simp]: "domain_type_from (domain_type_into d) = d"
  by (cases d) simp_all

lemma domain_type_into_inj [simp]: "domain_type_into d = domain_type_into e \<longleftrightarrow> d = e"
  by (metis domain_type_roundtrip)

lemma pb_domain_type_as_i32_inj [simp]:
  "pb_domain_type_as_i32 d = pb_domain_type_as_i32 e \<longleftrightarrow> d = e"
  by (metis option.inject pb_domain_type_roundtrip)

lemma domain_type_i32_roundtrip [simp]:
  "domain_type_from_i32 (pb_domain_type_as_i32 (domain_type_into d)) = d"
  by (simp add: domain_type_from_i32_def)

lemma grant_state_roundtrip [simp]: "grant_state_from (grant_state_into s) = s"
  by (cases s) simp_all

lemma grant_state_i32_roundtrip [simp]:
  "grant_state_from_i32 (pb_grant_state_as_i32 (grant_state_into s)) = s"
  by (simp add: grant_state_from_i32_def)

lemma qdk_roundtrip: "qdk_try_from (qdk_into k) = Inr k"
  by (simp add: qdk_try_from_def qdk_into_def)

lemma shard_try_from_eq_Inr:
  "shard_try_from p = Inr s \<longleftrightarrow>
     pbs_domain p = Some (qdn_into (sh_domain s)) \<and> sh_kind s = domain_type_from_i32 (pbs_type p)
     \<and> region_str (sh_region s) = pbs_region p \<and> sh_from s = pbs_from p \<and> sh_to s = pbs_to p"
proof (cases "pbs_domain p")
  case None
  then show ?thesis by (simp add: shard_try_from_def)
next
  case (Some pd)
  then show ?thesis
    by (cases s; cases "sh_region s")
      (auto simp: shard_try_from_def sbind_eq_Inr qdn_try_from_iff)
qed

text \<open>
  A shard message decodes to \<open>s\<close> exactly when encoding \<open>s\<close> gives the message back, with only an
  unknown domain type number replaced by the number of \<open>Invalid\<close>. In particular decoding is the
  inverse of encoding, and no field is dropped or swapped.
\<close>

theorem shard_decode_iff:
  "shard_try_from p = Inr s \<longleftrightarrow>
     shard_into s = p\<lparr>pbs_type :=
       pb_domain_type_as_i32 (domain_type_into (domain_type_from_i32 (pbs_type p)))\<rparr>"
  unfolding shard_try_from_eq_Inr by (cases p) (auto simp: shard_into_def)

lemma shard_roundtrip [simp]: "shard_try_from (shard_into s) = Inr s"
  by (simp add: shard_try_from_eq_Inr shard_into_def)

text \<open>
  The only shard messages rejected are those without a domain or without the domain's service,
  and the error names the missing field. No other field can make decoding fail.
\<close>

theorem shard_decode_error:
  "shard_try_from p = Inl e \<longleftrightarrow>
     (pbs_domain p = None \<and> e = InvalidMessage ''missing field: Shard.domain'')
     \<or> (\<exists>pd. pbs_domain p = Some pd \<and> pbqd_service pd = None
          \<and> e = InvalidMessage ''missing field: QualifiedDomainName.service'')"
  by (cases "pbs_domain p"; cases "pbqd_service (the (pbs_domain p))")
    (auto simp: shard_try_from_def qdn_try_from_def)

lemma grant_state_number_range:
  "(\<exists>s. v = pb_grant_state_as_i32 s) \<longleftrightarrow> sint v \<in> {0..5}"
proof
  assume "\<exists>s. v = pb_grant_state_as_i32 s"
  then obtain s where "v = pb_grant_state_as_i32 s" ..
  then show "sint v \<in> {0..5}" by (cases s) simp_all
next
  assume "sint v \<in> {0..5}"
  then have "sint v \<in> {0, 1, 2, 3, 4, 5}" by auto
  then have "sint v \<in> sint ` {0 :: i32, 1, 2, 3, 4, 5}" by simp
  then obtain w where "w \<in> {0 :: i32, 1, 2, 3, 4, 5}" and "sint v = sint w" by (rule imageE)
  then have "v \<in> {0, 1, 2, 3, 4, 5}" using signed_word_eqI by metis
  then show "\<exists>s. v = pb_grant_state_as_i32 s"
    by (auto intro: exI [of _ pb_GrantState.Unknown] exI [of _ pb_GrantState.Active]
        exI [of _ pb_GrantState.Allocated] exI [of _ pb_GrantState.Revoked]
        exI [of _ pb_GrantState.AllocatedLoaded] exI [of _ pb_GrantState.RevokedUnloaded])
qed

text \<open>
  Grant state numbers decode to the state that is encoded by them, and every number outside the
  enum decodes to \<open>Unknown\<close>.
\<close>

theorem grant_state_decode:
  "grant_state_from_i32 v = s \<longleftrightarrow>
     v = pb_grant_state_as_i32 (grant_state_into s) \<or> (s = GrantState.Unknown \<and> sint v \<notin> {0..5})"
proof (cases "pb_grant_state_try_from v")
  case None
  then have no: "\<nexists>p. v = pb_grant_state_as_i32 p"
    by (metis option.distinct(1) pb_grant_state_roundtrip)
  with None show ?thesis
    unfolding grant_state_number_range [symmetric] by (auto simp: grant_state_from_i32_def)
next
  case (Some p)
  then have v: "v = pb_grant_state_as_i32 p" by (simp add: pb_grant_state_try_from_Some)
  then have range: "sint v \<in> {0..5}" by (metis grant_state_number_range)
  have "grant_state_from p = s \<longleftrightarrow> p = grant_state_into s"
    by (cases p; cases s) simp_all
  moreover have "pb_grant_state_as_i32 p = pb_grant_state_as_i32 q \<longleftrightarrow> p = q" for q
    by (metis option.inject pb_grant_state_roundtrip)
  ultimately show ?thesis
    using Some range v by (simp add: grant_state_from_i32_def)
qed

section \<open>Instances\<close>

definition unary_uuid_lib :: uuid_lib where
  "unary_uuid_lib = \<lparr>parse_str = (\<lambda>s. Inr (of_nat (length s))),
     show_uuid = (\<lambda>u. replicate (unat u) (CHR ''0''))\<rparr>"

lemma unary_uuid_laws: "uuid_laws unary_uuid_lib"
  by (simp add: uuid_laws_def unary_uuid_lib_def)

lemma loc_instance_roundtrip:
  assumes "uuid_laws U" and "system_time_valid (inst_created i)" and "0 \<le> inst_created i"
  shows "loc_instance_try_from U (loc_instance_into U i) = Inr (i\<lparr>inst_endpoint := default\<rparr>)"
  using assms
  by (simp add: timestamp_decode_encode loc_instance_try_from_def loc_instance_into_def instance_id_roundtrip)

lemma instance_decode_encode:
  assumes "uuid_laws U" and "system_time_valid (inst_created i)" and "0 \<le> inst_created i"
  shows "instance_try_from U (instance_into U i) = Inr i"
  using assms by (simp add: instance_try_from_def instance_into_def loc_instance_roundtrip)

lemma instance_into_before_epoch:
  "inst_created i < 0 \<Longrightarrow> instance_into U i = instance_into U (i\<lparr>inst_created := 0\<rparr>)"
  by (simp add: instance_into_def loc_instance_into_def instance_id_to_string_def
      system_time_to_timestamp_def duration_since_def)

text \<open>
  C37. An instance (id, location, name, creation time, endpoint) survives encoding and decoding,
  provided the UUID library reads back what it prints; only a creation time before the
  epoch comes back as the epoch.
\<close>

theorem instance_roundtrip:
  assumes "uuid_laws U" and "system_time_valid (inst_created i)"
  shows "instance_try_from U (instance_into U i) = Inr (i\<lparr>inst_created := max 0 (inst_created i)\<rparr>)"
proof (cases "0 \<le> inst_created i")
  case True
  then show ?thesis using assms by (simp add: instance_decode_encode)
next
  case False
  then show ?thesis
    using instance_decode_encode [OF assms(1), of "i\<lparr>inst_created := 0\<rparr>"]
    by (simp add: instance_into_before_epoch system_time_valid_def)
qed

theorem instance_roundtrip_witness:
  "let i = \<lparr>inst_id = InstanceId 3, inst_location = location_new ''us'' ''n1'',
            inst_name = InstanceName ''a'', inst_created = 1700000000000000000,
            inst_endpoint = Endpoint ''h:1''\<rparr>
   in instance_try_from unary_uuid_lib (instance_into unary_uuid_lib i) = Inr i"
  unfolding Let_def
  by (subst instance_roundtrip [OF unary_uuid_laws]) (simp_all add: system_time_valid_def)

end
