(* ===== verification/Session.thy ===== *)
theory Session
  imports Wrap
begin

text \<open>
  Models \<open>splitter-client/src/session.rs\<close>: the frames of the session sub-protocol, the
  classification of inbound frames and the heartbeat schedule. \<open>classify\<close> converts the lease
  timestamp, so it may panic; it returns \<open>None\<close> for frames the client ignores.
\<close>

datatype SessionEvent =
    Established SystemTime
  | HeartbeatAck SystemTime
  | Closed string

definition classify_ttl ::
  "pb_Timestamp option \<Rightarrow> (SystemTime \<Rightarrow> SessionEvent) \<Rightarrow> fault + SessionEvent option" where
  "classify_ttl ttl event =
     (case ttl of
        None \<Rightarrow> Inr None
      | Some t \<Rightarrow> sbind (timestamp_to_system_time t) (\<lambda>s. Inr (Some (event s))))"

definition classify :: "pb_SessionMessage \<Rightarrow> fault + SessionEvent option" where
  "classify msg =
     (case se_request msg of
        None \<Rightarrow> Inr None
      | Some (session_Request.Established e) \<Rightarrow> classify_ttl (ed_ttl e) SessionEvent.Established
      | Some (session_Request.Ack a) \<Rightarrow> classify_ttl (ha_ttl a) SessionEvent.HeartbeatAck
      | Some (session_Request.Closed c) \<Rightarrow> Inr (Some (SessionEvent.Closed (cl_error c)))
      | Some (session_Request.Establish _) \<Rightarrow> Inr None
      | Some (session_Request.Heartbeat _) \<Rightarrow> Inr None)"

definition session_wrap :: "session_Request \<Rightarrow> pb_JoinMessage" where
  "session_wrap req = \<lparr>jm_msg = Some (Session \<lparr>se_request = Some req\<rparr>)\<rparr>"

definition establish_frame :: "pb_LocInstance \<Rightarrow> string \<Rightarrow> pb_JoinMessage" where
  "establish_frame client session_id =
     session_wrap (session_Request.Establish \<lparr>es_client = Some client, es_id = session_id\<rparr>)"

definition heartbeat_frame :: "SystemTime \<Rightarrow> pb_JoinMessage" where
  "heartbeat_frame now = session_wrap (session_Request.Heartbeat \<lparr>hb_now = Some (now_timestamp now)\<rparr>)"

definition closed_frame :: "string \<Rightarrow> pb_JoinMessage" where
  "closed_frame error = session_wrap (session_Request.Closed \<lparr>cl_error = error\<rparr>)"

text \<open>\<open>Ord::clamp\<close>.\<close>

definition clamp :: "Duration \<Rightarrow> Duration \<Rightarrow> Duration \<Rightarrow> Duration" where
  "clamp d lo hi = (if d < lo then lo else if hi < d then hi else d)"

definition heartbeat_delay :: "SystemTime \<Rightarrow> SystemTime \<Rightarrow> Duration" where
  "heartbeat_delay ttl now =
     (let remaining = time_left ttl now;
          third = remaining div 3
      in clamp third (from_millis 250) (from_secs 30))"

lemma heartbeat_delay_eq:
  "heartbeat_delay ttl now = max (from_millis 250) (min (from_secs 30) (time_left ttl now div 3))"
  by (simp add: heartbeat_delay_def clamp_def Let_def from_millis_def from_secs_def max_def min_def)

text \<open>
  C39. The heartbeat schedule is a third of the lease that is left: as long as that is between 750 ms and
  90 s, the third heartbeat after now is due before the lease ends and the delay is the longest
  whole number of nanoseconds with that property. A shorter lease, and one that has ended, is
  served every 250 ms, a longer one every 30 s.
\<close>

theorem heartbeat_schedule:
  "(ttl \<le> now + 750000000 \<longrightarrow> heartbeat_delay ttl now = from_millis 250)
   \<and> (now + 750000000 \<le> ttl \<longrightarrow> ttl \<le> now + 90000000000 \<longrightarrow>
        now + 3 * int (heartbeat_delay ttl now) \<le> ttl \<and> ttl < now + 3 * (int (heartbeat_delay ttl now) + 1))
   \<and> (now + 90000000000 \<le> ttl \<longrightarrow> heartbeat_delay ttl now = from_secs 30)
   \<and> from_millis 250 \<le> heartbeat_delay ttl now \<and> heartbeat_delay ttl now \<le> from_secs 30
   \<and> (3 * heartbeat_delay ttl now \<le> time_left ttl now \<longleftrightarrow> from_millis 750 \<le> time_left ttl now)"
proof -
  have d: "heartbeat_delay ttl now = max 250000000 (min 30000000000 (nat (ttl - now) div 3))"
    by (simp add: heartbeat_delay_eq time_left_eq from_millis_def from_secs_def)
  show ?thesis
    unfolding d by (auto simp: time_left_eq from_millis_def from_secs_def max_def min_def)
qed

text \<open>A lease of ten seconds.\<close>

theorem heartbeat_schedule_witness:
  "3 * int (heartbeat_delay 10000000000 0) \<le> 10000000000
   \<and> 10000000000 < 3 * (int (heartbeat_delay 10000000000 0) + 1)"
  using heartbeat_schedule [of 10000000000 0] by simp

lemma classify_lease:
  assumes "system_time_valid t" and "0 \<le> t"
  shows "classify_ttl (Some (system_time_to_timestamp t)) event = Inr (Some (event t))"
  using assms by (simp add: classify_ttl_def timestamp_decode_encode)

lemma classify_error: "classify m = Inl f \<Longrightarrow> f = Panic"
  using timestamp_no_err
  by (cases f) (auto simp: classify_def classify_ttl_def res_simps
      split: option.splits session_Request.splits)

text \<open>
  Of the three frames the client itself sends only the closing one is an event when read back,
  and it carries the text it was built with: an echoed \<open>Establish\<close> or \<open>Heartbeat\<close> never changes
  the lease.
\<close>

theorem classify_own_frames:
  "(\<exists>m. closed_frame e = \<lparr>jm_msg = Some (Session m)\<rparr> \<and> classify m = Inr (Some (SessionEvent.Closed e)))
   \<and> (\<exists>m. establish_frame c i = \<lparr>jm_msg = Some (Session m)\<rparr> \<and> classify m = Inr None)
   \<and> (\<exists>m. heartbeat_frame t = \<lparr>jm_msg = Some (Session m)\<rparr> \<and> classify m = Inr None)"
  by (simp add: closed_frame_def establish_frame_def heartbeat_frame_def session_wrap_def
      classify_def)

end
