(* ===== verification/Latches.thy ===== *)
theory Latches
  imports Prelude
begin

text \<open>
  Models \<open>splitter-client/src/latch.rs\<close>: the one-shot signal with many observers.

  The latch keeps an atomic flag and a \<open>tokio::sync::watch\<close> channel. The channel is an external
  type: it is the type variable \<open>'w\<close> with the operations of \<open>watch_lib\<close>, and \<open>watch_laws\<close> states
  what the client relies on. The delicate law is the last one: \<open>send\<close> fails, leaving the value as
  it was, when no receiver is alive.

  \<open>latch_close\<close> and the other operations describe a latch used by one task. The step relation
  \<open>latch_step\<close> splits them at every point where another task can run: \<open>close\<close> is a swap and then
  a send, \<open>LatchReader::closed\<close> is a check of the flag, a clone of the receiver, and a loop of
  borrowing and waiting (\<open>closed_step\<close>). Any number of closers and readers run against each other, and a reader's
  future may be dropped at any point, as \<open>select!\<close> does with the branches that lose.

  The rest of the development uses the flag only (type \<open>latch\<close>); \<open>abs_latch\<close> relates the two.
  The locale \<open>one_shot\<close> is what the owners of latches rely on.
\<close>

section \<open>The interface of a one-shot signal\<close>

locale one_shot =
  fixes fresh :: 'l and shut :: "'l \<Rightarrow> 'l" and shut_already :: "'l \<Rightarrow> bool"
  assumes fresh_open: "\<not> shut_already fresh"
    and shut_closes: "shut_already (shut l)"
    and shut_idem: "shut_already l \<Longrightarrow> shut l = l"
begin

lemma stays_shut: "shut_already l \<Longrightarrow> shut_already (shut l)"
  by (rule shut_closes)

lemma shut_twice: "shut (shut l) = shut l"
  by (intro shut_idem shut_closes)

lemma shut_many: "(shut ^^ n) l = (if n = 0 then l else shut l)"
  by (induction n) (auto simp: shut_twice)

lemma shut_already_many: "shut_already ((shut ^^ n) l) \<longleftrightarrow> shut_already l \<or> 0 < n"
  by (simp add: shut_many shut_closes)

end

section \<open>The watch channel\<close>

record 'w watch_lib =
  w_channel :: "bool \<Rightarrow> 'w"          \<comment> \<open>a channel holding a value, and its first receiver\<close>
  w_send :: "bool \<Rightarrow> 'w \<Rightarrow> 'w"
  w_subscribe :: "'w \<Rightarrow> 'w"         \<comment> \<open>one more receiver, from the sender\<close>
  w_clone_rx :: "'w \<Rightarrow> 'w"          \<comment> \<open>one more receiver, from a receiver\<close>
  w_drop_rx :: "'w \<Rightarrow> 'w"
  w_value :: "'w \<Rightarrow> bool"
  w_receivers :: "'w \<Rightarrow> nat"

definition watch_laws :: "'w watch_lib \<Rightarrow> bool" where
  "watch_laws W \<longleftrightarrow>
     (\<forall>b. w_value W (w_channel W b) = b \<and> w_receivers W (w_channel W b) = 1)
     \<and> (\<forall>w. w_value W (w_subscribe W w) = w_value W w
          \<and> w_receivers W (w_subscribe W w) = w_receivers W w + 1)
     \<and> (\<forall>w. w_value W (w_clone_rx W w) = w_value W w
          \<and> w_receivers W (w_clone_rx W w) = w_receivers W w + 1)
     \<and> (\<forall>w. w_value W (w_drop_rx W w) = w_value W w
          \<and> w_receivers W (w_drop_rx W w) = w_receivers W w - 1)
     \<and> (\<forall>b w. w_value W (w_send W b w) = (if 0 < w_receivers W w then b else w_value W w)
          \<and> w_receivers W (w_send W b w) = w_receivers W w)"

lemma watch_simps:
  assumes "watch_laws W"
  shows "w_value W (w_channel W b) = b" "w_receivers W (w_channel W b) = 1"
    "w_value W (w_subscribe W w) = w_value W w"
    "w_receivers W (w_subscribe W w) = w_receivers W w + 1"
    "w_value W (w_clone_rx W w) = w_value W w"
    "w_receivers W (w_clone_rx W w) = w_receivers W w + 1"
    "w_value W (w_drop_rx W w) = w_value W w"
    "w_receivers W (w_drop_rx W w) = w_receivers W w - 1"
    "w_value W (w_send W b w) = (if 0 < w_receivers W w then b else w_value W w)"
    "w_receivers W (w_send W b w) = w_receivers W w"
  using assms unfolding watch_laws_def by blast+

section \<open>The latch, one task at a time\<close>

record 'w Inner =
  l_closed :: bool
  l_tx :: 'w

definition latch_new :: "'w watch_lib \<Rightarrow> 'w Inner" where
  "latch_new W = \<lparr>l_closed = False, l_tx = w_drop_rx W (w_channel W False)\<rparr>"

definition latch_close :: "'w watch_lib \<Rightarrow> 'w Inner \<Rightarrow> 'w Inner" where
  "latch_close W l =
     (if \<not> l_closed l then l\<lparr>l_closed := True, l_tx := w_send W True (l_tx l)\<rparr> else l)"

definition latch_is_closed :: "'w Inner \<Rightarrow> bool" where
  "latch_is_closed l \<longleftrightarrow> l_closed l"

definition latch_reader :: "'w watch_lib \<Rightarrow> 'w Inner \<Rightarrow> 'w Inner" where
  "latch_reader W l = l\<lparr>l_tx := w_subscribe W (l_tx l)\<rparr>"

interpretation watch_latch: one_shot "latch_new W" "latch_close W" latch_is_closed
  for W :: "'w watch_lib"
  by unfold_locales (simp_all add: latch_new_def latch_close_def latch_is_closed_def)

text \<open>The view of a latch that its owners have: whether it is closed.\<close>

datatype latch = Latch (is_closed: bool)

definition fresh_latch :: latch where
  "fresh_latch = Latch False"

definition close_latch :: "latch \<Rightarrow> latch" where
  "close_latch l = Latch True"

interpretation flag_latch: one_shot fresh_latch close_latch is_closed
proof unfold_locales
  show "is_closed l \<Longrightarrow> close_latch l = l" for l
    by (cases l) (simp add: close_latch_def)
qed (simp_all add: fresh_latch_def close_latch_def)

lemmas latch_flags [simp] = flag_latch.fresh_open flag_latch.shut_closes flag_latch.shut_twice

definition abs_latch :: "'w Inner \<Rightarrow> latch" where
  "abs_latch l = Latch (l_closed l)"

lemma abs_latch_refines:
  "abs_latch (latch_new W) = fresh_latch"
  "abs_latch (latch_close W l) = close_latch (abs_latch l)"
  "abs_latch (latch_reader W l) = abs_latch l"
  "is_closed (abs_latch l) = latch_is_closed l"
  by (simp_all add: abs_latch_def latch_new_def latch_close_def latch_reader_def
      latch_is_closed_def fresh_latch_def close_latch_def)

section \<open>Closers and readers running concurrently\<close>

datatype closer_pc =
    CIdle       \<comment> \<open>before \<open>close\<close>\<close>
  | CSending    \<comment> \<open>won the swap, has not sent yet\<close>
  | CDone       \<comment> \<open>\<open>close\<close> has returned\<close>

datatype reader_pc =
    NoReader
  | Holding     \<comment> \<open>has a \<open>LatchReader\<close>, not in \<open>closed()\<close>\<close>
  | Checked     \<comment> \<open>in \<open>closed()\<close>, saw the flag unset\<close>
  | Polling     \<comment> \<open>cloned the receiver, about to borrow\<close>
  | Waiting     \<comment> \<open>borrowed \<open>false\<close>, suspended in \<open>changed()\<close>\<close>
  | Returned    \<comment> \<open>\<open>closed()\<close> has returned\<close>

text \<open>How many receivers a reader keeps alive.\<close>

fun receivers_of :: "reader_pc \<Rightarrow> nat" where
  "receivers_of NoReader = 0"
| "receivers_of Holding = 1"
| "receivers_of Checked = 1"
| "receivers_of Polling = 2"
| "receivers_of Waiting = 2"
| "receivers_of Returned = 1"

record 'w latch_sys =
  sys_latch :: "'w Inner"
  sys_closers :: "closer_pc list"
  sys_readers :: "reader_pc list"

definition latch_start :: "'w watch_lib \<Rightarrow> 'w latch_sys \<Rightarrow> bool" where
  "latch_start W s \<longleftrightarrow>
     sys_latch s = latch_new W
     \<and> (\<forall>c \<in> set (sys_closers s). c = CIdle) \<and> (\<forall>r \<in> set (sys_readers s). r = NoReader)"

abbreviation closer_at :: "'w latch_sys \<Rightarrow> nat \<Rightarrow> closer_pc \<Rightarrow> bool" where
  "closer_at s i pc \<equiv> i < length (sys_closers s) \<and> sys_closers s ! i = pc"

abbreviation reader_at :: "'w latch_sys \<Rightarrow> nat \<Rightarrow> reader_pc \<Rightarrow> bool" where
  "reader_at s j pc \<equiv> j < length (sys_readers s) \<and> sys_readers s ! j = pc"

definition set_tx :: "('w \<Rightarrow> 'w) \<Rightarrow> 'w latch_sys \<Rightarrow> 'w latch_sys" where
  "set_tx f s = s\<lparr>sys_latch := (sys_latch s)\<lparr>l_tx := f (l_tx (sys_latch s))\<rparr>\<rparr>"

definition set_closer :: "nat \<Rightarrow> closer_pc \<Rightarrow> 'w latch_sys \<Rightarrow> 'w latch_sys" where
  "set_closer i pc s = s\<lparr>sys_closers := (sys_closers s)[i := pc]\<rparr>"

definition set_reader :: "nat \<Rightarrow> reader_pc \<Rightarrow> 'w latch_sys \<Rightarrow> 'w latch_sys" where
  "set_reader j pc s = s\<lparr>sys_readers := (sys_readers s)[j := pc]\<rparr>"

text \<open>The steps of a reader inside \<open>LatchReader::closed\<close>, from the check of the flag to the return.\<close>

inductive closed_step :: "'w watch_lib \<Rightarrow> nat \<Rightarrow> 'w latch_sys \<Rightarrow> 'w latch_sys \<Rightarrow> bool" for W and j where
  check_set: "reader_at s j Holding \<Longrightarrow> l_closed (sys_latch s) \<Longrightarrow>
    closed_step W j s (set_reader j Returned s)"
| check_unset: "reader_at s j Holding \<Longrightarrow> \<not> l_closed (sys_latch s) \<Longrightarrow>
    closed_step W j s (set_reader j Checked s)"
| clone_rx: "reader_at s j Checked \<Longrightarrow>
    closed_step W j s (set_reader j Polling (set_tx (w_clone_rx W) s))"
| borrow_true: "reader_at s j Polling \<Longrightarrow> w_value W (l_tx (sys_latch s)) \<Longrightarrow>
    closed_step W j s (set_reader j Returned (set_tx (w_drop_rx W) s))"
| borrow_false: "reader_at s j Polling \<Longrightarrow> \<not> w_value W (l_tx (sys_latch s)) \<Longrightarrow>
    closed_step W j s (set_reader j Waiting s)"
| changed: "reader_at s j Waiting \<Longrightarrow> w_value W (l_tx (sys_latch s)) \<Longrightarrow>
    closed_step W j s (set_reader j Polling s)"

text \<open>All tasks: a closer, a reader inside \<open>closed()\<close>, and what the owner of a reader may do.\<close>

inductive latch_step :: "'w watch_lib \<Rightarrow> 'w latch_sys \<Rightarrow> 'w latch_sys \<Rightarrow> bool" for W where
  close_swap: "closer_at s i CIdle \<Longrightarrow>
    latch_step W s (set_closer i (if l_closed (sys_latch s) then CDone else CSending)
      (s\<lparr>sys_latch := (sys_latch s)\<lparr>l_closed := True\<rparr>\<rparr>))"
| close_send: "closer_at s i CSending \<Longrightarrow>
    latch_step W s (set_closer i CDone (set_tx (w_send W True) s))"
| new_reader: "reader_at s j NoReader \<Longrightarrow>
    latch_step W s (set_reader j Holding (set_tx (w_subscribe W) s))"
| in_call: "closed_step W j s t \<Longrightarrow> latch_step W s t"
| cancel_checked: "reader_at s j Checked \<Longrightarrow>
    latch_step W s (set_reader j Holding s)"
| cancel_polling: "reader_at s j pc \<Longrightarrow> pc = Polling \<or> pc = Waiting \<Longrightarrow>
    latch_step W s (set_reader j Holding (set_tx (w_drop_rx W) s))"
| drop_reader: "reader_at s j pc \<Longrightarrow> pc = Holding \<or> pc = Returned \<Longrightarrow>
    latch_step W s (set_reader j NoReader (set_tx (w_drop_rx W) s))"

section \<open>The invariant\<close>

definition in_closed :: "reader_pc \<Rightarrow> bool" where
  "in_closed pc \<longleftrightarrow> pc = Checked \<or> pc = Polling \<or> pc = Waiting"

text \<open>
  The channel counts the receivers the readers hold; the value is only ever set after the flag; one
  closer at most is between its swap and its send, and only once the flag is set; and as soon as
  none is, every reader inside \<open>closed()\<close> has the value \<open>true\<close> in front of it.
\<close>

definition latch_inv :: "'w watch_lib \<Rightarrow> 'w latch_sys \<Rightarrow> bool" where
  "latch_inv W s \<longleftrightarrow>
     w_receivers W (l_tx (sys_latch s)) = sum_list (map receivers_of (sys_readers s))
     \<and> (w_value W (l_tx (sys_latch s)) \<longrightarrow> l_closed (sys_latch s))
     \<and> (\<forall>j. reader_at s j Returned \<longrightarrow> l_closed (sys_latch s))
     \<and> (\<forall>i. closer_at s i CSending \<longrightarrow> l_closed (sys_latch s))
     \<and> (\<forall>i j. closer_at s i CSending \<longrightarrow> closer_at s j CSending \<longrightarrow> i = j)
     \<and> (\<forall>j. j < length (sys_readers s) \<longrightarrow> in_closed (sys_readers s ! j) \<longrightarrow>
          l_closed (sys_latch s) \<longrightarrow>
          w_value W (l_tx (sys_latch s)) \<or> (\<exists>i. closer_at s i CSending))"

lemmas sys_defs = set_tx_def set_closer_def set_reader_def

lemma receivers_update:
  "j < length rs \<Longrightarrow>
     sum_list (map receivers_of (rs[j := pc])) =
     sum_list (map receivers_of rs) + receivers_of pc - receivers_of (rs ! j)"
  by (simp add: map_update sum_list_update)

lemma receivers_at_least:
  "j < length rs \<Longrightarrow> receivers_of (rs ! j) \<le> sum_list (map receivers_of rs)"
  by (rule member_le_sum_list) simp_all

lemma latch_invD:
  assumes "latch_inv W s"
  shows "w_receivers W (l_tx (sys_latch s)) = sum_list (map receivers_of (sys_readers s))"
    and "w_value W (l_tx (sys_latch s)) \<Longrightarrow> l_closed (sys_latch s)"
    and "reader_at s j Returned \<Longrightarrow> l_closed (sys_latch s)"
    and "closer_at s i CSending \<Longrightarrow> l_closed (sys_latch s)"
    and "closer_at s i CSending \<Longrightarrow> closer_at s i' CSending \<Longrightarrow> i = i'"
    and "j < length (sys_readers s) \<Longrightarrow> in_closed (sys_readers s ! j) \<Longrightarrow> l_closed (sys_latch s) \<Longrightarrow>
         w_value W (l_tx (sys_latch s)) \<or> (\<exists>i. closer_at s i CSending)"
  using assms unfolding latch_inv_def by blast+

lemma latch_inv_start:
  assumes "watch_laws W" and "latch_start W s"
  shows "latch_inv W s"
proof -
  have rs: "j < length (sys_readers s) \<Longrightarrow> sys_readers s ! j = NoReader" for j
    using assms(2) by (simp add: latch_start_def)
  have cs: "i < length (sys_closers s) \<Longrightarrow> sys_closers s ! i = CIdle" for i
    using assms(2) by (simp add: latch_start_def)
  have "map receivers_of (sys_readers s) = map (\<lambda>_. 0) (sys_readers s)"
    using assms(2) by (auto simp: latch_start_def)
  then have "sum_list (map receivers_of (sys_readers s)) = 0" by simp
  moreover have "sys_latch s = latch_new W" using assms(2) by (simp add: latch_start_def)
  ultimately show ?thesis
    unfolding latch_inv_def
    by (auto simp: latch_new_def watch_simps [OF assms(1)] in_closed_def rs cs dest: rs cs)
qed

text \<open>
  A reader may move from one point to another when the channel's count follows and the reader does
  not enter \<open>closed()\<close> past a set flag. All reader steps are instances.
\<close>

lemma latch_inv_reader:
  assumes inv: "latch_inv W s" and j: "j < length (sys_readers s)"
    and val: "w_value W (f (l_tx (sys_latch s))) = w_value W (l_tx (sys_latch s))"
    and cnt: "w_receivers W (f (l_tx (sys_latch s))) + receivers_of (sys_readers s ! j) =
              w_receivers W (l_tx (sys_latch s)) + receivers_of pc"
    and ret: "pc = Returned \<Longrightarrow> l_closed (sys_latch s)"
    and enter: "in_closed pc \<Longrightarrow> in_closed (sys_readers s ! j) \<or> \<not> l_closed (sys_latch s)"
  shows "latch_inv W (set_reader j pc (set_tx f s))"
proof -
  have "w_receivers W (f (l_tx (sys_latch s))) =
        sum_list (map receivers_of ((sys_readers s)[j := pc]))"
    using inv cnt receivers_at_least [OF j] by (simp add: receivers_update [OF j] latch_inv_def)
  moreover have "(sys_readers s)[j := pc] ! k = (if k = j then pc else sys_readers s ! k)" for k
    using j by (simp add: nth_list_update)
  ultimately show ?thesis
    using inv ret enter unfolding latch_inv_def sys_defs by (simp add: val) blast
qed

lemma set_tx_id: "set_tx (\<lambda>x. x) s = s"
  by (simp add: set_tx_def)

lemma latch_inv_reader_id:
  assumes "latch_inv W s" and "j < length (sys_readers s)"
    and "receivers_of (sys_readers s ! j) = receivers_of pc"
    and "pc = Returned \<Longrightarrow> l_closed (sys_latch s)"
    and "in_closed pc \<Longrightarrow> in_closed (sys_readers s ! j) \<or> \<not> l_closed (sys_latch s)"
  shows "latch_inv W (set_reader j pc s)"
  using latch_inv_reader [where f = "\<lambda>x. x", OF assms(1,2)] assms(3-) by (simp add: set_tx_id)

lemma latch_inv_swap:
  assumes inv: "latch_inv W s" and i: "closer_at s i CIdle"
  shows "latch_inv W (set_closer i (if l_closed (sys_latch s) then CDone else CSending)
      (s\<lparr>sys_latch := (sys_latch s)\<lparr>l_closed := True\<rparr>\<rparr>))"
proof -
  have nth: "(sys_closers s)[i := pc] ! k = (if k = i then pc else sys_closers s ! k)" for k pc
    using i by (simp add: nth_list_update)
  show ?thesis
  proof (cases "l_closed (sys_latch s)")
    case True
    then show ?thesis
      using latch_invD [OF inv] i unfolding latch_inv_def sys_defs
      by (simp add: nth) (metis closer_pc.distinct(1))
  next
    case False
    then have "\<not> closer_at s k CSending" for k using latch_invD(4) [OF inv] by blast
    with False show ?thesis
      using latch_invD(1,2) [OF inv] i unfolding latch_inv_def sys_defs by (simp add: nth) blast
  qed
qed

lemma latch_inv_send:
  assumes laws: "watch_laws W" and inv: "latch_inv W s" and i: "closer_at s i CSending"
  shows "latch_inv W (set_closer i CDone (set_tx (w_send W True) s))"
proof -
  have nth: "(sys_closers s)[i := pc] ! k = (if k = i then pc else sys_closers s ! k)" for k pc
    using i by (simp add: nth_list_update)
  have "0 < w_receivers W (l_tx (sys_latch s))"
    if "j < length (sys_readers s)" "in_closed (sys_readers s ! j)" for j
  proof -
    have "0 < receivers_of (sys_readers s ! j)" using that(2) by (auto simp: in_closed_def)
    then show ?thesis using receivers_at_least [OF that(1)] inv by (simp add: latch_inv_def)
  qed
  moreover have "l_closed (sys_latch s)" and "\<And>k. closer_at s k CSending \<Longrightarrow> k = i"
    using latch_invD(4,5) [OF inv] i by blast+
  moreover have "w_receivers W (l_tx (sys_latch s)) = sum_list (map receivers_of (sys_readers s))"
    by (rule latch_invD(1) [OF inv])
  ultimately show ?thesis
    unfolding latch_inv_def sys_defs using watch_simps(9,10) [OF laws] nth by simp metis
qed

lemma latch_inv_call:
  assumes laws: "watch_laws W" and inv: "latch_inv W s" and step: "closed_step W j s t"
  shows "latch_inv W t"
  using step
proof cases
  case borrow_true
  then have "2 \<le> w_receivers W (l_tx (sys_latch s))"
    using receivers_at_least [of j "sys_readers s"] latch_invD(1) [OF inv] by simp
  then show ?thesis
    unfolding borrow_true(1)
    by (intro latch_inv_reader [OF inv])
      (use borrow_true latch_invD(2) [OF inv] in \<open>simp_all add: watch_simps [OF laws] in_closed_def\<close>)
qed (simp, intro latch_inv_reader [OF inv] latch_inv_reader_id [OF inv];
    simp add: watch_simps [OF laws] in_closed_def)+

lemma latch_inv_step:
  assumes laws: "watch_laws W" and inv: "latch_inv W s" and step: "latch_step W s t"
  shows "latch_inv W t"
  using step
proof cases
  case (close_swap i)
  then show ?thesis using latch_inv_swap [OF inv] by simp
next
  case (close_send i)
  then show ?thesis using latch_inv_send [OF laws inv] by simp
next
  case (cancel_polling j pc)
  then have "receivers_of pc = 2" by auto
  then have "2 \<le> w_receivers W (l_tx (sys_latch s))"
    using receivers_at_least [of j "sys_readers s"] latch_invD(1) [OF inv] cancel_polling(2) by simp
  then have "w_receivers W (l_tx (sys_latch s)) - 1 + 2 = w_receivers W (l_tx (sys_latch s)) + 1"
    by arith
  then show ?thesis
    unfolding cancel_polling(1)
    by (intro latch_inv_reader [OF inv])
      (use cancel_polling(2) \<open>receivers_of pc = 2\<close> in \<open>simp_all add: watch_simps [OF laws] in_closed_def\<close>)
next
  case (drop_reader j pc)
  then have "receivers_of pc = 1" by auto
  then have "1 \<le> w_receivers W (l_tx (sys_latch s))"
    using receivers_at_least [of j "sys_readers s"] latch_invD(1) [OF inv] drop_reader(2) by simp
  then show ?thesis
    unfolding drop_reader(1)
    by (intro latch_inv_reader [OF inv])
      (use drop_reader(2) \<open>receivers_of pc = 1\<close> in \<open>simp_all add: watch_simps [OF laws] in_closed_def\<close>)
next
  case (in_call j)
  then show ?thesis by (rule latch_inv_call [OF laws inv])
qed (simp, intro latch_inv_reader [OF inv] latch_inv_reader_id [OF inv];
    simp add: watch_simps [OF laws] in_closed_def)+

interpretation latch_system: invariant_system "latch_start W" "latch_step W"
  "\<lambda>s. watch_laws W \<longrightarrow> latch_inv W s" for W :: "'w watch_lib"
  by unfold_locales (auto intro: latch_inv_start latch_inv_step)

lemma latch_reach_inv:
  "watch_laws W \<Longrightarrow> reach (latch_start W) (latch_step W) s \<Longrightarrow> latch_inv W s"
  using latch_system.reach_inv by blast

section \<open>No lost wake-up, no spurious return\<close>

text \<open>
  A reader facing \<open>true\<close> gets from any point of \<open>closed()\<close> to its return by the steps of that call;
  each point is left by at most one further turn.
\<close>

lemma polling_returns:
  assumes "reader_at s j Polling" and "w_value W (l_tx (sys_latch s))"
  shows "closed_step W j s (set_reader j Returned (set_tx (w_drop_rx W) s))"
  by (rule closed_step.borrow_true [OF assms])

lemma step_then_polling_returns:
  assumes "closed_step W j s t" and "reader_at t j Polling" and "w_value W (l_tx (sys_latch t))"
  shows "\<exists>u. (closed_step W j ^^ 2) s u \<and> reader_at u j Returned"
proof (intro exI conjI)
  show "(closed_step W j ^^ 2) s (set_reader j Returned (set_tx (w_drop_rx W) t))"
    using assms(1) polling_returns [OF assms(2,3)] by (auto simp: numeral_2_eq_2 eq_OO OO_def)
qed (use assms(2) in \<open>auto simp: sys_defs\<close>)

lemma in_closed_returns:
  assumes laws: "watch_laws W" and r: "reader_at s j pc" and "in_closed pc"
    and val: "w_value W (l_tx (sys_latch s))"
  shows "\<exists>n t. n \<le> 2 \<and> (closed_step W j ^^ n) s t \<and> reader_at t j Returned"
proof -
  consider "reader_at s j Checked" | "reader_at s j Polling" | "reader_at s j Waiting"
    using assms(3) r by (auto simp: in_closed_def)
  then show ?thesis
  proof cases
    case 1
    have "\<exists>u. (closed_step W j ^^ 2) s u \<and> reader_at u j Returned"
      by (rule step_then_polling_returns [OF closed_step.clone_rx [OF 1]])
        (use 1 val in \<open>simp_all add: sys_defs watch_simps [OF laws]\<close>)
    then show ?thesis by blast
  next
    case 2
    have "(closed_step W j ^^ 1) s (set_reader j Returned (set_tx (w_drop_rx W) s))"
      using polling_returns [OF 2 val] by (simp add: eq_OO)
    moreover have "reader_at (set_reader j Returned (set_tx (w_drop_rx W) s)) j Returned"
      using 2 by (simp add: sys_defs)
    ultimately show ?thesis using one_le_numeral by blast
  next
    case 3
    have "\<exists>u. (closed_step W j ^^ 2) s u \<and> reader_at u j Returned"
      by (rule step_then_polling_returns [OF closed_step.changed [OF 3 val]])
        (use 3 val in \<open>simp_all add: sys_defs\<close>)
    then show ?thesis by blast
  qed
qed

text \<open>A call of \<open>closed()\<close> has no choice: at each point at most one step of it is possible.\<close>

lemma closed_step_unique: "closed_step W j s t \<Longrightarrow> closed_step W j s u \<Longrightarrow> t = u"
  by (erule closed_step.cases; erule closed_step.cases; simp)

text \<open>
  C12. No wake-up is lost: once the flag is set and no closer is between its swap and its send,
  every call of \<open>closed()\<close> that is under way or is made returns within two steps of its own, without being
  cancelled and called again. This holds whatever the interleaving that led there, for readers
  that saw the flag unset, for readers suspended in \<open>changed()\<close>, for readers that subscribed
  before or after the send, and for closes whose send failed because no receiver was alive.
\<close>

theorem latch_no_lost_wakeup:
  assumes "watch_laws W" and "reach (latch_start W) (latch_step W) s"
    and "l_closed (sys_latch s)" and "CSending \<notin> set (sys_closers s)"
    and "j < length (sys_readers s)" and "sys_readers s ! j \<noteq> NoReader"
  shows "\<exists>n t. n \<le> 2 \<and> (closed_step W j ^^ n) s t \<and> reader_at t j Returned"
proof -
  let ?pc = "sys_readers s ! j"
  have inv: "latch_inv W s" by (rule latch_reach_inv [OF assms(1,2)])
  consider "?pc = Returned" | "?pc = Holding" | "in_closed ?pc"
    using assms(6) by (cases ?pc) (auto simp: in_closed_def)
  then show ?thesis
  proof cases
    case 1
    then have "(closed_step W j ^^ 0) s s \<and> reader_at s j Returned" using assms(5) by simp
    then show ?thesis by blast
  next
    case 2
    then have "(closed_step W j ^^ 1) s (set_reader j Returned s)"
      using assms(3,5) by (simp add: eq_OO closed_step.check_set)
    moreover have "reader_at (set_reader j Returned s) j Returned"
      using assms(5) by (simp add: sys_defs)
    ultimately show ?thesis using one_le_numeral by blast
  next
    case 3
    then have "w_value W (l_tx (sys_latch s))"
      using latch_invD(6) [OF inv assms(5)] assms(3,4) nth_mem by metis
    with 3 assms(1,5) show ?thesis by (blast intro: in_closed_returns)
  qed
qed

text \<open>A concrete channel: the value and the number of receivers.\<close>

definition pair_watch_lib :: "(bool \<times> nat) watch_lib" where
  "pair_watch_lib =
     \<lparr>w_channel = (\<lambda>b. (b, 1)), w_send = (\<lambda>b (v, n). (if 0 < n then b else v, n)),
      w_subscribe = (\<lambda>(v, n). (v, n + 1)), w_clone_rx = (\<lambda>(v, n). (v, n + 1)),
      w_drop_rx = (\<lambda>(v, n). (v, n - 1)), w_value = fst, w_receivers = snd\<rparr>"

lemma pair_watch_laws: "watch_laws pair_watch_lib"
  by (auto simp: watch_laws_def pair_watch_lib_def)

definition latch_demo_start :: "(bool \<times> nat) latch_sys" where
  "latch_demo_start = \<lparr>sys_latch = \<lparr>l_closed = False, l_tx = (False, 0)\<rparr>,
     sys_closers = [CIdle], sys_readers = [NoReader]\<rparr>"

text \<open>A run in which the reader suspends before the close.\<close>

lemma latch_demo_reach:
  "reach (latch_start pair_watch_lib) (latch_step pair_watch_lib)
     \<lparr>sys_latch = \<lparr>l_closed = True, l_tx = (True, 2)\<rparr>, sys_closers = [CDone], sys_readers = [Waiting]\<rparr>"
proof -
  let ?R = "reach (latch_start pair_watch_lib) (latch_step pair_watch_lib)"
  let ?W = pair_watch_lib
  have 0: "?R latch_demo_start"
    by (rule reach_start) (simp add: latch_start_def latch_demo_start_def latch_new_def pair_watch_lib_def)
  note 1 = reach_step [OF 0 latch_step.new_reader [where j = 0]]
  note 2 = reach_step [OF 1 latch_step.in_call [OF closed_step.check_unset [where j = 0]]]
  note 3 = reach_step [OF 2 latch_step.in_call [OF closed_step.clone_rx [where j = 0]]]
  note 4 = reach_step [OF 3 latch_step.in_call [OF closed_step.borrow_false [where j = 0]]]
  note 5 = reach_step [OF 4 latch_step.close_swap [where i = 0]]
  note 6 = reach_step [OF 5 latch_step.close_send [where i = 0]]
  show ?thesis using 6 by (simp add: sys_defs latch_demo_start_def pair_watch_lib_def numeral_2_eq_2)
qed

theorem latch_no_lost_wakeup_witness:
  "\<exists>n t. n \<le> 2 \<and> (closed_step pair_watch_lib 0 ^^ n)
         \<lparr>sys_latch = \<lparr>l_closed = True, l_tx = (True, 2)\<rparr>, sys_closers = [CDone], sys_readers = [Waiting]\<rparr> t
       \<and> reader_at t 0 Returned"
  by (rule latch_no_lost_wakeup [OF pair_watch_laws latch_demo_reach]) simp_all

text \<open>
  No spurious return: a reader returns from \<open>closed()\<close> only after the flag was set, and the flag
  stays set from then on.
\<close>

theorem latch_no_spurious_return:
  assumes "watch_laws W" and "reach (latch_start W) (latch_step W) s"
    and "reader_at s j Returned" and "(latch_step W)\<^sup>*\<^sup>* s t"
  shows "l_closed (sys_latch s) \<and> l_closed (sys_latch t)"
proof -
  have "l_closed (sys_latch s)"
    using latch_invD(3) [OF latch_reach_inv [OF assms(1,2)] assms(3)] .
  moreover have "l_closed (sys_latch u) \<Longrightarrow> latch_step W u v \<Longrightarrow> l_closed (sys_latch v)" for u v
    by (erule latch_step.cases) (auto simp: sys_defs elim: closed_step.cases)
  ultimately show ?thesis
    using assms(4) by (auto elim: rtranclp_induct)
qed

text \<open>The run above, continued until the reader has returned.\<close>

lemma latch_demo_returned:
  "reach (latch_start pair_watch_lib) (latch_step pair_watch_lib)
     \<lparr>sys_latch = \<lparr>l_closed = True, l_tx = (True, 1)\<rparr>, sys_closers = [CDone], sys_readers = [Returned]\<rparr>"
proof -
  note 1 = reach_step [OF latch_demo_reach latch_step.in_call [OF closed_step.changed [where j = 0]]]
  note 2 = reach_step [OF 1 latch_step.in_call [OF closed_step.borrow_true [where j = 0]]]
  show ?thesis using 2 by (simp add: sys_defs pair_watch_lib_def)
qed

theorem latch_no_spurious_return_witness:
  "l_closed (sys_latch \<lparr>sys_latch = \<lparr>l_closed = True, l_tx = (True, 1 :: nat)\<rparr>,
      sys_closers = [CDone], sys_readers = [Returned]\<rparr>)"
  using latch_no_spurious_return [OF pair_watch_laws latch_demo_returned, of 0] by fastforce

end
