(* ===== verification/OwnershipModel.thy ===== *)
theory OwnershipModel
  imports Latches Ids
begin

text \<open>
  Models \<open>splitter-client/src/ownership.rs\<close>: the life-cycle signals of one grant and the waits on
  them. Latches are the flags of theory \<open>Latches\<close>.

  A \<open>wait_for_*\<close> method is a \<open>tokio::select!\<close> over latches: the list of its possible results in the
  current state. The macro picks any of them; an empty list means that the caller is suspended.
  \<open>own_op\<close> lists the operations other tasks perform on a shared \<open>Ownership\<close> in between:
  the driver's (\<open>Activate\<close> to \<open>SetExpiration\<close>) and the user's (\<open>RequestRevoke\<close>, \<open>Load\<close>, \<open>Unload\<close>).
\<close>

section \<open>State\<close>

record Loader =
  ld_unloaded :: latch
  ld_load :: latch

record Unloader =
  ul_loaded :: latch
  ul_unload :: latch

record Ownership =
  ow_active :: latch
  ow_revoked :: latch
  ow_expired :: latch
  ow_request_revoke :: latch
  ow_loader :: Loader
  ow_unloader :: Unloader
  ow_expiration :: SystemTime

definition loader_new :: Loader where
  "loader_new = \<lparr>ld_unloaded = fresh_latch, ld_load = fresh_latch\<rparr>"

definition unloader_new :: Unloader where
  "unloader_new = \<lparr>ul_loaded = fresh_latch, ul_unload = fresh_latch\<rparr>"

definition ownership_new :: "GrantState \<Rightarrow> SystemTime \<Rightarrow> SystemTime \<Rightarrow> Ownership" where
  "ownership_new initial_state expiration now =
     (let o0 = \<lparr>ow_active = fresh_latch, ow_revoked = fresh_latch, ow_expired = fresh_latch,
                ow_request_revoke = fresh_latch, ow_loader = loader_new,
                ow_unloader = unloader_new, ow_expiration = expiration\<rparr>;
          o1 = (case initial_state of
                  GrantState.Active \<Rightarrow> o0\<lparr>ow_active := close_latch (ow_active o0)\<rparr>
                | GrantState.Revoked \<Rightarrow> o0\<lparr>ow_revoked := close_latch (ow_revoked o0)\<rparr>
                | GrantState.RevokedUnloaded \<Rightarrow> o0\<lparr>ow_revoked := close_latch (ow_revoked o0)\<rparr>
                | _ \<Rightarrow> o0)
      in if now > expiration then o1\<lparr>ow_expired := close_latch (ow_expired o1)\<rparr> else o1)"

section \<open>Operations\<close>

definition loader_load :: "Loader \<Rightarrow> Loader" where
  "loader_load l = l\<lparr>ld_load := close_latch (ld_load l)\<rparr>"

definition unloader_unload :: "Unloader \<Rightarrow> Unloader" where
  "unloader_unload u = u\<lparr>ul_unload := close_latch (ul_unload u)\<rparr>"

definition request_revoke :: "Ownership \<Rightarrow> Ownership" where
  "request_revoke w = w\<lparr>ow_request_revoke := close_latch (ow_request_revoke w)\<rparr>"

definition set_expiration :: "SystemTime \<Rightarrow> Ownership \<Rightarrow> Ownership" where
  "set_expiration deadline w = w\<lparr>ow_expiration := deadline\<rparr>"

definition activate :: "Ownership \<Rightarrow> Ownership" where
  "activate w = w\<lparr>ow_active := close_latch (ow_active w)\<rparr>"

definition revoke :: "Ownership \<Rightarrow> Ownership" where
  "revoke w = w\<lparr>ow_revoked := close_latch (ow_revoked w)\<rparr>"

definition expire :: "Ownership \<Rightarrow> Ownership" where
  "expire w = w\<lparr>ow_expired := close_latch (ow_expired w)\<rparr>"

definition counterpart_loaded :: "Ownership \<Rightarrow> Ownership" where
  "counterpart_loaded w =
     w\<lparr>ow_unloader := (ow_unloader w)\<lparr>ul_loaded := close_latch (ul_loaded (ow_unloader w))\<rparr>\<rparr>"

definition counterpart_unloaded :: "Ownership \<Rightarrow> Ownership" where
  "counterpart_unloaded w =
     w\<lparr>ow_loader := (ow_loader w)\<lparr>ld_unloaded := close_latch (ld_unloaded (ow_loader w))\<rparr>\<rparr>"

definition load :: "Ownership \<Rightarrow> Ownership" where
  "load w = w\<lparr>ow_loader := loader_load (ow_loader w)\<rparr>"

definition unload :: "Ownership \<Rightarrow> Ownership" where
  "unload w = w\<lparr>ow_unloader := unloader_unload (ow_unloader w)\<rparr>"

datatype own_op =
    Activate | Revoke | Expire | CounterpartLoaded | CounterpartUnloaded
  | SetExpiration SystemTime | RequestRevoke | Load | Unload

fun own_apply :: "own_op \<Rightarrow> Ownership \<Rightarrow> Ownership" where
  "own_apply Activate w = activate w"
| "own_apply Revoke w = revoke w"
| "own_apply Expire w = expire w"
| "own_apply CounterpartLoaded w = counterpart_loaded w"
| "own_apply CounterpartUnloaded w = counterpart_unloaded w"
| "own_apply (SetExpiration t) w = set_expiration t w"
| "own_apply RequestRevoke w = request_revoke w"
| "own_apply Load w = load w"
| "own_apply Unload w = unload w"

definition own_run :: "own_op list \<Rightarrow> Ownership \<Rightarrow> Ownership" where
  "own_run ops w = fold own_apply ops w"

lemmas own_op_defs =
  loader_load_def unloader_unload_def request_revoke_def set_expiration_def activate_def
  revoke_def expire_def counterpart_loaded_def counterpart_unloaded_def load_def unload_def

section \<open>Waits\<close>

definition wait_for_unload :: "Ownership \<Rightarrow> (ClientError + Loader) list" where
  "wait_for_unload w = select_ready
     [(is_closed (ow_active w), Inr (ow_loader w)),
      (is_closed (ld_unloaded (ow_loader w)), Inr (ow_loader w)),
      (is_closed (ow_revoked w), Inl ClientError.Revoked),
      (is_closed (ow_expired w), Inl ClientError.Expired)]"

definition wait_for_active :: "Ownership \<Rightarrow> (ClientError + unit) list" where
  "wait_for_active w = select_ready
     [(is_closed (ow_active w), Inr ()),
      (is_closed (ow_revoked w), Inl ClientError.Revoked),
      (is_closed (ow_expired w), Inl ClientError.Expired)]"

definition wait_for_revoke :: "Ownership \<Rightarrow> (ClientError + Unloader) list" where
  "wait_for_revoke w = select_ready
     [(is_closed (ow_revoked w), Inr (ow_unloader w)),
      (is_closed (ow_expired w), Inl ClientError.Expired)]"

definition wait_for_load :: "Ownership \<Rightarrow> (ClientError + unit) list" where
  "wait_for_load w = select_ready
     [(is_closed (ul_loaded (ow_unloader w)), Inr ()),
      (is_closed (ow_expired w), Inl ClientError.Expired)]"

definition wait_for_action :: "Ownership \<Rightarrow> latch \<Rightarrow> (ClientError + unit) list" where
  "wait_for_action w action = select_ready
     [(is_closed action, Inr ()),
      (is_closed (ow_expired w), Inl ClientError.Expired)]"

lemmas wait_defs =
  wait_for_unload_def wait_for_active_def wait_for_revoke_def wait_for_load_def wait_for_action_def

section \<open>What the waits can return\<close>

text \<open>
  When the waits resolve and with what. \<open>wait_for_unload\<close> may succeed as soon as the grant is
  active or the counterpart has unloaded, and may fail with \<open>Revoked\<close> or \<open>Expired\<close> as soon as the
  corresponding latch is closed; when several of these hold every one of the results is
  possible, in whatever order the latches were closed. The other waits likewise.
\<close>

theorem wait_results:
  "((\<exists>l. Inr l \<in> set (wait_for_unload w)) \<longleftrightarrow> is_closed (ow_active w) \<or> is_closed (ld_unloaded (ow_loader w)))
   \<and> (Inl e \<in> set (wait_for_unload w) \<longleftrightarrow>
        e = ClientError.Revoked \<and> is_closed (ow_revoked w) \<or> e = ClientError.Expired \<and> is_closed (ow_expired w))
   \<and> (Inr () \<in> set (wait_for_active w) \<longleftrightarrow> is_closed (ow_active w))
   \<and> (Inl e \<in> set (wait_for_active w) \<longleftrightarrow>
        e = ClientError.Revoked \<and> is_closed (ow_revoked w) \<or> e = ClientError.Expired \<and> is_closed (ow_expired w))
   \<and> ((\<exists>u. Inr u \<in> set (wait_for_revoke w)) \<longleftrightarrow> is_closed (ow_revoked w))
   \<and> (Inl e \<in> set (wait_for_revoke w) \<longleftrightarrow> e = ClientError.Expired \<and> is_closed (ow_expired w))
   \<and> (Inr () \<in> set (wait_for_load w) \<longleftrightarrow> is_closed (ul_loaded (ow_unloader w)))
   \<and> (Inl e \<in> set (wait_for_load w) \<longleftrightarrow> e = ClientError.Expired \<and> is_closed (ow_expired w))
   \<and> (Inr () \<in> set (wait_for_action w a) \<longleftrightarrow> is_closed a)
   \<and> (Inl e \<in> set (wait_for_action w a) \<longleftrightarrow> e = ClientError.Expired \<and> is_closed (ow_expired w))"
  unfolding wait_defs select_ready_mem by auto

text \<open>
  Expiry unblocks everything: once the lease is expired, none of the five waits suspends,
  and each of them may report the expiry.
\<close>

theorem expiry_unblocks_all_waits:
  assumes "is_closed (ow_expired w)"
  shows "Inl ClientError.Expired \<in> set (wait_for_unload w)
    \<and> Inl ClientError.Expired \<in> set (wait_for_active w)
    \<and> Inl ClientError.Expired \<in> set (wait_for_revoke w)
    \<and> Inl ClientError.Expired \<in> set (wait_for_load w)
    \<and> Inl ClientError.Expired \<in> set (wait_for_action w a)"
  using assms unfolding wait_defs select_ready_mem by simp

theorem expiry_unblocks_all_waits_witness:
  "Inl ClientError.Expired \<in> set (wait_for_load (ownership_new GrantState.Allocated 5 6))"
  using expiry_unblocks_all_waits [of "ownership_new GrantState.Allocated 5 6"]
  by (simp add: ownership_new_def)

section \<open>One-shot signals\<close>

text \<open>The latches of a grant, in one order of comparison: every closed one stays closed.\<close>

definition own_latches :: "Ownership \<Rightarrow> latch list" where
  "own_latches w =
     [ow_active w, ow_revoked w, ow_expired w, ow_request_revoke w,
      ld_unloaded (ow_loader w), ld_load (ow_loader w),
      ul_loaded (ow_unloader w), ul_unload (ow_unloader w)]"

definition own_le :: "Ownership \<Rightarrow> Ownership \<Rightarrow> bool" where
  "own_le w w' \<longleftrightarrow> list_all2 (\<lambda>l l'. is_closed l \<longrightarrow> is_closed l') (own_latches w) (own_latches w')"

lemma own_le_refl [simp]: "own_le w w"
  by (simp add: own_le_def list_all2_same)

lemma own_le_trans: "own_le u v \<Longrightarrow> own_le v w \<Longrightarrow> own_le u w"
  unfolding own_le_def by (rule list_all2_trans) auto

lemma own_apply_le: "own_le w (own_apply p w)"
  by (cases p) (simp_all add: own_le_def own_latches_def own_op_defs)

lemma own_run_le: "own_le w (own_run ops w)"
  unfolding own_run_def
  by (induction ops arbitrary: w) (auto intro: own_le_trans own_apply_le)

lemma own_leD:
  assumes "own_le w w'"
  shows "is_closed (ow_active w) \<Longrightarrow> is_closed (ow_active w')"
    and "is_closed (ow_revoked w) \<Longrightarrow> is_closed (ow_revoked w')"
    and "is_closed (ow_expired w) \<Longrightarrow> is_closed (ow_expired w')"
    and "is_closed (ow_request_revoke w) \<Longrightarrow> is_closed (ow_request_revoke w')"
    and "is_closed (ld_unloaded (ow_loader w)) \<Longrightarrow> is_closed (ld_unloaded (ow_loader w'))"
    and "is_closed (ld_load (ow_loader w)) \<Longrightarrow> is_closed (ld_load (ow_loader w'))"
    and "is_closed (ul_loaded (ow_unloader w)) \<Longrightarrow> is_closed (ul_loaded (ow_unloader w'))"
    and "is_closed (ul_unload (ow_unloader w)) \<Longrightarrow> is_closed (ul_unload (ow_unloader w'))"
  using assms by (simp_all add: own_le_def own_latches_def)

text \<open>The shapes of a wait's possible results: success, or which error.\<close>

definition outcomes :: "(ClientError + 'a) list \<Rightarrow> ClientError option set" where
  "outcomes rs = set (map (\<lambda>r. case r of Inl e \<Rightarrow> Some e | Inr _ \<Rightarrow> None) rs)"

lemma outcomes_select_ready:
  "outcomes (select_ready bs) =
     {case r of Inl e \<Rightarrow> Some e | Inr _ \<Rightarrow> None | r. (True, r) \<in> set bs}"
  unfolding outcomes_def set_map by (auto simp: select_ready_mem)

lemma outcomes_mono:
  "own_le w w' \<Longrightarrow> outcomes (wait_for_unload w) \<subseteq> outcomes (wait_for_unload w')"
  "own_le w w' \<Longrightarrow> outcomes (wait_for_active w) \<subseteq> outcomes (wait_for_active w')"
  "own_le w w' \<Longrightarrow> outcomes (wait_for_revoke w) \<subseteq> outcomes (wait_for_revoke w')"
  "own_le w w' \<Longrightarrow> outcomes (wait_for_load w) \<subseteq> outcomes (wait_for_load w')"
  "own_le w w' \<Longrightarrow> outcomes (wait_for_action w a) \<subseteq> outcomes (wait_for_action w' a)"
  by (auto simp: wait_defs outcomes_def dest: own_leD split: if_splits)

text \<open>
  Signals are one-shot: no sequence of operations by the driver or the user takes back a result
  that a wait could have returned, success or error. A waiter may therefore be polled at any
  later moment and still observes what happened.
\<close>

theorem waits_are_stable:
  "outcomes (wait_for_unload w) \<subseteq> outcomes (wait_for_unload (own_run ops w))
   \<and> outcomes (wait_for_active w) \<subseteq> outcomes (wait_for_active (own_run ops w))
   \<and> outcomes (wait_for_revoke w) \<subseteq> outcomes (wait_for_revoke (own_run ops w))
   \<and> outcomes (wait_for_load w) \<subseteq> outcomes (wait_for_load (own_run ops w))
   \<and> outcomes (wait_for_action w a) \<subseteq> outcomes (wait_for_action (own_run ops w) a)"
  by (intro conjI outcomes_mono own_run_le)

section \<open>Fresh ownerships\<close>

lemma ownership_new_latches [simp]:
  "is_closed (ow_active (ownership_new st e now)) \<longleftrightarrow> st = GrantState.Active"
  "is_closed (ow_revoked (ownership_new st e now)) \<longleftrightarrow>
     st = GrantState.Revoked \<or> st = GrantState.RevokedUnloaded"
  "is_closed (ow_expired (ownership_new st e now)) \<longleftrightarrow> e < now"
  "\<not> is_closed (ow_request_revoke (ownership_new st e now))"
  "ow_loader (ownership_new st e now) = loader_new"
  "ow_unloader (ownership_new st e now) = unloader_new"
  "ow_expiration (ownership_new st e now) = e"
  by (simp_all add: ownership_new_def Let_def split: GrantState.split)

lemma fresh_handover [simp]:
  "\<not> is_closed (ld_unloaded loader_new)" "\<not> is_closed (ld_load loader_new)"
  "\<not> is_closed (ul_loaded unloader_new)" "\<not> is_closed (ul_unload unloader_new)"
  by (simp_all add: loader_new_def unloader_new_def)

text \<open>
  What a newly assigned grant's waits do before anything else happens, by the state it is
  assigned in: an active grant starts at once, a revoked one refuses to start but lets its
  user drain, every other state suspends, and a lease in the past adds the expiry error to
  each of them. No grant starts with the counterpart's load already seen.
\<close>

theorem fresh_ownership_waits:
  "outcomes (wait_for_unload (ownership_new st e now)) =
     (if st = GrantState.Active then {None} else {})
     \<union> (if st = GrantState.Revoked \<or> st = GrantState.RevokedUnloaded then {Some ClientError.Revoked} else {})
     \<union> (if e < now then {Some ClientError.Expired} else {})
   \<and> outcomes (wait_for_revoke (ownership_new st e now)) =
     (if st = GrantState.Revoked \<or> st = GrantState.RevokedUnloaded then {None} else {})
     \<union> (if e < now then {Some ClientError.Expired} else {})
   \<and> outcomes (wait_for_load (ownership_new st e now)) =
     (if e < now then {Some ClientError.Expired} else {})"
  by (auto simp: wait_defs outcomes_def)

end
