(* ===== verification/GrantMaps.thy ===== *)
theory GrantMaps
  imports Ids
begin

text \<open>
  Models \<open>splitter-client/src/grant_map.rs\<close>: the table from grant ids to (shard, state, value).
  The hash map under its lock is a partial map; every method holds the lock for its whole body, so
  a method is one atomic step.

  The locale \<open>grant_table\<close> is what the Processor relies on: reading after writing and after
  deleting, for the same id and for others.
\<close>

section \<open>The interface\<close>

locale grant_table =
  fixes put :: "'m \<Rightarrow> 'i \<Rightarrow> 'v \<Rightarrow> 'm" and drop_id :: "'m \<Rightarrow> 'i \<Rightarrow> 'm" and fetch :: "'m \<Rightarrow> 'i \<Rightarrow> 'v option"
  assumes fetch_put: "fetch (put m i v) j = (if i = j then Some v else fetch m j)"
    and fetch_drop: "fetch (drop_id m i) j = (if i = j then None else fetch m j)"
begin

lemma fetch_put_many: "fetch (fold (\<lambda>v m. put m i v) vs m) j =
    (if i = j \<and> vs \<noteq> [] then Some (last vs) else fetch m j)"
  by (induction vs arbitrary: m) (auto simp: fetch_put)

lemma fetch_lifecycle: "fetch (drop_id (fold (\<lambda>v m. put m i v) vs m) i) j =
    (if i = j then None else fetch m j)"
  by (simp add: fetch_drop fetch_put_many)

end

section \<open>The table\<close>

record 'v Entry =
  ge_shard :: Shard
  ge_state :: GrantState
  ge_value :: 'v

type_synonym 'v GrantMap = "GrantId \<rightharpoonup> 'v Entry"

definition gm_new :: "'v GrantMap" where
  "gm_new = Map.empty"

definition gm_write :: "'v GrantMap \<Rightarrow> GrantId \<Rightarrow> Shard \<Rightarrow> GrantState \<Rightarrow> 'v \<Rightarrow> 'v GrantMap" where
  "gm_write m i shard state v = m(i \<mapsto> \<lparr>ge_shard = shard, ge_state = state, ge_value = v\<rparr>)"

definition gm_allocated :: "'v GrantMap \<Rightarrow> GrantId \<Rightarrow> Shard \<Rightarrow> 'v \<Rightarrow> 'v GrantMap" where
  "gm_allocated m i shard v = gm_write m i shard GrantState.Allocated v"

definition gm_loaded :: "'v GrantMap \<Rightarrow> GrantId \<Rightarrow> Shard \<Rightarrow> 'v \<Rightarrow> 'v GrantMap" where
  "gm_loaded m i shard v = gm_write m i shard GrantState.AllocatedLoaded v"

definition gm_activate :: "'v GrantMap \<Rightarrow> GrantId \<Rightarrow> Shard \<Rightarrow> 'v \<Rightarrow> 'v GrantMap" where
  "gm_activate m i shard v = gm_write m i shard GrantState.Active v"

definition gm_revoke :: "'v GrantMap \<Rightarrow> GrantId \<Rightarrow> Shard \<Rightarrow> 'v \<Rightarrow> 'v GrantMap" where
  "gm_revoke m i shard v = gm_write m i shard GrantState.Revoked v"

definition gm_unloaded :: "'v GrantMap \<Rightarrow> GrantId \<Rightarrow> Shard \<Rightarrow> 'v \<Rightarrow> 'v GrantMap" where
  "gm_unloaded m i shard v = gm_write m i shard GrantState.RevokedUnloaded v"

text \<open>\<open>delete\<close> also returns the entry it removed.\<close>

definition gm_get :: "'v GrantMap \<Rightarrow> GrantId \<Rightarrow> (Shard \<times> GrantState \<times> 'v) option" where
  "gm_get m i = map_option (\<lambda>e. (ge_shard e, ge_state e, ge_value e)) (m i)"

definition gm_delete :: "'v GrantMap \<Rightarrow> GrantId \<Rightarrow> (Shard \<times> GrantState \<times> 'v) option \<times> 'v GrantMap" where
  "gm_delete m i =
     (map_option (\<lambda>e. (ge_shard e, ge_state e, ge_value e)) (m i), m(i := None))"

definition gm_len :: "'v GrantMap \<Rightarrow> nat" where
  "gm_len m = card (dom m)"

definition gm_is_empty :: "'v GrantMap \<Rightarrow> bool" where
  "gm_is_empty m \<longleftrightarrow> gm_len m = 0"

lemmas gm_write_defs =
  gm_allocated_def gm_loaded_def gm_activate_def gm_revoke_def gm_unloaded_def

lemma gm_get_write [simp]:
  "gm_get (gm_write m i shard st v) j = (if i = j then Some (shard, st, v) else gm_get m j)"
  by (simp add: gm_get_def gm_write_def)

lemma gm_get_delete [simp]:
  "gm_get (snd (gm_delete m i)) j = (if i = j then None else gm_get m j)"
  "fst (gm_delete m i) = gm_get m i"
  by (simp_all add: gm_get_def gm_delete_def)

lemma gm_get_new [simp]: "gm_get gm_new i = None"
  by (simp add: gm_get_def gm_new_def)

interpretation gm: grant_table
  "\<lambda>m i (shard, st, v). gm_write m i shard st v" "\<lambda>m i. snd (gm_delete m i)" gm_get
  by unfold_locales (auto split: prod.split)

lemma gm_len_write:
  "finite (dom m) \<Longrightarrow> gm_len (gm_write m i shard st v) = (if i \<in> dom m then gm_len m else gm_len m + 1)"
  by (simp add: gm_len_def gm_write_def insert_absorb)

lemma gm_len_delete:
  "finite (dom m) \<Longrightarrow> gm_len (snd (gm_delete m i)) = (if i \<in> dom m then gm_len m - 1 else gm_len m)"
  by (simp add: gm_len_def gm_delete_def)

lemma gm_is_empty_iff: "finite (dom m) \<Longrightarrow> gm_is_empty m \<longleftrightarrow> m = gm_new"
  by (simp add: gm_is_empty_def gm_len_def gm_new_def)

text \<open>
  A grant's whole life in the table: after any sequence of state writes for an id the
  table holds the last one; deleting returns it and leaves nothing of the grant behind; and no other
  grant is affected at any point.
\<close>

theorem grant_map_lifecycle:
  "gm_get (fold (\<lambda>(shard, st, v) m. gm_write m i shard st v) ws m) j =
     (if i = j \<and> ws \<noteq> [] then Some (last ws) else gm_get m j)
   \<and> gm_get (snd (gm_delete (fold (\<lambda>(shard, st, v) m. gm_write m i shard st v) ws m) i)) j =
     (if i = j then None else gm_get m j)"
  using gm.fetch_put_many [of i ws m j] gm.fetch_lifecycle [of i ws m j]
  by (simp add: case_prod_beta')

end
