(* ===== verification/ClusterModel.thy ===== *)
theory ClusterModel
  imports Wrap "HOL-Library.Multiset" "HOL-Library.List_Lexorder" "HOL-Library.Char_ord"
begin

text \<open>
  Models \<open>splitter-client/src/cluster.rs\<close>: the immutable cluster snapshot, the application of
  a server-sent \<open>ClusterMessage\<close>, and the lookup of a key's owner.

  The hash maps are partial maps. Two operations iterate over \<open>grants\<close>: the shard stage of
  \<open>apply_change\<close> and \<open>lookup\<close>. They take the iteration order \<open>ord\<close>, a list that
  \<open>enumerates\<close> the map. Decoding an instance may panic on its creation time, so results are
  \<open>fault + 'a\<close>. Strings are compared as Rust compares them, byte by byte (\<open>List_Lexorder\<close>,
  \<open>Char_ord\<close>).
\<close>

named_theorems cluster_wf_intros \<open>operations preserving well-formedness of the snapshot\<close>

section \<open>State\<close>

record ClusterId =
  ci_version :: i64
  ci_origin :: "Instance option"
  ci_timestamp :: SystemTime

record GrantEntry =
  gr_id :: GrantId
  gr_shard :: Shard
  gr_state :: GrantState
  gr_consumer :: ConsumerId

record ConsumerEntry =
  ce_consumer :: Instance
  ce_grants :: "GrantId list"

record ClusterMap =
  cmap_id :: ClusterId
  cmap_consumers :: "ConsumerId \<rightharpoonup> ConsumerEntry"
  cmap_grants :: "GrantId \<rightharpoonup> GrantEntry"
  cmap_shards :: "Shard list"

definition cluster_empty :: ClusterMap where
  "cluster_empty =
     \<lparr>cmap_id = \<lparr>ci_version = 0, ci_origin = None, ci_timestamp = 0\<rparr>,
      cmap_consumers = Map.empty, cmap_grants = Map.empty, cmap_shards = []\<rparr>"

section \<open>Building blocks\<close>

definition decode_shards :: "pb_Shard list \<Rightarrow> ClientError + Shard list" where
  "decode_shards raw = collect_res shard_try_from raw"

definition drop_grant :: "GrantId \<Rightarrow> ClusterMap \<Rightarrow> ClusterMap" where
  "drop_grant gid cm =
     (case cmap_grants cm gid of
        None \<Rightarrow> cm
      | Some entry \<Rightarrow>
          let cm1 = cm\<lparr>cmap_grants := (cmap_grants cm)(gid := None)\<rparr>
          in case cmap_consumers cm1 (gr_consumer entry) of
               None \<Rightarrow> cm1
             | Some c \<Rightarrow> cm1\<lparr>cmap_consumers := (cmap_consumers cm1)
                 (gr_consumer entry \<mapsto> c\<lparr>ce_grants := filter (\<lambda>g. g \<noteq> gid) (ce_grants c)\<rparr>)\<rparr>)"

definition remove_consumer :: "ConsumerId \<Rightarrow> ClusterMap \<Rightarrow> ClusterMap" where
  "remove_consumer cid cm =
     (case cmap_consumers cm cid of
        None \<Rightarrow> cm
      | Some entry \<Rightarrow>
          cm\<lparr>cmap_consumers := (cmap_consumers cm)(cid := None),
              cmap_grants := fold (\<lambda>gid m. m(gid := None)) (ce_grants entry) (cmap_grants cm)\<rparr>)"

definition update_grant :: "ClusterMap \<Rightarrow> pb_GrantInfo \<Rightarrow> ClientError + ClusterMap" where
  "update_grant cm g =
     (let gid = GrantId (gi_id g)
      in case cmap_grants cm gid of
           None \<Rightarrow> Inr cm
         | Some entry \<Rightarrow>
             sbind (case gi_shard g of
                      None \<Rightarrow> Inr entry
                    | Some p \<Rightarrow> sbind (shard_try_from p) (\<lambda>shard. Inr (entry\<lparr>gr_shard := shard\<rparr>)))
               (\<lambda>entry1. Inr (cm\<lparr>cmap_grants := (cmap_grants cm)
                  (gid \<mapsto> entry1\<lparr>gr_state := grant_state_from_i32 (gi_state g)\<rparr>)\<rparr>)))"

text \<open>\<open>consumers.entry(cid).or_insert_with(..)\<close>: an existing entry keeps its instance.\<close>

definition ensure_consumer :: "Instance \<Rightarrow> ClusterMap \<Rightarrow> ClusterMap" where
  "ensure_consumer consumer cm =
     (case cmap_consumers cm (inst_id consumer) of
        Some _ \<Rightarrow> cm
      | None \<Rightarrow> cm\<lparr>cmap_consumers := (cmap_consumers cm)
          (inst_id consumer \<mapsto> \<lparr>ce_consumer = consumer, ce_grants = []\<rparr>)\<rparr>)"

text \<open>One turn of the loop over \<open>assign.grants\<close>: push to the consumer's list, insert the grant.\<close>

definition put_grant :: "ConsumerId \<Rightarrow> GrantEntry \<Rightarrow> ClusterMap \<Rightarrow> ClusterMap" where
  "put_grant cid g cm =
     cm\<lparr>cmap_consumers := (cmap_consumers cm)
           (cid := map_option (\<lambda>e. e\<lparr>ce_grants := ce_grants e @ [gr_id g]\<rparr>) (cmap_consumers cm cid)),
         cmap_grants := (cmap_grants cm)(gr_id g \<mapsto> g)\<rparr>"

definition assign_grant :: "ConsumerId \<Rightarrow> ClusterMap \<Rightarrow> pb_GrantInfo \<Rightarrow> ClientError + ClusterMap" where
  "assign_grant cid cm g =
     sbind (ok_or (gi_shard g) (InvalidMessage ''GrantInfo without shard'')) (\<lambda>p.
     sbind (shard_try_from p) (\<lambda>shard.
     Inr (put_grant cid
       \<lparr>gr_id = GrantId (gi_id g), gr_shard = shard,
        gr_state = grant_state_from_i32 (gi_state g), gr_consumer = cid\<rparr> cm)))"

definition apply_assignment :: "uuid_lib \<Rightarrow> ClusterMap \<Rightarrow> pb_Assignment \<Rightarrow> fault + ClusterMap" where
  "apply_assignment U cm a =
     sbind (lift_err (ok_or (as_consumer a) (InvalidMessage ''Assignment without consumer''))) (\<lambda>pb.
     sbind (instance_try_from U pb) (\<lambda>consumer.
     lift_err (fold_res (assign_grant (inst_id consumer)) (ensure_consumer consumer cm) (as_grants a))))"

section \<open>Applying messages\<close>

definition opt_stage :: "('x \<Rightarrow> 's \<Rightarrow> 'e + 's) \<Rightarrow> 'x option \<Rightarrow> 's \<Rightarrow> 'e + 's" where
  "opt_stage f v s = (case v of None \<Rightarrow> Inr s | Some x \<Rightarrow> f x s)"

definition apply_snapshot ::
  "uuid_lib \<Rightarrow> pb_Snapshot \<Rightarrow> i64 \<Rightarrow> SystemTime \<Rightarrow> fault + ClusterMap" where
  "apply_snapshot U snap version timestamp =
     sbind (lift_err (decode_shards (sn_shards snap))) (\<lambda>shards.
     sbind (case sn_origin snap of
              None \<Rightarrow> Inr None
            | Some p \<Rightarrow> sbind (loc_instance_try_from U p) (\<lambda>i. Inr (Some i))) (\<lambda>origin.
     fold_res (apply_assignment U)
       \<lparr>cmap_id = \<lparr>ci_version = version, ci_origin = origin, ci_timestamp = timestamp\<rparr>,
        cmap_consumers = Map.empty, cmap_grants = Map.empty, cmap_shards = shards\<rparr>
       (sn_assignments snap)))"

definition shards_stage ::
  "GrantId list \<Rightarrow> pb_ClusterShards \<Rightarrow> ClusterMap \<Rightarrow> fault + ClusterMap" where
  "shards_stage ord p cm =
     sbind (lift_err (decode_shards (csh_shards p))) (\<lambda>shards.
       let next = cm\<lparr>cmap_shards := shards\<rparr>;
           drop_ids = filter (\<lambda>gid. case cmap_grants next gid of
                                      None \<Rightarrow> False | Some g \<Rightarrow> gr_shard g \<notin> set shards) ord
       in Inr (fold drop_grant drop_ids next))"

definition assign_stage :: "uuid_lib \<Rightarrow> pb_ClusterAssign \<Rightarrow> ClusterMap \<Rightarrow> fault + ClusterMap" where
  "assign_stage U p cm = fold_res (apply_assignment U) cm (ca_assignments p)"

definition update_stage :: "pb_ClusterUpdate \<Rightarrow> ClusterMap \<Rightarrow> fault + ClusterMap" where
  "update_stage p cm = lift_err (fold_res update_grant cm (cu_grants p))"

definition unassign_stage :: "pb_ClusterUnassign \<Rightarrow> ClusterMap \<Rightarrow> fault + ClusterMap" where
  "unassign_stage p cm = Inr (fold (\<lambda>gid. drop_grant (GrantId gid)) (cun_grants p) cm)"

definition remove_id :: "uuid_lib \<Rightarrow> string \<Rightarrow> ClusterMap \<Rightarrow> ClusterMap" where
  "remove_id U cid cm =
     (case instance_id_try_from U cid of
        Inr i \<Rightarrow> remove_consumer i cm
      | Inl e \<Rightarrow> cm)"

definition remove_stage :: "uuid_lib \<Rightarrow> pb_ClusterRemove \<Rightarrow> ClusterMap \<Rightarrow> fault + ClusterMap" where
  "remove_stage U p cm = Inr (fold (remove_id U) (crm_consumers p) cm)"

definition apply_change ::
  "uuid_lib \<Rightarrow> GrantId list \<Rightarrow> ClusterMap \<Rightarrow> pb_Change \<Rightarrow> i64 \<Rightarrow> SystemTime \<Rightarrow> fault + ClusterMap" where
  "apply_change U ord self change version timestamp =
     (let next = self\<lparr>cmap_id := \<lparr>ci_version = version, ci_origin = ci_origin (cmap_id self),
                                  ci_timestamp = timestamp\<rparr>\<rparr>
      in sbind (opt_stage (shards_stage ord) (ch_shards change) next) (\<lambda>next1.
         sbind (opt_stage (assign_stage U) (ch_assign change) next1) (\<lambda>next2.
         sbind (opt_stage update_stage (ch_update change) next2) (\<lambda>next3.
         sbind (opt_stage unassign_stage (ch_unassign change) next3) (\<lambda>next4.
         opt_stage (remove_stage U) (ch_remove change) next4)))))"

definition cluster_apply ::
  "uuid_lib \<Rightarrow> GrantId list \<Rightarrow> ClusterMap \<Rightarrow> pb_ClusterMessage \<Rightarrow> fault + ClusterMap" where
  "cluster_apply U ord self msg =
     sbind (case cm_timestamp msg of None \<Rightarrow> Inr 0 | Some t \<Rightarrow> timestamp_to_system_time t) (\<lambda>timestamp.
     case cm_msg msg of
       Some (Snapshot snap) \<Rightarrow> apply_snapshot U snap (cm_version msg) timestamp
     | Some (Change change) \<Rightarrow> apply_change U ord self change (cm_version msg) timestamp
     | None \<Rightarrow> Inl (Err (InvalidMessage ''ClusterMessage without a variant'')))"

section \<open>Lookup\<close>

definition shard_covers :: "Shard \<Rightarrow> QualifiedDomainKey \<Rightarrow> bool" where
  "shard_covers shard key =
     (if sh_domain shard \<noteq> qdk_domain key then False
      else if \<not> region_is_empty (sh_region shard) \<and> sh_region shard \<noteq> dk_region (qdk_key key) then False
      else if sh_from shard \<noteq> [] \<and> dk_key (qdk_key key) < sh_from shard then False
      else if sh_to shard \<noteq> [] \<and> sh_to shard \<le> dk_key (qdk_key key) then False
      else True)"

definition default_states :: "GrantState list" where
  "default_states =
     [GrantState.Active, GrantState.Revoked, GrantState.AllocatedLoaded, GrantState.RevokedUnloaded]"

text \<open>\<open>grants.values()\<close> in the iteration order \<open>ord\<close>.\<close>

definition grant_values :: "GrantId list \<Rightarrow> ClusterMap \<Rightarrow> GrantEntry list" where
  "grant_values ord cm = List.map_filter (cmap_grants cm) ord"

fun lookup_states :: "GrantEntry list \<Rightarrow> QualifiedDomainKey \<Rightarrow> GrantState list \<Rightarrow> GrantEntry option" where
  "lookup_states vs key [] = None"
| "lookup_states vs key (state # ss) =
     (case List.find (\<lambda>g. gr_state g = state \<and> shard_covers (gr_shard g) key) vs of
        Some g \<Rightarrow> Some g
      | None \<Rightarrow> lookup_states vs key ss)"

definition cluster_lookup ::
  "GrantId list \<Rightarrow> ClusterMap \<Rightarrow> QualifiedDomainKey \<Rightarrow> GrantState list \<Rightarrow> GrantEntry option" where
  "cluster_lookup ord cm key states =
     (let wanted = (if states = [] then default_states else states)
      in lookup_states (grant_values ord cm) key wanted)"

definition shards_for_domain :: "ClusterMap \<Rightarrow> QualifiedDomainName \<Rightarrow> Shard list" where
  "shards_for_domain cm domain = filter (\<lambda>s. sh_domain s = domain) (cmap_shards cm)"

section \<open>Well-formed snapshots\<close>

text \<open>
  Referential integrity: an entry is stored under its own id, its consumer is a known consumer and
  lists it, and a consumer is stored under its instance's id. Both maps are finite.
\<close>

definition cluster_wf :: "ClusterMap \<Rightarrow> bool" where
  "cluster_wf cm \<longleftrightarrow>
     finite (dom (cmap_grants cm)) \<and> finite (dom (cmap_consumers cm))
     \<and> (\<forall>gid g. cmap_grants cm gid = Some g \<longrightarrow> gr_id g = gid
          \<and> (\<exists>c. cmap_consumers cm (gr_consumer g) = Some c \<and> gid \<in> set (ce_grants c)))
     \<and> (\<forall>cid c. cmap_consumers cm cid = Some c \<longrightarrow> inst_id (ce_consumer c) = cid)"

lemma cluster_wfD:
  assumes "cluster_wf cm"
  shows "finite (dom (cmap_grants cm))" and "finite (dom (cmap_consumers cm))"
    and "cmap_grants cm gid = Some g \<Longrightarrow> gr_id g = gid"
    and "cmap_grants cm gid = Some g \<Longrightarrow>
           \<exists>c. cmap_consumers cm (gr_consumer g) = Some c \<and> gid \<in> set (ce_grants c)"
    and "cmap_consumers cm cid = Some c \<Longrightarrow> inst_id (ce_consumer c) = cid"
  using assms unfolding cluster_wf_def by blast+

lemma cluster_wfI:
  assumes "finite (dom (cmap_grants cm))" and "finite (dom (cmap_consumers cm))"
    and "\<And>gid g. cmap_grants cm gid = Some g \<Longrightarrow> gr_id g = gid"
    and "\<And>gid g. cmap_grants cm gid = Some g \<Longrightarrow>
           \<exists>c. cmap_consumers cm (gr_consumer g) = Some c \<and> gid \<in> set (ce_grants c)"
    and "\<And>cid c. cmap_consumers cm cid = Some c \<Longrightarrow> inst_id (ce_consumer c) = cid"
  shows "cluster_wf cm"
  unfolding cluster_wf_def using assms by blast

lemma cluster_wf_cong:
  "cmap_grants cm = cmap_grants cm' \<Longrightarrow> cmap_consumers cm = cmap_consumers cm' \<Longrightarrow>
   cluster_wf cm \<longleftrightarrow> cluster_wf cm'"
  by (simp add: cluster_wf_def)

lemma cluster_wf_empty [cluster_wf_intros]: "cluster_wf cluster_empty"
  by (simp add: cluster_wf_def cluster_empty_def)

lemma cluster_wf_new [cluster_wf_intros]:
  "cluster_wf \<lparr>cmap_id = i, cmap_consumers = Map.empty, cmap_grants = Map.empty, cmap_shards = ss\<rparr>"
  by (simp add: cluster_wf_def)

lemma cluster_wf_updates [cluster_wf_intros]:
  "cluster_wf cm \<Longrightarrow> cluster_wf (cm\<lparr>cmap_id := i\<rparr>)"
  "cluster_wf cm \<Longrightarrow> cluster_wf (cm\<lparr>cmap_shards := ss\<rparr>)"
  by (simp_all add: cluster_wf_def)

text \<open>Reads after \<open>drop_grant\<close>.\<close>

lemma drop_grant_grants [simp]:
  "cmap_grants (drop_grant gid cm) = (cmap_grants cm)(gid := None)"
  by (auto simp: drop_grant_def Let_def fun_eq_iff split: option.split)

lemma drop_grant_other [simp]:
  "cmap_id (drop_grant gid cm) = cmap_id cm"
  "cmap_shards (drop_grant gid cm) = cmap_shards cm"
  by (auto simp: drop_grant_def Let_def split: option.split)

lemma drop_grant_consumers:
  "cmap_consumers (drop_grant gid cm) cid =
     (case cmap_grants cm gid of
        None \<Rightarrow> cmap_consumers cm cid
      | Some g \<Rightarrow>
          if gr_consumer g = cid
          then map_option (\<lambda>c. c\<lparr>ce_grants := filter (\<lambda>x. x \<noteq> gid) (ce_grants c)\<rparr>) (cmap_consumers cm cid)
          else cmap_consumers cm cid)"
  by (auto simp: drop_grant_def Let_def split: option.split)

lemma dom_drop_grant_consumers [simp]: "dom (cmap_consumers (drop_grant gid cm)) = dom (cmap_consumers cm)"
  by (auto simp: dom_def drop_grant_consumers split: option.splits if_splits)

lemma drop_grant_wf [cluster_wf_intros]:
  assumes "cluster_wf cm"
  shows "cluster_wf (drop_grant gid cm)"
  unfolding cluster_wf_def
proof (intro conjI allI impI)
  show "finite (dom (cmap_grants (drop_grant gid cm)))"
    using cluster_wfD(1) [OF assms] by simp
  show "finite (dom (cmap_consumers (drop_grant gid cm)))"
    using cluster_wfD(2) [OF assms] by simp
next
  fix i g assume g: "cmap_grants (drop_grant gid cm) i = Some g"
  then have i: "i \<noteq> gid" "cmap_grants cm i = Some g" by (auto split: if_splits)
  show "gr_id g = i" by (rule cluster_wfD(3) [OF assms i(2)])
  obtain c where "cmap_consumers cm (gr_consumer g) = Some c" "i \<in> set (ce_grants c)"
    using cluster_wfD(4) [OF assms i(2)] by blast
  with i(1) show "\<exists>c. cmap_consumers (drop_grant gid cm) (gr_consumer g) = Some c \<and> i \<in> set (ce_grants c)"
    by (auto simp: drop_grant_consumers split: option.split)
next
  fix cid c assume "cmap_consumers (drop_grant gid cm) cid = Some c"
  then show "inst_id (ce_consumer c) = cid"
    using cluster_wfD(5) [OF assms] by (auto simp: drop_grant_consumers split: option.splits if_splits)
qed

lemma fold_remove_keys: "fold (\<lambda>k m. m(k := None)) ks m k' = (if k' \<in> set ks then None else m k')"
  by (induction ks arbitrary: m) auto

lemma remove_consumer_grants:
  "cmap_grants (remove_consumer cid cm) gid =
     (case cmap_consumers cm cid of
        None \<Rightarrow> cmap_grants cm gid
      | Some c \<Rightarrow> if gid \<in> set (ce_grants c) then None else cmap_grants cm gid)"
  by (simp add: remove_consumer_def fold_remove_keys split: option.split)

lemma remove_consumer_consumers [simp]:
  "cmap_consumers (remove_consumer cid cm) = (cmap_consumers cm)(cid := None)"
  by (auto simp: remove_consumer_def fun_eq_iff split: option.split)

lemma remove_consumer_other [simp]:
  "cmap_id (remove_consumer cid cm) = cmap_id cm"
  "cmap_shards (remove_consumer cid cm) = cmap_shards cm"
  by (simp_all add: remove_consumer_def split: option.split)

lemma remove_consumer_wf [cluster_wf_intros]:
  assumes "cluster_wf cm"
  shows "cluster_wf (remove_consumer cid cm)"
  unfolding cluster_wf_def
proof (intro conjI allI impI)
  have "dom (cmap_grants (remove_consumer cid cm)) \<subseteq> dom (cmap_grants cm)"
    by (auto simp: dom_def remove_consumer_grants split: option.splits if_splits)
  then show "finite (dom (cmap_grants (remove_consumer cid cm)))"
    by (rule finite_subset) (rule cluster_wfD(1) [OF assms])
  show "finite (dom (cmap_consumers (remove_consumer cid cm)))"
    using cluster_wfD(2) [OF assms] by simp
next
  fix i g assume g: "cmap_grants (remove_consumer cid cm) i = Some g"
  then have i: "cmap_grants cm i = Some g"
    by (auto simp: remove_consumer_grants split: option.splits if_splits)
  then show "gr_id g = i" by (rule cluster_wfD(3) [OF assms])
  obtain c where c: "cmap_consumers cm (gr_consumer g) = Some c" "i \<in> set (ce_grants c)"
    using cluster_wfD(4) [OF assms i] by blast
  with g have "gr_consumer g \<noteq> cid" by (auto simp: remove_consumer_grants)
  with c show "\<exists>c. cmap_consumers (remove_consumer cid cm) (gr_consumer g) = Some c \<and> i \<in> set (ce_grants c)"
    by simp
next
  fix cid' c assume "cmap_consumers (remove_consumer cid cm) cid' = Some c"
  then show "inst_id (ce_consumer c) = cid'"
    using cluster_wfD(5) [OF assms] by (auto split: if_splits)
qed

lemma ensure_consumer_consumers:
  "cmap_consumers (ensure_consumer i cm) cid =
     (if cid = inst_id i \<and> cmap_consumers cm cid = None
      then Some \<lparr>ce_consumer = i, ce_grants = []\<rparr> else cmap_consumers cm cid)"
  by (auto simp: ensure_consumer_def split: option.split)

lemma ensure_consumer_other [simp]:
  "cmap_grants (ensure_consumer i cm) = cmap_grants cm"
  "cmap_id (ensure_consumer i cm) = cmap_id cm"
  "cmap_shards (ensure_consumer i cm) = cmap_shards cm"
  by (simp_all add: ensure_consumer_def split: option.split)

lemma dom_ensure_consumer [simp]:
  "dom (cmap_consumers (ensure_consumer i cm)) = insert (inst_id i) (dom (cmap_consumers cm))"
  by (auto simp: dom_def ensure_consumer_consumers)

lemma ensure_consumer_wf [cluster_wf_intros]:
  assumes "cluster_wf cm"
  shows "cluster_wf (ensure_consumer i cm)"
proof (rule cluster_wfI)
  fix gid g assume "cmap_grants (ensure_consumer i cm) gid = Some g"
  then obtain c where "cmap_consumers cm (gr_consumer g) = Some c" "gid \<in> set (ce_grants c)"
    using cluster_wfD(4) [OF assms] by auto
  then show "\<exists>c. cmap_consumers (ensure_consumer i cm) (gr_consumer g) = Some c \<and> gid \<in> set (ce_grants c)"
    by (simp add: ensure_consumer_consumers)
next
  fix cid c assume "cmap_consumers (ensure_consumer i cm) cid = Some c"
  then show "inst_id (ce_consumer c) = cid"
    using cluster_wfD(5) [OF assms] by (auto simp: ensure_consumer_consumers split: if_splits)
qed (use cluster_wfD(1-3) [OF assms] in simp_all)

lemma dom_put_grant [simp]:
  "dom (cmap_consumers (put_grant cid g cm)) = dom (cmap_consumers cm)"
  "dom (cmap_grants (put_grant cid g cm)) = insert (gr_id g) (dom (cmap_grants cm))"
  by (auto simp: put_grant_def dom_def split: if_splits)

lemma put_grant_wf [cluster_wf_intros]:
  assumes wf: "cluster_wf cm" and "cid \<in> dom (cmap_consumers cm)" and "gr_consumer g = cid"
  shows "cluster_wf (put_grant cid g cm)"
proof -
  obtain e where e: "cmap_consumers cm cid = Some e" using assms(2) by blast
  have "\<exists>c. cmap_consumers (put_grant cid g cm) (gr_consumer h) = Some c \<and> i \<in> set (ce_grants c)"
    if h: "cmap_grants (put_grant cid g cm) i = Some h" for i h
  proof (cases "i = gr_id g")
    case True
    with h e assms(3) show ?thesis by (simp add: put_grant_def)
  next
    case False
    with h have "cmap_grants cm i = Some h" by (simp add: put_grant_def)
    then obtain c where "cmap_consumers cm (gr_consumer h) = Some c" "i \<in> set (ce_grants c)"
      using cluster_wfD(4) [OF wf] by blast
    then show ?thesis by (auto simp: put_grant_def)
  qed
  moreover have "gr_id h = i" if "cmap_grants (put_grant cid g cm) i = Some h" for i h
    using that cluster_wfD(3) [OF wf] by (auto simp: put_grant_def split: if_splits)
  moreover have "inst_id (ce_consumer c) = i" if "cmap_consumers (put_grant cid g cm) i = Some c" for i c
    using that cluster_wfD(5) [OF wf] by (auto simp: put_grant_def split: if_splits)
  moreover have "finite (dom (cmap_grants (put_grant cid g cm)))"
      "finite (dom (cmap_consumers (put_grant cid g cm)))"
    using cluster_wfD(1,2) [OF wf] by simp_all
  ultimately show ?thesis unfolding cluster_wf_def by blast
qed

lemma assign_grant_eq_Inr:
  "assign_grant cid cm g = Inr cm' \<longleftrightarrow>
     (\<exists>p shard. gi_shard g = Some p \<and> shard_try_from p = Inr shard \<and>
        cm' = put_grant cid \<lparr>gr_id = GrantId (gi_id g), gr_shard = shard,
                gr_state = grant_state_from_i32 (gi_state g), gr_consumer = cid\<rparr> cm)"
  by (cases "gi_shard g") (auto simp: assign_grant_def res_simps)

lemma assign_grants_wf:
  assumes "fold_res (assign_grant cid) cm gs = Inr cm'"
    and "cluster_wf cm" and "cid \<in> dom (cmap_consumers cm)"
  shows "cluster_wf cm' \<and> cid \<in> dom (cmap_consumers cm')"
  using assms(1)
proof (rule fold_res_invariant)
  show "cluster_wf cm \<and> cid \<in> dom (cmap_consumers cm)" using assms(2,3) ..
next
  fix s x t
  assume "assign_grant cid s x = Inr t" and s: "cluster_wf s \<and> cid \<in> dom (cmap_consumers s)"
  then obtain g where "t = put_grant cid g s" and "gr_consumer g = cid"
    by (auto simp: assign_grant_eq_Inr)
  with s show "cluster_wf t \<and> cid \<in> dom (cmap_consumers t)"
    using put_grant_wf dom_put_grant(1) by metis
qed

lemma apply_assignment_wf [cluster_wf_intros]:
  assumes "apply_assignment U cm a = Inr cm'" and "cluster_wf cm"
  shows "cluster_wf cm'"
proof -
  obtain i where "fold_res (assign_grant (inst_id i)) (ensure_consumer i cm) (as_grants a) = Inr cm'"
    using assms(1) by (auto simp: apply_assignment_def res_simps)
  then show ?thesis
    using assign_grants_wf ensure_consumer_wf [OF assms(2)] dom_ensure_consumer by blast
qed

lemma apply_assignments_wf [cluster_wf_intros]:
  "fold_res (apply_assignment U) cm as = Inr cm' \<Longrightarrow> cluster_wf cm \<Longrightarrow> cluster_wf cm'"
  by (rule fold_res_invariant [where I = cluster_wf]) (auto intro: apply_assignment_wf)

lemma update_grant_eq_Inr:
  assumes "update_grant cm g = Inr cm'"
  shows "cm' = cm \<or> (\<exists>e e'. cmap_grants cm (GrantId (gi_id g)) = Some e \<and> gr_id e' = gr_id e
           \<and> gr_consumer e' = gr_consumer e
           \<and> cm' = cm\<lparr>cmap_grants := (cmap_grants cm)(GrantId (gi_id g) \<mapsto> e')\<rparr>)"
proof (cases "cmap_grants cm (GrantId (gi_id g))")
  case None
  with assms show ?thesis by (simp add: update_grant_def)
next
  case (Some e)
  let ?upd = "\<lambda>e'. e'\<lparr>gr_state := grant_state_from_i32 (gi_state g)\<rparr>"
  let ?cm = "\<lambda>e'. cm\<lparr>cmap_grants := (cmap_grants cm)(GrantId (gi_id g) \<mapsto> e')\<rparr>"
  have "cm' = ?cm (?upd e) \<or> (\<exists>sh. cm' = ?cm (?upd (e\<lparr>gr_shard := sh\<rparr>)))"
    using Some assms
    by (cases "gi_shard g") (auto simp: update_grant_def Let_def sbind_eq_Inr)
  then obtain e' where "cm' = ?cm e'" "gr_id e' = gr_id e" "gr_consumer e' = gr_consumer e"
    by auto
  with Some show ?thesis by blast
qed

lemma update_grant_wf [cluster_wf_intros]:
  assumes "update_grant cm g = Inr cm'" and "cluster_wf cm"
  shows "cluster_wf cm'"
  using update_grant_eq_Inr [OF assms(1)]
proof (elim disjE exE conjE)
  fix e e'
  assume e: "cmap_grants cm (GrantId (gi_id g)) = Some e" "gr_id e' = gr_id e"
      "gr_consumer e' = gr_consumer e"
    and cm': "cm' = cm\<lparr>cmap_grants := (cmap_grants cm)(GrantId (gi_id g) \<mapsto> e')\<rparr>"
  show ?thesis
    unfolding cm'
  proof (rule cluster_wfI, goal_cases)
    case (4 gid h)
    then show ?case
      using cluster_wfD(4) [OF assms(2)] e by (cases "gid = GrantId (gi_id g)") auto
  qed (use cluster_wfD(1-3,5) [OF assms(2)] e in \<open>auto split: if_splits\<close>)
qed (use assms(2) in simp)

lemma fold_drop_grant_wf [cluster_wf_intros]:
  "cluster_wf cm \<Longrightarrow> cluster_wf (fold (\<lambda>x. drop_grant (f x)) xs cm)"
  by (induction xs arbitrary: cm) (auto intro: drop_grant_wf)

lemma remove_id_wf [cluster_wf_intros]: "cluster_wf cm \<Longrightarrow> cluster_wf (remove_id U cid cm)"
  by (auto simp: remove_id_def intro: remove_consumer_wf split: sum.split)

lemma fold_remove_id_wf [cluster_wf_intros]:
  "cluster_wf cm \<Longrightarrow> cluster_wf (fold (remove_id U) cids cm)"
  by (induction cids arbitrary: cm) (auto intro: remove_id_wf)

lemma opt_stage_wf:
  assumes "opt_stage f v cm = Inr cm'" and "cluster_wf cm"
    and "\<And>x s t. cluster_wf s \<Longrightarrow> f x s = Inr t \<Longrightarrow> cluster_wf t"
  shows "cluster_wf cm'"
  using assms by (cases v) (auto simp: opt_stage_def)

lemma stages_wf:
  assumes "cluster_wf cm"
  shows "shards_stage ord p1 cm = Inr cm' \<Longrightarrow> cluster_wf cm'"
    and "assign_stage U p2 cm = Inr cm' \<Longrightarrow> cluster_wf cm'"
    and "update_stage p3 cm = Inr cm' \<Longrightarrow> cluster_wf cm'"
    and "unassign_stage p4 cm = Inr cm' \<Longrightarrow> cluster_wf cm'"
    and "remove_stage U p5 cm = Inr cm' \<Longrightarrow> cluster_wf cm'"
proof -
  show "shards_stage ord p1 cm = Inr cm' \<Longrightarrow> cluster_wf cm'"
    using fold_drop_grant_wf [where f = "\<lambda>x. x"] cluster_wf_updates(2) [OF assms]
    by (auto simp: shards_stage_def res_simps Let_def)
  show "assign_stage U p2 cm = Inr cm' \<Longrightarrow> cluster_wf cm'"
    unfolding assign_stage_def using apply_assignments_wf assms by blast
  show "update_stage p3 cm = Inr cm' \<Longrightarrow> cluster_wf cm'"
    unfolding update_stage_def lift_err_eq_Inr
    by (erule fold_res_invariant [where I = cluster_wf]) (auto intro: update_grant_wf assms)
  show "unassign_stage p4 cm = Inr cm' \<Longrightarrow> cluster_wf cm'"
    using fold_drop_grant_wf assms by (auto simp: unassign_stage_def)
  show "remove_stage U p5 cm = Inr cm' \<Longrightarrow> cluster_wf cm'"
    using fold_remove_id_wf assms by (auto simp: remove_stage_def)
qed

lemma apply_change_wf [cluster_wf_intros]:
  assumes "apply_change U ord cm change version timestamp = Inr cm'" and "cluster_wf cm"
  shows "cluster_wf cm'"
proof -
  let ?next = "cm\<lparr>cmap_id := \<lparr>ci_version = version, ci_origin = ci_origin (cmap_id cm),
                 ci_timestamp = timestamp\<rparr>\<rparr>"
  obtain n1 n2 n3 n4 where 1: "opt_stage (shards_stage ord) (ch_shards change) ?next = Inr n1"
    and 2: "opt_stage (assign_stage U) (ch_assign change) n1 = Inr n2"
    and 3: "opt_stage update_stage (ch_update change) n2 = Inr n3"
    and 4: "opt_stage unassign_stage (ch_unassign change) n3 = Inr n4"
    and 5: "opt_stage (remove_stage U) (ch_remove change) n4 = Inr cm'"
    using assms(1) by (auto simp: apply_change_def Let_def sbind_eq_Inr)
  from 1 cluster_wf_updates(1) [OF assms(2)] stages_wf(1) have "cluster_wf n1" by (rule opt_stage_wf)
  with 2 have "cluster_wf n2" using stages_wf(2) by (rule opt_stage_wf)
  with 3 have "cluster_wf n3" using stages_wf(3) by (rule opt_stage_wf)
  with 4 have "cluster_wf n4" using stages_wf(4) by (rule opt_stage_wf)
  with 5 show ?thesis using stages_wf(5) by (rule opt_stage_wf)
qed

lemma apply_snapshot_wf [cluster_wf_intros]:
  "apply_snapshot U snap version timestamp = Inr cm' \<Longrightarrow> cluster_wf cm'"
  by (auto simp: apply_snapshot_def res_simps intro: apply_assignments_wf cluster_wf_new)

lemma cluster_apply_cases:
  assumes "cluster_apply U ord cm msg = Inr cm'"
  obtains (snapshot) snap timestamp where "cm_msg msg = Some (Snapshot snap)"
      "apply_snapshot U snap (cm_version msg) timestamp = Inr cm'"
    | (change) change timestamp where "cm_msg msg = Some (Change change)"
      "apply_change U ord cm change (cm_version msg) timestamp = Inr cm'"
proof -
  obtain timestamp where "(case cm_msg msg of
       Some (Snapshot snap) \<Rightarrow> apply_snapshot U snap (cm_version msg) timestamp
     | Some (Change change) \<Rightarrow> apply_change U ord cm change (cm_version msg) timestamp
     | None \<Rightarrow> Inl (Err (InvalidMessage ''ClusterMessage without a variant''))) = Inr cm'"
    using assms unfolding cluster_apply_def sbind_eq_Inr by blast
  then show thesis
    using that by (cases "cm_msg msg") (auto split: cluster_Msg.splits)
qed

lemma cluster_apply_keeps_wf:
  assumes "cluster_apply U ord cm msg = Inr cm'" and "cluster_wf cm"
  shows "cluster_wf cm'"
  using assms(1)
proof (cases rule: cluster_apply_cases)
  case snapshot
  then show ?thesis by (blast intro: apply_snapshot_wf)
next
  case change
  then show ?thesis using assms(2) by (blast intro: apply_change_wf)
qed

text \<open>
  C10. Whatever the server sends, a snapshot that is accepted has referential integrity:
  every grant is stored under its id and belongs to a known consumer that lists it, and every
  consumer is stored under its own id. This holds for full snapshots and for every combination of
  the five parts of a change, in any hash map iteration order.
\<close>

theorem cluster_apply_wf:
  assumes "cluster_wf cm" and "cluster_apply U ord cm msg = Inr cm'"
  shows "cluster_wf cm'"
  by (rule cluster_apply_keeps_wf [OF assms(2,1)])

end
