(* ===== verification/ClusterLaws.thy ===== *)
theory ClusterLaws
  imports ClusterModel
begin

text \<open>
  What \<open>ClusterModel\<close> guarantees beyond referential integrity: removals are final, the shard
  stage drops exactly the uncovered grants, the result does not depend on hash map order, lookup
  is sound and complete, key ranges split without gap or overlap. One section shows that a grant
  reassigned in the change that removes its old consumer is lost. A concrete cluster at the end
  carries the witnesses.
\<close>

section \<open>Changes\<close>

lemma apply_change_stages:
  assumes "apply_change U ord cm change version timestamp = Inr cm'"
  obtains n1 n2 n3 n4 where
    "opt_stage (shards_stage ord) (ch_shards change)
       (cm\<lparr>cmap_id := \<lparr>ci_version = version, ci_origin = ci_origin (cmap_id cm),
                       ci_timestamp = timestamp\<rparr>\<rparr>) = Inr n1"
    "opt_stage (assign_stage U) (ch_assign change) n1 = Inr n2"
    "opt_stage update_stage (ch_update change) n2 = Inr n3"
    "opt_stage unassign_stage (ch_unassign change) n3 = Inr n4"
    "opt_stage (remove_stage U) (ch_remove change) n4 = Inr cm'"
  using assms that by (auto simp: apply_change_def Let_def sbind_eq_Inr)

lemma fold_drop_grant_grants:
  "cmap_grants (fold (\<lambda>x. drop_grant (f x)) xs cm) gid =
     (if gid \<in> f ` set xs then None else cmap_grants cm gid)"
  by (induction xs arbitrary: cm) auto

lemma fold_drop_grant_shards [simp]:
  "cmap_shards (fold (\<lambda>x. drop_grant (f x)) xs cm) = cmap_shards cm"
  by (induction xs arbitrary: cm) auto

lemma remove_id_shrinks:
  "cmap_grants (remove_id U cid cm) gid = Some g \<Longrightarrow> cmap_grants cm gid = Some g"
  "cmap_consumers (remove_id U cid cm) i = Some c \<Longrightarrow> cmap_consumers cm i = Some c"
  by (auto simp: remove_id_def remove_consumer_grants split: sum.splits option.splits if_splits)

lemma fold_remove_id_shrinks:
  "cmap_grants (fold (remove_id U) cids cm) gid = Some g \<Longrightarrow> cmap_grants cm gid = Some g"
  "cmap_consumers (fold (remove_id U) cids cm) i = Some c \<Longrightarrow> cmap_consumers cm i = Some c"
  by (induction cids arbitrary: cm) (auto dest: remove_id_shrinks)

lemma fold_remove_id_removes:
  assumes "cid \<in> set cids" and "instance_id_try_from U cid = Inr i"
  shows "cmap_consumers (fold (remove_id U) cids cm) i = None"
  using assms(1)
proof (induction cids arbitrary: cm)
  case (Cons x cids)
  show ?case
  proof (cases "x = cid")
    case True
    then have "cmap_consumers (remove_id U x cm) i = None"
      using assms(2) by (simp add: remove_id_def)
    then show ?thesis
      using fold_remove_id_shrinks(2) [of U cids "remove_id U x cm" i] by fastforce
  next
    case False
    with Cons show ?thesis by simp
  qed
qed simp

text \<open>
  Removals in a change are final, whatever its other parts say: after an accepted change no
  unassigned grant is left, no removed consumer is left, and no grant belongs to a removed
  consumer, even when the same change assigned or updated them. Consumer ids that do not
  parse are ignored.
\<close>

theorem change_removals_are_final:
  assumes "cluster_wf cm" and "cluster_apply U ord cm msg = Inr cm'"
    and "cm_msg msg = Some (Change ch)"
  shows "(\<forall>p gid. ch_unassign ch = Some p \<longrightarrow> gid \<in> set (cun_grants p) \<longrightarrow>
            cmap_grants cm' (GrantId gid) = None)
    \<and> (\<forall>p cid i. ch_remove ch = Some p \<longrightarrow> cid \<in> set (crm_consumers p) \<longrightarrow>
            instance_id_try_from U cid = Inr i \<longrightarrow>
            cmap_consumers cm' i = None
            \<and> (\<forall>gid g. cmap_grants cm' gid = Some g \<longrightarrow> gr_consumer g \<noteq> i))"
  using assms(2)
proof (cases rule: cluster_apply_cases)
  case snapshot
  then show ?thesis using assms(3) by simp
next
  case (change ch' timestamp)
  with assms(3) have app: "apply_change U ord cm ch (cm_version msg) timestamp = Inr cm'" by simp
  then obtain n3 n4 where 4: "opt_stage unassign_stage (ch_unassign ch) n3 = Inr n4"
    and 5: "opt_stage (remove_stage U) (ch_remove ch) n4 = Inr cm'"
    by (rule apply_change_stages)
  have wf: "cluster_wf cm'" by (rule apply_change_wf [OF app assms(1)])
  have unassigned: "cmap_grants n4 (GrantId gid) = None"
    if "ch_unassign ch = Some p" "gid \<in> set (cun_grants p)" for p gid
    using 4 that by (auto simp: opt_stage_def unassign_stage_def fold_drop_grant_grants)
  have shrinks: "cmap_grants n4 gid = Some g" if "cmap_grants cm' gid = Some g" for gid g
    using 5 that by (auto simp: opt_stage_def remove_stage_def dest: fold_remove_id_shrinks split: option.splits)
  have removed: "cmap_consumers cm' i = None"
    if "ch_remove ch = Some p" "cid \<in> set (crm_consumers p)" "instance_id_try_from U cid = Inr i" for p cid i
    using 5 that fold_remove_id_removes by (fastforce simp: opt_stage_def remove_stage_def)
  have "cmap_grants cm' (GrantId gid) = None"
    if "ch_unassign ch = Some p" "gid \<in> set (cun_grants p)" for p gid
    using unassigned [OF that] shrinks [of "GrantId gid"] by (cases "cmap_grants cm' (GrantId gid)") auto
  moreover have "gr_consumer g \<noteq> i" if "cmap_consumers cm' i = None" "cmap_grants cm' gid = Some g" for i gid g
    using cluster_wfD(4) [OF wf that(2)] that(1) by auto
  ultimately show ?thesis using removed by blast
qed

text \<open>
  A new list of shards drops exactly the grants whose shard is no longer listed: every other
  grant survives unchanged, whatever the iteration order of the hash map.
\<close>

theorem shards_stage_drops_exactly:
  assumes "enumerates ord (cmap_grants cm)" and "shards_stage ord p cm = Inr cm'"
  shows "decode_shards (csh_shards p) = Inr (cmap_shards cm')
    \<and> cmap_grants cm' gid =
        (case cmap_grants cm gid of
           None \<Rightarrow> None
         | Some g \<Rightarrow> if gr_shard g \<in> set (cmap_shards cm') then Some g else None)"
proof -
  obtain ss where ss: "decode_shards (csh_shards p) = Inr ss"
    and cm': "cm' = fold drop_grant
        (filter (\<lambda>gid. case cmap_grants cm gid of None \<Rightarrow> False | Some g \<Rightarrow> gr_shard g \<notin> set ss) ord)
        (cm\<lparr>cmap_shards := ss\<rparr>)"
    using assms(2) by (auto simp: shards_stage_def Let_def res_simps)
  have "set ord = dom (cmap_grants cm)" using assms(1) by (simp add: enumerates_def)
  then have "gid \<in> set ord \<longleftrightarrow> cmap_grants cm gid \<noteq> None" by (simp add: domIff)
  with ss show ?thesis
    using fold_drop_grant_shards [where f = "\<lambda>x. x"] fold_drop_grant_grants [where f = "\<lambda>x. x"]
    unfolding cm' by (auto split: option.split)
qed

section \<open>Independence of the iteration order\<close>

lemma drop_grant_commute: "drop_grant a (drop_grant b cm) = drop_grant b (drop_grant a cm)"
proof -
  have "cmap_consumers (drop_grant a (drop_grant b cm)) = cmap_consumers (drop_grant b (drop_grant a cm))"
    by (rule ext) (auto simp: drop_grant_consumers option.map_comp comp_def conj_commute
        split: option.split intro!: arg_cong2 [where f = map_option])
  moreover have "cmap_grants (drop_grant a (drop_grant b cm)) = cmap_grants (drop_grant b (drop_grant a cm))"
    by auto
  ultimately show ?thesis by (intro ClusterMap.equality) simp_all
qed

lemma fold_drop_grant_order:
  "mset xs = mset ys \<Longrightarrow> fold drop_grant xs cm = fold drop_grant ys cm"
  using fold_multiset_equiv [of xs drop_grant ys] drop_grant_commute by (simp add: fun_eq_iff)

lemma enumerates_mset:
  "enumerates xs m \<Longrightarrow> enumerates ys m \<Longrightarrow> mset xs = mset ys"
  by (simp add: enumerates_def set_eq_iff_mset_eq_distinct [symmetric])

lemma shards_stage_order:
  assumes "enumerates ord (cmap_grants cm)" and "enumerates ord' (cmap_grants cm)"
  shows "shards_stage ord p cm = shards_stage ord' p cm"
proof -
  have "mset (filter P ord) = mset (filter P ord')" for P
    using enumerates_mset [OF assms] by simp
  then have "fold drop_grant (filter P ord) cm' = fold drop_grant (filter P ord') cm'" for P cm'
    by (rule fold_drop_grant_order)
  then show ?thesis by (simp only: shards_stage_def Let_def)
qed

text \<open>
  Applying a message is deterministic: the unspecified iteration order of the grant table does not
  influence the resulting snapshot or the reported error.
\<close>

theorem cluster_apply_order_independent:
  assumes "enumerates ord (cmap_grants cm)" and "enumerates ord' (cmap_grants cm)"
  shows "cluster_apply U ord cm msg = cluster_apply U ord' cm msg"
proof -
  have "apply_change U ord cm ch v t = apply_change U ord' cm ch v t" for ch v t
    unfolding apply_change_def Let_def opt_stage_def
    by (cases "ch_shards ch") (simp_all add: shards_stage_order [of ord _ ord'] assms)
  then show ?thesis unfolding cluster_apply_def by presburger
qed

section \<open>Lookup\<close>

lemma set_grant_values:
  "enumerates ord (cmap_grants cm) \<Longrightarrow> set (grant_values ord cm) = ran (cmap_grants cm)"
  by (force simp: grant_values_def enumerates_def ran_def List.map_filter_def)

lemma lookup_states_Some:
  assumes "lookup_states vs key ss = Some g"
  shows "g \<in> set vs \<and> shard_covers (gr_shard g) key
    \<and> (\<exists>pre post. ss = pre @ gr_state g # post
        \<and> (\<forall>h \<in> set vs. shard_covers (gr_shard h) key \<longrightarrow> gr_state h \<notin> set pre))"
  using assms
proof (induction ss)
  case (Cons s ss)
  show ?case
  proof (cases "List.find (\<lambda>g. gr_state g = s \<and> shard_covers (gr_shard g) key) vs")
    case None
    with Cons obtain pre post where g: "g \<in> set vs" "shard_covers (gr_shard g) key"
      and ss: "ss = pre @ gr_state g # post"
      and pre: "\<forall>h \<in> set vs. shard_covers (gr_shard h) key \<longrightarrow> gr_state h \<notin> set pre" by auto
    from ss have "s # ss = (s # pre) @ gr_state g # post" by simp
    with g pre None show ?thesis by (fastforce simp: find_None_iff)
  next
    case (Some h)
    with Cons.prems have "h = g" by simp
    with Some have g: "g \<in> set vs" "shard_covers (gr_shard g) key" and "gr_state g = s"
      by (auto simp: find_Some_iff)
    then have "s # ss = [] @ gr_state g # ss" by simp
    with g show ?thesis by (metis empty_iff empty_set)
  qed
qed simp

lemma lookup_states_None:
  "lookup_states vs key ss = None \<longleftrightarrow>
     (\<forall>g \<in> set vs. shard_covers (gr_shard g) key \<longrightarrow> gr_state g \<notin> set ss)"
  by (induction ss) (auto simp: find_None_iff find_Some_iff split: option.splits)

definition wanted_states :: "GrantState list \<Rightarrow> GrantState list" where
  "wanted_states states = (if states = [] then default_states else states)"

lemma cluster_lookup_eq:
  "cluster_lookup ord cm key states = lookup_states (grant_values ord cm) key (wanted_states states)"
  by (simp add: cluster_lookup_def wanted_states_def Let_def)

text \<open>
  C23. Lookup is sound, complete and respects the caller's preference: a result is a grant of the
  snapshot whose shard covers the key, in the first of the requested states in which any
  covering grant is; there is no result exactly when no covering grant is in a requested state.
  An empty request means the four default states, so grants that are merely \<open>Allocated\<close>
  are never found that way.
\<close>

theorem cluster_lookup_correct:
  assumes "enumerates ord (cmap_grants cm)"
  shows "case cluster_lookup ord cm key states of
      Some g \<Rightarrow> g \<in> ran (cmap_grants cm) \<and> shard_covers (gr_shard g) key
        \<and> (\<exists>pre post. wanted_states states = pre @ gr_state g # post
            \<and> (\<nexists>h. h \<in> ran (cmap_grants cm) \<and> shard_covers (gr_shard h) key \<and> gr_state h \<in> set pre))
    | None \<Rightarrow> \<nexists>h. h \<in> ran (cmap_grants cm) \<and> shard_covers (gr_shard h) key
                 \<and> gr_state h \<in> set (wanted_states states)"
proof (cases "cluster_lookup ord cm key states")
  case None
  then show ?thesis
    using lookup_states_None [of "grant_values ord cm" key "wanted_states states"]
      set_grant_values [OF assms] by (auto simp: cluster_lookup_eq)
next
  case (Some g)
  then show ?thesis
    using lookup_states_Some [of "grant_values ord cm" key "wanted_states states" g]
      set_grant_values [OF assms]
    by (auto simp: cluster_lookup_eq)
qed

section \<open>Key ranges\<close>

lemma shard_covers_iff:
  "shard_covers s key \<longleftrightarrow>
     sh_domain s = qdk_domain key
     \<and> (region_is_empty (sh_region s) \<or> sh_region s = dk_region (qdk_key key))
     \<and> sh_from s \<le> dk_key (qdk_key key)
     \<and> (sh_to s = [] \<or> dk_key (qdk_key key) < sh_to s)"
  by (auto simp: shard_covers_def not_le not_less)

text \<open>
  Ranges are half-open: cutting a shard at a point inside its range gives two shards that cover
  together exactly the keys of the original, and no key is covered by both. So adjacent shards
  never claim the same key and leave no gap.
\<close>

theorem split_shard_partitions_keys:
  assumes "y \<noteq> []" and "sh_from s \<le> y" and "sh_to s = [] \<or> y \<le> sh_to s"
  shows "(shard_covers s key \<longleftrightarrow>
            shard_covers (s\<lparr>sh_to := y\<rparr>) key \<or> shard_covers (s\<lparr>sh_from := y\<rparr>) key)
    \<and> \<not> (shard_covers (s\<lparr>sh_to := y\<rparr>) key \<and> shard_covers (s\<lparr>sh_from := y\<rparr>) key)"
  using assms unfolding shard_covers_iff by auto

section \<open>A grant that changes hands while its old consumer leaves\<close>

definition listed_by :: "ClusterMap \<Rightarrow> ConsumerId \<Rightarrow> GrantId \<Rightarrow> bool" where
  "listed_by cm a gid \<longleftrightarrow> (\<exists>c. cmap_consumers cm a = Some c \<and> gid \<in> set (ce_grants c))"

lemma listed_by_ensure: "listed_by cm a gid \<Longrightarrow> listed_by (ensure_consumer i cm) a gid"
  by (auto simp: listed_by_def ensure_consumer_consumers)

lemma listed_by_put: "listed_by cm a gid \<Longrightarrow> listed_by (put_grant cid g cm) a gid"
  by (auto simp: listed_by_def put_grant_def)

lemma listed_by_assignment:
  assumes "apply_assignment U cm x = Inr cm'" and "listed_by cm a gid"
  shows "listed_by cm' a gid"
proof -
  obtain i where "fold_res (assign_grant (inst_id i)) (ensure_consumer i cm) (as_grants x) = Inr cm'"
    using assms(1) by (auto simp: apply_assignment_def res_simps)
  then show ?thesis
    by (rule fold_res_invariant [where I = "\<lambda>cm. listed_by cm a gid"])
      (auto simp: assign_grant_eq_Inr intro: listed_by_put listed_by_ensure assms(2))
qed

lemma update_grants_consumers:
  assumes "fold_res update_grant cm gs = Inr cm'"
  shows "cmap_consumers cm' = cmap_consumers cm"
  using assms
  by (rule fold_res_invariant [where I = "\<lambda>t. cmap_consumers t = cmap_consumers cm"])
    (auto dest: update_grant_eq_Inr)

lemma listed_or_gone_drop:
  "listed_by cm a gid \<or> cmap_grants cm gid = None \<Longrightarrow>
   listed_by (drop_grant x cm) a gid \<or> cmap_grants (drop_grant x cm) gid = None"
  by (cases "x = gid") (auto simp: listed_by_def drop_grant_consumers split: option.split)

lemma listed_or_gone_drops:
  "listed_by cm a gid \<or> cmap_grants cm gid = None \<Longrightarrow>
   fold (\<lambda>x. drop_grant (GrantId x)) xs cm = cm' \<Longrightarrow>
   listed_by cm' a gid \<or> cmap_grants cm' gid = None"
proof (induction xs arbitrary: cm)
  case (Cons x xs)
  show ?case
    by (rule Cons.IH [OF listed_or_gone_drop [OF Cons.prems(1)]]) (use Cons.prems(2) in simp)
qed simp

lemma listed_or_gone_remove:
  "listed_by cm a gid \<or> cmap_grants cm gid = None \<Longrightarrow>
   listed_by (remove_id U cid cm) a gid \<or> cmap_grants (remove_id U cid cm) gid = None"
  by (auto simp: listed_by_def remove_id_def remove_consumer_grants split: sum.split option.split)

text \<open>
  C35. A grant held by a consumer that a change removes is gone after the change, even if the very same
  change assigns it to another consumer that stays: the assignment does not take the grant off
  the old consumer's list, and removing that consumer then removes every grant on the list.
  Only a change that also replaces the shard list can drop the grant earlier and keep the new
  assignment.
\<close>

theorem reassigned_grant_lost_with_old_consumer:
  assumes "cluster_wf cm" and "cmap_grants cm gid = Some g"
    and "cluster_apply U ord cm msg = Inr cm'" and "cm_msg msg = Some (Change ch)"
    and "ch_shards ch = None" and "ch_remove ch = Some p"
    and "cid \<in> set (crm_consumers p)" and "instance_id_try_from U cid = Inr (gr_consumer g)"
  shows "cmap_grants cm' gid = None"
  using assms(3)
proof (cases rule: cluster_apply_cases)
  case snapshot
  then show ?thesis using assms(4) by simp
next
  case (change ch' timestamp)
  with assms(4) have app: "apply_change U ord cm ch (cm_version msg) timestamp = Inr cm'" by simp
  let ?a = "gr_consumer g"
  obtain n1 n2 n3 n4 where
    1: "opt_stage (shards_stage ord) (ch_shards ch)
       (cm\<lparr>cmap_id := \<lparr>ci_version = cm_version msg, ci_origin = ci_origin (cmap_id cm),
                       ci_timestamp = timestamp\<rparr>\<rparr>) = Inr n1" and
    2: "opt_stage (assign_stage U) (ch_assign ch) n1 = Inr n2" and
    3: "opt_stage update_stage (ch_update ch) n2 = Inr n3" and
    4: "opt_stage unassign_stage (ch_unassign ch) n3 = Inr n4" and
    5: "opt_stage (remove_stage U) (ch_remove ch) n4 = Inr cm'"
    using app by (rule apply_change_stages)
  have "listed_by n1 ?a gid"
    using 1 assms(5) cluster_wfD(4) [OF assms(1,2)] by (auto simp: opt_stage_def listed_by_def)
  then have "listed_by n2 ?a gid"
    using 2 fold_res_invariant [where I = "\<lambda>cm. listed_by cm ?a gid" and f = "apply_assignment U"]
    by (cases "ch_assign ch") (auto simp: opt_stage_def assign_stage_def dest: listed_by_assignment)
  then have "listed_by n3 ?a gid"
    using 3 update_grants_consumers
    by (cases "ch_update ch") (auto simp: opt_stage_def update_stage_def lift_err_eq_Inr listed_by_def)
  then have "listed_by n3 ?a gid \<or> cmap_grants n3 gid = None" ..
  with 4 have n4: "listed_by n4 ?a gid \<or> cmap_grants n4 gid = None"
    by (cases "ch_unassign ch") (simp_all add: opt_stage_def unassign_stage_def listed_or_gone_drops)
  have removes: "listed_by (fold (remove_id U) xs m) ?a gid \<or> cmap_grants (fold (remove_id U) xs m) gid = None"
    if "listed_by m ?a gid \<or> cmap_grants m gid = None" for xs m
    using that by (induction xs arbitrary: m) (simp_all add: listed_or_gone_remove)
  from 5 removes [OF n4, of "crm_consumers p"] assms(6) have "listed_by cm' ?a gid \<or> cmap_grants cm' gid = None"
    by (simp add: opt_stage_def remove_stage_def)
  moreover have "cmap_consumers cm' ?a = None"
    using 5 assms(6) fold_remove_id_removes [OF assms(7,8)] by (auto simp: opt_stage_def remove_stage_def)
  ultimately show ?thesis by (simp add: listed_by_def)
qed

section \<open>A concrete cluster\<close>

definition demo_instance :: "uuid \<Rightarrow> string \<Rightarrow> Instance" where
  "demo_instance n ep =
     \<lparr>inst_id = InstanceId n, inst_location = location_new ''eu'' ''node'',
      inst_name = InstanceName ''worker'', inst_created = 0, inst_endpoint = Endpoint ep\<rparr>"

definition demo_domain :: QualifiedDomainName where
  "demo_domain = \<lparr>qdn_service = qsn_new ''acme'' ''widgets'', qdn_name = DomainName ''d''\<rparr>"

definition demo_shard :: "string \<Rightarrow> string \<Rightarrow> Shard" where
  "demo_shard lo hi =
     \<lparr>sh_domain = demo_domain, sh_kind = DomainType.Global, sh_region = Region [],
      sh_from = lo, sh_to = hi\<rparr>"

definition demo_key :: "string \<Rightarrow> QualifiedDomainKey" where
  "demo_key k = \<lparr>qdk_domain = demo_domain, qdk_key = \<lparr>dk_region = Region ''eu'', dk_key = k\<rparr>\<rparr>"

definition demo_assignment :: "Instance \<Rightarrow> (string \<times> Shard \<times> GrantState) list \<Rightarrow> pb_Assignment" where
  "demo_assignment i gs =
     \<lparr>as_consumer = Some (instance_into unary_uuid_lib i),
      as_grants = map (\<lambda>(gid, s, st). \<lparr>gi_id = gid, gi_shard = Some (shard_into s),
                        gi_state = pb_grant_state_as_i32 (grant_state_into st)\<rparr>) gs\<rparr>"

text \<open>Consumer 1 owns \<open>g1\<close> on \<open>[a, m)\<close>, consumer 2 is known and owns nothing.\<close>

definition demo_snapshot :: pb_ClusterMessage where
  "demo_snapshot =
     \<lparr>cm_msg = Some (Snapshot
        \<lparr>sn_assignments = [demo_assignment (demo_instance 1 ''h1:1'')
                             [(''g1'', demo_shard ''a'' ''m'', GrantState.Active)],
                           demo_assignment (demo_instance 2 ''h2:1'') []],
         sn_origin = None, sn_shards = [shard_into (demo_shard ''a'' ''m'')]\<rparr>),
      cm_id = ''c'', cm_version = 1, cm_timestamp = None\<rparr>"

definition demo_grant :: GrantEntry where
  "demo_grant = \<lparr>gr_id = GrantId ''g1'', gr_shard = demo_shard ''a'' ''m'',
     gr_state = GrantState.Active, gr_consumer = InstanceId 1\<rparr>"

definition demo_cluster :: ClusterMap where
  "demo_cluster =
     \<lparr>cmap_id = \<lparr>ci_version = 1, ci_origin = None, ci_timestamp = 0\<rparr>,
      cmap_consumers =
        [InstanceId 1 \<mapsto> \<lparr>ce_consumer = demo_instance 1 ''h1:1'', ce_grants = [GrantId ''g1'']\<rparr>,
         InstanceId 2 \<mapsto> \<lparr>ce_consumer = demo_instance 2 ''h2:1'', ce_grants = []\<rparr>],
      cmap_grants = [GrantId ''g1'' \<mapsto> demo_grant],
      cmap_shards = [demo_shard ''a'' ''m'']\<rparr>"

lemma demo_instance_decode:
  "instance_try_from unary_uuid_lib (instance_into unary_uuid_lib (demo_instance n ep)) =
     Inr (demo_instance n ep)"
  by (rule instance_decode_encode [OF unary_uuid_laws]) (simp_all add: demo_instance_def system_time_valid_def)

lemma demo_instance_id [simp]: "inst_id (demo_instance n ep) = InstanceId n"
  by (simp add: demo_instance_def)

lemma demo_assignment_apply:
  "apply_assignment unary_uuid_lib cm (demo_assignment (demo_instance n ep) gs) =
     Inr (fold (\<lambda>(gid, s, st). put_grant (InstanceId n)
            \<lparr>gr_id = GrantId gid, gr_shard = s, gr_state = st, gr_consumer = InstanceId n\<rparr>)
          gs (ensure_consumer (demo_instance n ep) cm))"
proof -
  have "fold_res (assign_grant (InstanceId n)) m
      (map (\<lambda>(gid, s, st). \<lparr>gi_id = gid, gi_shard = Some (shard_into s),
            gi_state = pb_grant_state_as_i32 (grant_state_into st)\<rparr>) gs) =
    Inr (fold (\<lambda>(gid, s, st). put_grant (InstanceId n)
            \<lparr>gr_id = GrantId gid, gr_shard = s, gr_state = st, gr_consumer = InstanceId n\<rparr>) gs m)" for m
    by (induction gs arbitrary: m) (auto simp: assign_grant_def)
  then show ?thesis
    by (simp add: apply_assignment_def demo_assignment_def demo_instance_decode)
qed

lemma demo_snapshot_apply:
  "cluster_apply unary_uuid_lib ord cm demo_snapshot = Inr demo_cluster"
  by (simp add: cluster_apply_def demo_snapshot_def apply_snapshot_def decode_shards_def
      demo_assignment_apply ensure_consumer_def put_grant_def demo_cluster_def demo_grant_def fun_eq_iff)

lemma demo_cluster_wf: "cluster_wf demo_cluster"
  using demo_snapshot_apply [of "[]" cluster_empty]
  by (cases rule: cluster_apply_cases) (auto intro: apply_snapshot_wf apply_change_wf cluster_wf_empty)


text \<open>Consumer 1 leaves and the same change gives its grant to consumer 2.\<close>

definition demo_move :: pb_Change where
  "demo_move =
     \<lparr>ch_assign = Some \<lparr>ca_assignments = [demo_assignment (demo_instance 2 ''h2:1'')
                     [(''g1'', demo_shard ''a'' ''m'', GrantState.Allocated)]]\<rparr>,
      ch_update = None, ch_unassign = None,
      ch_remove = Some \<lparr>crm_consumers = [instance_id_to_string unary_uuid_lib (InstanceId 1)]\<rparr>,
      ch_shards = None\<rparr>"

definition demo_message :: "pb_Change \<Rightarrow> pb_ClusterMessage" where
  "demo_message ch = \<lparr>cm_msg = Some (Change ch), cm_id = ''c'', cm_version = 2, cm_timestamp = None\<rparr>"

definition demo_moved :: ClusterMap where
  "demo_moved =
     \<lparr>cmap_id = \<lparr>ci_version = 2, ci_origin = None, ci_timestamp = 0\<rparr>,
      cmap_consumers =
        [InstanceId 2 \<mapsto> \<lparr>ce_consumer = demo_instance 2 ''h2:1'', ce_grants = [GrantId ''g1'']\<rparr>],
      cmap_grants = Map.empty,
      cmap_shards = [demo_shard ''a'' ''m'']\<rparr>"

lemma demo_uuid [simp]: "instance_id_try_from unary_uuid_lib (instance_id_to_string unary_uuid_lib i) = Inr i"
  by (rule instance_id_roundtrip [OF unary_uuid_laws])

lemma demo_move_apply:
  "cluster_apply unary_uuid_lib ord demo_cluster (demo_message demo_move) = Inr demo_moved"
  by (simp add: cluster_apply_def demo_message_def demo_move_def apply_change_def Let_def opt_stage_def
      assign_stage_def demo_assignment_apply remove_stage_def remove_id_def
      remove_consumer_def ensure_consumer_def put_grant_def demo_cluster_def demo_moved_def fun_eq_iff)

lemma demo_enumerates: "enumerates [GrantId ''g1''] (cmap_grants demo_cluster)"
  by (simp add: enumerates_def demo_cluster_def)

lemma demo_message_sel [simp]: "cm_msg (demo_message ch) = Some (Change ch)"
  by (simp add: demo_message_def)

theorem cluster_apply_wf_witness: "cluster_wf demo_moved"
  by (rule cluster_apply_wf [OF demo_cluster_wf demo_move_apply [of "[]"]])

theorem change_removals_are_final_witness:
  "cmap_consumers demo_moved (InstanceId 1) = None"
  using change_removals_are_final [OF demo_cluster_wf demo_move_apply [of "[]"] demo_message_sel]
  by (auto simp: demo_move_def)

theorem shards_stage_drops_exactly_witness:
  "\<exists>cm'. shards_stage [GrantId ''g1''] \<lparr>csh_shards = [shard_into (demo_shard ''a'' ''f'')]\<rparr> demo_cluster = Inr cm'
     \<and> cmap_grants cm' (GrantId ''g1'') = None"
proof -
  let ?p = "\<lparr>csh_shards = [shard_into (demo_shard ''a'' ''f'')]\<rparr>"
  obtain cm' where cm': "shards_stage [GrantId ''g1''] ?p demo_cluster = Inr cm'"
    by (simp add: shards_stage_def decode_shards_def Let_def)
  note exact = shards_stage_drops_exactly [OF demo_enumerates cm', of "GrantId ''g1''"]
  then have "cmap_shards cm' = [demo_shard ''a'' ''f'']" by (simp add: decode_shards_def)
  with exact have "cmap_grants cm' (GrantId ''g1'') = None"
    by (simp add: demo_cluster_def demo_grant_def demo_shard_def)
  with cm' show ?thesis by blast
qed

theorem cluster_apply_order_independent_witness:
  "cluster_apply unary_uuid_lib [GrantId ''g1''] demo_cluster demo_snapshot =
   cluster_apply unary_uuid_lib [GrantId ''g1''] demo_cluster demo_snapshot"
  by (rule cluster_apply_order_independent [OF demo_enumerates demo_enumerates])

theorem cluster_lookup_correct_witness:
  "cluster_lookup [GrantId ''g1''] demo_cluster (demo_key ''b'') [] = Some demo_grant
   \<and> shard_covers (gr_shard demo_grant) (demo_key ''b'')"
proof -
  have "cluster_lookup [GrantId ''g1''] demo_cluster (demo_key ''b'') [] = Some demo_grant" by code_simp
  with cluster_lookup_correct [OF demo_enumerates, of "demo_key ''b''" "[]"] show ?thesis by simp
qed

theorem split_shard_partitions_keys_witness:
  "shard_covers (demo_shard ''a'' ''m'' \<lparr>sh_from := ''f''\<rparr>) (demo_key ''g'')"
  using split_shard_partitions_keys [of "''f''" "demo_shard ''a'' ''m''" "demo_key ''g''"]
  by (simp add: shard_covers_iff demo_shard_def demo_key_def region_is_empty_def less_eq_char_def less_char_def)

theorem reassigned_grant_lost_with_old_consumer_witness:
  "cmap_grants demo_moved (GrantId ''g1'') = None"
proof -
  have g: "cmap_grants demo_cluster (GrantId ''g1'') = Some demo_grant"
    by (simp add: demo_cluster_def)
  show ?thesis
    by (rule reassigned_grant_lost_with_old_consumer
        [OF demo_cluster_wf g demo_move_apply [of "[]"] demo_message_sel,
         where p = "\<lparr>crm_consumers = [instance_id_to_string unary_uuid_lib (InstanceId 1)]\<rparr>"
           and cid = "instance_id_to_string unary_uuid_lib (InstanceId 1)"])
      (simp_all add: demo_move_def demo_grant_def)
qed

end
