(* ===== verification/PoolModel.thy ===== *)
theory PoolModel
  imports ClusterModel
begin

text \<open>
  Models \<open>splitter-client/src/pool.rs\<close>: the pool of peer channels and its synchronisation with
  a cluster snapshot.

  A tonic channel is an element of the type \<open>'ch\<close>; the dial function is a field of the pool, as in
  the source, and returns a channel or an error. The locks are held for a whole operation, and
  only the task that receives snapshots writes, so \<open>apply_cluster\<close> is one transition of the pool.
  It iterates over the consumers in an order \<open>ord\<close> that enumerates them, and collects the ids it
  has seen, the peers to add and the peers to rebuild. Failed dials are only logged.
\<close>

section \<open>Pool\<close>

record 'ch PoolEntry =
  pe_endpoint :: Endpoint
  pe_channel :: 'ch

record 'ch ConnectionPool =
  pool_self_id :: InstanceId
  pool_entries :: "InstanceId \<rightharpoonup> 'ch PoolEntry"
  pool_dial :: "Endpoint \<Rightarrow> ClientError + 'ch"

definition pool_with_dial :: "InstanceId \<Rightarrow> (Endpoint \<Rightarrow> ClientError + 'ch) \<Rightarrow> 'ch ConnectionPool" where
  "pool_with_dial self_id dial =
     \<lparr>pool_self_id = self_id, pool_entries = Map.empty, pool_dial = dial\<rparr>"

definition normalize_endpoint :: "string \<Rightarrow> string" where
  "normalize_endpoint s =
     (if take 7 s = ''http://'' \<or> take 8 s = ''https://'' then s else ''http://'' @ s)"

text \<open>
  \<open>Endpoint::from_shared(..).map(connect_lazy)\<close> of tonic is the argument \<open>T\<close>; its error is
  represented by its display text.
\<close>

definition default_dial :: "(string \<Rightarrow> string + 'ch) \<Rightarrow> Endpoint \<Rightarrow> ClientError + 'ch" where
  "default_dial T endpoint = map_sum TransportSetup id (T (normalize_endpoint (endpoint_str endpoint)))"

definition pool_new :: "(string \<Rightarrow> string + 'ch) \<Rightarrow> InstanceId \<Rightarrow> 'ch ConnectionPool" where
  "pool_new T self_id = pool_with_dial self_id (default_dial T)"

definition pool_resolve :: "'ch ConnectionPool \<Rightarrow> InstanceId \<Rightarrow> ClientError + 'ch" where
  "pool_resolve pool i =
     (if i = pool_self_id pool then Inl NoResolution
      else ok_or (map_option pe_channel (pool_entries pool i)) NoResolution)"

section \<open>Synchronisation with a snapshot\<close>

record pool_scan =
  scan_seen :: "InstanceId set"
  scan_add :: "(InstanceId \<times> Endpoint) list"
  scan_rebuild :: "(InstanceId \<times> Endpoint) list"

definition scan_consumer :: "'ch ConnectionPool \<Rightarrow> ConsumerEntry \<Rightarrow> pool_scan \<Rightarrow> pool_scan" where
  "scan_consumer pool consumer s =
     (let i = inst_id (ce_consumer consumer)
      in if i = pool_self_id pool then s
         else let endpoint = inst_endpoint (ce_consumer consumer)
              in if endpoint_is_empty endpoint then s
                 else let s = s\<lparr>scan_seen := insert i (scan_seen s)\<rparr>
                      in case pool_entries pool i of
                           Some existing \<Rightarrow>
                             if pe_endpoint existing = endpoint then s
                             else s\<lparr>scan_rebuild := scan_rebuild s @ [(i, endpoint)]\<rparr>
                         | None \<Rightarrow> s\<lparr>scan_add := scan_add s @ [(i, endpoint)]\<rparr>)"

definition dial_entry ::
  "(Endpoint \<Rightarrow> ClientError + 'ch) \<Rightarrow> InstanceId \<times> Endpoint \<Rightarrow>
   (InstanceId \<rightharpoonup> 'ch PoolEntry) \<Rightarrow> (InstanceId \<rightharpoonup> 'ch PoolEntry)" where
  "dial_entry dial job entries =
     (case dial (snd job) of
        Inr channel \<Rightarrow> entries(fst job \<mapsto> \<lparr>pe_endpoint = snd job, pe_channel = channel\<rparr>)
      | Inl e \<Rightarrow> entries)"

definition retain_seen :: "InstanceId set \<Rightarrow> (InstanceId \<rightharpoonup> 'ch PoolEntry) \<Rightarrow> (InstanceId \<rightharpoonup> 'ch PoolEntry)" where
  "retain_seen seen entries = (\<lambda>i. if i \<in> seen then entries i else None)"

text \<open>\<open>consumers.values()\<close> in the iteration order \<open>ord\<close>.\<close>

definition consumer_values :: "ConsumerId list \<Rightarrow> ClusterMap \<Rightarrow> ConsumerEntry list" where
  "consumer_values ord cm = List.map_filter (cmap_consumers cm) ord"

definition apply_cluster ::
  "ConsumerId list \<Rightarrow> ClusterMap \<Rightarrow> 'ch ConnectionPool \<Rightarrow> 'ch ConnectionPool" where
  "apply_cluster ord cm pool =
     (let s = fold (scan_consumer pool) (consumer_values ord cm)
                \<lparr>scan_seen = {}, scan_add = [], scan_rebuild = []\<rparr>
      in if scan_add s = [] \<and> scan_rebuild s = []
         then pool\<lparr>pool_entries := retain_seen (scan_seen s) (pool_entries pool)\<rparr>
         else let entries = fold (dial_entry (pool_dial pool)) (scan_add s @ scan_rebuild s) (pool_entries pool)
              in pool\<lparr>pool_entries := retain_seen (scan_seen s) entries\<rparr>)"

definition pool_len :: "'ch ConnectionPool \<Rightarrow> nat" where
  "pool_len pool = card (dom (pool_entries pool))"

definition pool_is_empty :: "'ch ConnectionPool \<Rightarrow> bool" where
  "pool_is_empty pool \<longleftrightarrow> pool_len pool = 0"

section \<open>The snapshot determines the pool\<close>

text \<open>The endpoint under which a snapshot makes an instance dialable from \<open>self\<close>.\<close>

definition peer_endpoint :: "InstanceId \<Rightarrow> ClusterMap \<Rightarrow> InstanceId \<Rightarrow> Endpoint option" where
  "peer_endpoint self cm i =
     (case cmap_consumers cm i of
        None \<Rightarrow> None
      | Some c \<Rightarrow>
          if i = self \<or> endpoint_is_empty (inst_endpoint (ce_consumer c)) then None
          else Some (inst_endpoint (ce_consumer c)))"

text \<open>What becomes of the entry of an instance that should be dialable at \<open>endpoint\<close>.\<close>

definition refresh_entry ::
  "(Endpoint \<Rightarrow> ClientError + 'ch) \<Rightarrow> Endpoint \<Rightarrow> 'ch PoolEntry option \<Rightarrow> 'ch PoolEntry option" where
  "refresh_entry dial endpoint old =
     (if map_option pe_endpoint old = Some endpoint then old
      else case dial endpoint of
             Inr channel \<Rightarrow> Some \<lparr>pe_endpoint = endpoint, pe_channel = channel\<rparr>
           | Inl e \<Rightarrow> old)"

text \<open>The three results of the scan, one consumer at a time.\<close>

definition scan_one :: "'ch ConnectionPool \<Rightarrow> ConsumerEntry \<Rightarrow> (InstanceId \<times> Endpoint) option" where
  "scan_one pool c =
     (let i = inst_id (ce_consumer c); ep = inst_endpoint (ce_consumer c)
      in if i = pool_self_id pool \<or> endpoint_is_empty ep then None else Some (i, ep))"

lemma fold_scan_consumer:
  "fold (scan_consumer pool) cs s =
     \<lparr>scan_seen = scan_seen s \<union> fst ` set (List.map_filter (scan_one pool) cs),
      scan_add = scan_add s @
        filter (\<lambda>(i, ep). pool_entries pool i = None) (List.map_filter (scan_one pool) cs),
      scan_rebuild = scan_rebuild s @
        filter (\<lambda>(i, ep). \<exists>e. pool_entries pool i = Some e \<and> pe_endpoint e \<noteq> ep)
          (List.map_filter (scan_one pool) cs)\<rparr>"
  by (induction cs arbitrary: s)
    (auto simp: scan_consumer_def scan_one_def Let_def List.map_filter_simps split: option.split)

lemma fold_dial_entry:
  assumes "distinct (map fst jobs)"
  shows "fold (dial_entry dial) jobs entries i =
     (case map_of jobs i of
        None \<Rightarrow> entries i
      | Some ep \<Rightarrow> (case dial ep of
            Inr channel \<Rightarrow> Some \<lparr>pe_endpoint = ep, pe_channel = channel\<rparr>
          | Inl e \<Rightarrow> entries i))"
  using assms
proof (induction jobs arbitrary: entries)
  case (Cons job jobs)
  then have "map_of jobs (fst job) = None" by (simp add: map_of_eq_None_iff)
  with Cons show ?case
    by (cases job) (auto simp: dial_entry_def split: sum.split option.split)
qed simp

lemma scanned_peers:
  fixes pool :: "'ch ConnectionPool"
  assumes wf: "cluster_wf cm" and ord: "enumerates ord (cmap_consumers cm)"
  defines "peers \<equiv> List.map_filter (scan_one pool) (consumer_values ord cm)"
  shows "distinct (map fst peers)"
    and "map_of peers i = peer_endpoint (pool_self_id pool) cm i"
proof -
  have fst_scan: "scan_one pool c = Some (i, ep) \<Longrightarrow> cmap_consumers cm k = Some c \<Longrightarrow> i = k" for c i ep k
    using cluster_wfD(5) [OF wf] by (auto simp: scan_one_def Let_def split: if_splits)
  have sub: "distinct (map fst (List.map_filter (scan_one pool) (List.map_filter (cmap_consumers cm) ks)))
      \<and> fst ` set (List.map_filter (scan_one pool) (List.map_filter (cmap_consumers cm) ks)) \<subseteq> set ks"
    if "distinct ks" for ks
    using that
  proof (induction ks)
    case (Cons k ks)
    then show ?case
      using fst_scan [of _ _ _ k]
      by (cases "cmap_consumers cm k"; cases "scan_one pool (the (cmap_consumers cm k))")
        (auto simp: List.map_filter_simps)
  qed (simp add: List.map_filter_simps)
  then show dist: "distinct (map fst peers)"
    using ord by (simp add: peers_def consumer_values_def enumerates_def)
  have mem: "(j, ep) \<in> set peers \<longleftrightarrow> peer_endpoint (pool_self_id pool) cm j = Some ep" for j ep
  proof -
    have "(j, ep) \<in> set peers \<longleftrightarrow> (\<exists>k c. cmap_consumers cm k = Some c \<and> scan_one pool c = Some (j, ep))"
      using ord unfolding peers_def consumer_values_def
      by (force simp: List.map_filter_def enumerates_def)
    also have "\<dots> \<longleftrightarrow> (\<exists>c. cmap_consumers cm j = Some c \<and> scan_one pool c = Some (j, ep))"
      using fst_scan by blast
    also have "\<dots> \<longleftrightarrow> peer_endpoint (pool_self_id pool) cm j = Some ep"
      using cluster_wfD(5) [OF wf, of j]
      by (auto simp: scan_one_def Let_def peer_endpoint_def split: option.splits if_splits)
    finally show ?thesis .
  qed
  show "map_of peers i = peer_endpoint (pool_self_id pool) cm i"
  proof (cases "map_of peers i")
    case None
    then show ?thesis
      using mem [of i] map_of_eq_Some_iff [OF dist, of i]
      by (cases "peer_endpoint (pool_self_id pool) cm i") auto
  next
    case (Some ep)
    then have "(i, ep) \<in> set peers" by (rule map_of_SomeD)
    with Some show ?thesis by (simp add: mem)
  qed
qed

lemma map_of_filter_distinct:
  "distinct (map fst jobs) \<Longrightarrow> map_of (filter Q jobs) i =
     (case map_of jobs i of Some ep \<Rightarrow> (if Q (i, ep) then Some ep else None) | None \<Rightarrow> None)"
proof (induction jobs)
  case (Cons job jobs)
  then have "map_of jobs (fst job) = None" by (simp add: map_of_eq_None_iff)
  moreover from this have "map_of (filter Q jobs) (fst job) = None"
    by (auto simp: map_of_eq_None_iff)
  ultimately show ?case using Cons by (cases job) auto
qed simp

lemma apply_cluster_entries:
  assumes "cluster_wf cm" and "enumerates ord (cmap_consumers cm)"
  shows "pool_entries (apply_cluster ord cm pool) i =
     (case peer_endpoint (pool_self_id pool) cm i of
        None \<Rightarrow> None
      | Some endpoint \<Rightarrow> refresh_entry (pool_dial pool) endpoint (pool_entries pool i))"
proof -
  let ?peers = "List.map_filter (scan_one pool) (consumer_values ord cm)"
  let ?add = "filter (\<lambda>(i, ep). pool_entries pool i = None) ?peers"
  let ?rebuild = "filter (\<lambda>(i, ep). \<exists>e. pool_entries pool i = Some e \<and> pe_endpoint e \<noteq> ep) ?peers"
  note peers = scanned_peers [OF assms, of pool]
  have seen: "i \<in> fst ` set ?peers \<longleftrightarrow> peer_endpoint (pool_self_id pool) cm i \<noteq> None"
    using peers(2) [of i] map_of_eq_None_iff [of ?peers i] by simp
  have apply_eq: "pool_entries (apply_cluster ord cm pool) =
      retain_seen (fst ` set ?peers) (fold (dial_entry (pool_dial pool)) (?add @ ?rebuild) (pool_entries pool))"
    by (simp add: apply_cluster_def fold_scan_consumer Let_def del: fold_append)
  have "distinct (map fst (?add @ ?rebuild))"
    using peers(1) by (auto simp: distinct_map inj_on_def)
  note dialled = fold_dial_entry [OF this, of "pool_dial pool" "pool_entries pool" i]
  have jobs: "map_of (?add @ ?rebuild) i =
      (case peer_endpoint (pool_self_id pool) cm i of
         None \<Rightarrow> None
       | Some ep \<Rightarrow> if map_option pe_endpoint (pool_entries pool i) = Some ep then None else Some ep)"
    by (cases "pool_entries pool i")
      (simp_all add: map_add_def map_of_filter_distinct [OF peers(1)] peers(2) split: option.split)
  show ?thesis
    unfolding apply_eq retain_seen_def dialled jobs
    using seen by (auto simp: refresh_entry_def split: option.split sum.split)
qed

text \<open>
  C22. A snapshot determines the pool, independently of the iteration order: afterwards a peer is in the
  pool only if the snapshot lists it with an endpoint and it is not this instance; a channel whose
  endpoint is unchanged is kept and never dialled again; a new peer or a changed endpoint is
  dialled; and when that dial fails the old entry, if there is one, stays as it was.
\<close>

theorem apply_cluster_pointwise:
  assumes "cluster_wf cm" and "enumerates ord (cmap_consumers cm)"
  shows "pool_entries (apply_cluster ord cm pool) i =
     (case peer_endpoint (pool_self_id pool) cm i of
        None \<Rightarrow> None
      | Some endpoint \<Rightarrow> refresh_entry (pool_dial pool) endpoint (pool_entries pool i))"
  by (rule apply_cluster_entries [OF assms])

lemma apply_cluster_same [simp]:
  "pool_self_id (apply_cluster ord cm pool) = pool_self_id pool"
  "pool_dial (apply_cluster ord cm pool) = pool_dial pool"
  by (simp_all add: apply_cluster_def Let_def)

text \<open>
  Applying the same snapshot again changes nothing, even if the hash map is iterated in another
  order and even if some dials failed: no channel is replaced by a second, equivalent one.
\<close>

theorem apply_cluster_idempotent:
  assumes "cluster_wf cm" and "enumerates ord (cmap_consumers cm)" and "enumerates ord' (cmap_consumers cm)"
  shows "apply_cluster ord' cm (apply_cluster ord cm pool) = apply_cluster ord cm pool"
proof -
  let ?p = "apply_cluster ord cm pool"
  have "pool_entries (apply_cluster ord' cm ?p) i = pool_entries ?p i" for i
    by (auto simp: apply_cluster_entries [OF assms(1,2)] apply_cluster_entries [OF assms(1,3)]
        refresh_entry_def split: option.split sum.split)
  then show ?thesis by (intro ConnectionPool.equality ext) simp_all
qed

section \<open>A history of snapshots\<close>

text \<open>The pool after receiving the snapshots of a list, each with its iteration order.\<close>

definition pool_after :: "(ConsumerId list \<times> ClusterMap) list \<Rightarrow> 'ch ConnectionPool \<Rightarrow> 'ch ConnectionPool" where
  "pool_after snaps pool = fold (\<lambda>(ord, cm). apply_cluster ord cm) snaps pool"

definition snaps_ok :: "(ConsumerId list \<times> ClusterMap) list \<Rightarrow> bool" where
  "snaps_ok snaps \<longleftrightarrow> list_all (\<lambda>(ord, cm). cluster_wf cm \<and> enumerates ord (cmap_consumers cm)) snaps"

lemma pool_after_same [simp]:
  "pool_self_id (pool_after snaps pool) = pool_self_id pool"
  "pool_dial (pool_after snaps pool) = pool_dial pool"
  unfolding pool_after_def by (induction snaps arbitrary: pool) (simp_all add: case_prod_beta)

lemma pool_after_snoc:
  "pool_after (snaps @ [(ord, cm)]) pool = apply_cluster ord cm (pool_after snaps pool)"
  by (simp add: pool_after_def)

text \<open>Every channel was dialled for an endpoint that some snapshot gave for that very instance.\<close>

lemma pool_after_origin:
  assumes "snaps_ok snaps"
    and "pool_entries (pool_after snaps (pool_with_dial self dial)) i = Some e"
  shows "dial (pe_endpoint e) = Inr (pe_channel e)
    \<and> (\<exists>(ord, cm) \<in> set snaps. peer_endpoint self cm i = Some (pe_endpoint e))
    \<and> peer_endpoint self (snd (last snaps)) i \<noteq> None"
  using assms
proof (induction snaps rule: rev_induct)
  case Nil
  then show ?case by (simp add: pool_after_def pool_with_dial_def)
next
  case (snoc snap snaps)
  obtain ord cm where snap: "snap = (ord, cm)" by force
  let ?p = "pool_after snaps (pool_with_dial self dial)"
  have base: "pool_self_id (pool_with_dial self dial) = self" "pool_dial (pool_with_dial self dial) = dial"
    by (simp_all add: pool_with_dial_def)
  have ok: "cluster_wf cm" "enumerates ord (cmap_consumers cm)" "snaps_ok snaps"
    using snoc.prems(1) by (simp_all add: snaps_ok_def snap)
  obtain ep where ep: "peer_endpoint self cm i = Some ep"
      and e: "refresh_entry dial ep (pool_entries ?p i) = Some e"
    using snoc.prems(2)
    by (simp add: snap pool_after_snoc apply_cluster_entries [OF ok(1,2)] base split: option.splits)
  consider "pool_entries ?p i = Some e" | "pe_endpoint e = ep" "dial ep = Inr (pe_channel e)"
    using e by (auto simp: refresh_entry_def split: if_splits sum.splits)
  then show ?case
  proof cases
    case 1
    with snoc.IH [OF ok(3)] show ?thesis by (auto simp: snap ep)
  next
    case 2
    then show ?thesis by (simp add: snap ep)
  qed
qed

text \<open>
  Whatever sequence of snapshots a pool has received, resolving an instance fails only with
  \<open>NoResolution\<close>, never succeeds for the own instance or one that the last snapshot does not list
  with an endpoint, and returns a channel that was dialled for an endpoint which a snapshot gave for that
  very instance: calls are never sent to another peer's address.
\<close>

theorem pool_resolve_after:
  assumes "snaps_ok snaps"
  shows "case pool_resolve (pool_after snaps (pool_with_dial self dial)) i of
      Inl e \<Rightarrow> e = NoResolution
    | Inr ch \<Rightarrow> i \<noteq> self \<and> peer_endpoint self (snd (last snaps)) i \<noteq> None
        \<and> (\<exists>ord cm ep. (ord, cm) \<in> set snaps \<and> peer_endpoint self cm i = Some ep \<and> dial ep = Inr ch)"
proof (cases "pool_entries (pool_after snaps (pool_with_dial self dial)) i")
  case None
  then show ?thesis by (simp add: pool_resolve_def)
next
  case (Some e)
  from pool_after_origin [OF assms this] Some show ?thesis
    by (auto simp: pool_resolve_def pool_with_dial_def)
qed

section \<open>The interface offered to the resolver\<close>

locale peer_directory =
  fixes channel_of :: "'p \<Rightarrow> InstanceId \<Rightarrow> ClientError + 'ch"
    and own_id :: "'p \<Rightarrow> InstanceId"
  assumes own_unresolved: "channel_of p (own_id p) = Inl NoResolution"
    and only_no_resolution: "channel_of p i = Inl e \<Longrightarrow> e = NoResolution"
begin

lemma resolved_is_remote: "channel_of p i = Inr ch \<Longrightarrow> i \<noteq> own_id p"
  using own_unresolved by auto

lemma channel_cases:
  obtains ch where "channel_of p i = Inr ch" "i \<noteq> own_id p" | "channel_of p i = Inl NoResolution"
  using resolved_is_remote only_no_resolution by (cases "channel_of p i") metis+

end

interpretation pool_peers: peer_directory "pool_resolve :: 'ch ConnectionPool \<Rightarrow> _" pool_self_id
  by unfold_locales (auto simp: pool_resolve_def ok_or_def split: if_splits option.splits)

section \<open>A concrete pool\<close>

text \<open>Instance 1 sees a peer that moves to an address that cannot be dialled.\<close>

definition pool_demo_instance :: "uuid \<Rightarrow> string \<Rightarrow> Instance" where
  "pool_demo_instance n ep =
     \<lparr>inst_id = InstanceId n, inst_location = location_default, inst_name = InstanceName ''worker'',
      inst_created = 0, inst_endpoint = Endpoint ep\<rparr>"

definition pool_demo_cluster :: "string \<Rightarrow> ClusterMap" where
  "pool_demo_cluster ep = cluster_empty\<lparr>cmap_consumers :=
     [InstanceId 1 \<mapsto> \<lparr>ce_consumer = pool_demo_instance 1 ''a:1'', ce_grants = []\<rparr>,
      InstanceId 2 \<mapsto> \<lparr>ce_consumer = pool_demo_instance 2 ep, ce_grants = []\<rparr>]\<rparr>"

definition pool_demo_dial :: "Endpoint \<Rightarrow> ClientError + string" where
  "pool_demo_dial e = (if e = Endpoint ''bad'' then Inl (TransportSetup ''bad'') else Inr (endpoint_str e))"

definition pool_demo_ids :: "InstanceId list" where
  "pool_demo_ids = [InstanceId 1, InstanceId 2]"

lemma pool_demo_wf: "cluster_wf (pool_demo_cluster ep)"
  by (simp add: cluster_wf_def pool_demo_cluster_def cluster_empty_def pool_demo_instance_def)

lemma pool_demo_ids: "enumerates pool_demo_ids (cmap_consumers (pool_demo_cluster ep))"
  by (auto simp: enumerates_def pool_demo_ids_def pool_demo_cluster_def)

lemma pool_demo_snaps: "snaps_ok [(pool_demo_ids, pool_demo_cluster a), (pool_demo_ids, pool_demo_cluster b)]"
  by (simp add: snaps_ok_def pool_demo_wf pool_demo_ids)

theorem apply_cluster_pointwise_witness:
  "pool_entries (apply_cluster pool_demo_ids (pool_demo_cluster ''b:1'')
      (pool_with_dial (InstanceId 1) pool_demo_dial)) (InstanceId 2)
   = Some \<lparr>pe_endpoint = Endpoint ''b:1'', pe_channel = ''b:1''\<rparr>"
  by (subst apply_cluster_pointwise [OF pool_demo_wf pool_demo_ids])
    (simp add: peer_endpoint_def pool_demo_cluster_def pool_demo_instance_def pool_with_dial_def
      endpoint_is_empty_def refresh_entry_def pool_demo_dial_def)

theorem apply_cluster_idempotent_witness:
  "apply_cluster pool_demo_ids (pool_demo_cluster ''b:1'')
     (apply_cluster pool_demo_ids (pool_demo_cluster ''b:1'') (pool_with_dial (InstanceId 1) pool_demo_dial))
   = apply_cluster pool_demo_ids (pool_demo_cluster ''b:1'') (pool_with_dial (InstanceId 1) pool_demo_dial)"
  by (rule apply_cluster_idempotent [OF pool_demo_wf pool_demo_ids pool_demo_ids])

theorem pool_resolve_after_witness:
  "case pool_resolve (pool_after [(pool_demo_ids, pool_demo_cluster ''b:1''), (pool_demo_ids, pool_demo_cluster ''bad'')]
        (pool_with_dial (InstanceId 1) pool_demo_dial)) (InstanceId 2) of
     Inl e \<Rightarrow> e = NoResolution
   | Inr ch \<Rightarrow> InstanceId 2 \<noteq> InstanceId 1"
  using pool_resolve_after [OF pool_demo_snaps [of "''b:1''" "''bad''"],
      where self = "InstanceId 1" and dial = pool_demo_dial and i = "InstanceId 2"]
  by (simp split: sum.splits)

end
