(* ===== verification/ResolverModel.thy ===== *)
theory ResolverModel
  imports ClusterLaws PoolModel
begin

text \<open>
  Models \<open>splitter-client/src/resolver.rs\<close>: from a key to the owner's location or client.

  A resolver reads the latest snapshot from a watch channel at each call; the snapshot and the
  iteration order of its grants are arguments. The user's \<open>remote_fn\<close> is a field. The two things it
  needs from a snapshot are stated in the locale \<open>owner_view\<close>, interpreted on \<open>cluster_lookup\<close>;
  what it needs from the pool is the locale \<open>peer_directory\<close> of \<open>PoolModel\<close>.
\<close>

section \<open>What a snapshot promises\<close>

locale owner_view =
  fixes valid :: "'o \<Rightarrow> 'c \<Rightarrow> bool"
    and owner_of :: "'o \<Rightarrow> 'c \<Rightarrow> 'k \<Rightarrow> 's list \<Rightarrow> 'i option"
    and member :: "'c \<Rightarrow> 'i \<Rightarrow> 'm option"
  assumes owner_is_member: "valid ord c \<Longrightarrow> owner_of ord c k ss = Some i \<Longrightarrow> member c i \<noteq> None"
    and owner_order: "valid ord c \<Longrightarrow> valid ord' c \<Longrightarrow>
      (owner_of ord c k ss = None) = (owner_of ord' c k ss = None)"
begin

lemma owner_found: "valid ord c \<Longrightarrow>
    Option.bind (owner_of ord c k ss) (member c) = None \<longleftrightarrow> owner_of ord c k ss = None"
  using owner_is_member by (cases "owner_of ord c k ss") auto

lemma owner_found_order: "valid ord c \<Longrightarrow> valid ord' c \<Longrightarrow>
    (Option.bind (owner_of ord c k ss) (member c) = None) \<longleftrightarrow>
    (Option.bind (owner_of ord' c k ss) (member c) = None)"
  using owner_found owner_order by blast

end

definition snapshot_valid :: "GrantId list \<Rightarrow> ClusterMap \<Rightarrow> bool" where
  "snapshot_valid ord cm \<longleftrightarrow> cluster_wf cm \<and> enumerates ord (cmap_grants cm)"

lemma cluster_lookup_mem:
  "enumerates ord (cmap_grants cm) \<Longrightarrow> cluster_lookup ord cm key ss = Some g \<Longrightarrow>
   g \<in> ran (cmap_grants cm) \<and> shard_covers (gr_shard g) key \<and> gr_state g \<in> set (wanted_states ss)"
  using lookup_states_Some [of "grant_values ord cm" key "wanted_states ss" g]
  by (auto simp: cluster_lookup_eq set_grant_values)

lemma cluster_lookup_None:
  "enumerates ord (cmap_grants cm) \<Longrightarrow> cluster_lookup ord cm key ss = None \<longleftrightarrow>
   (\<forall>g \<in> ran (cmap_grants cm). shard_covers (gr_shard g) key \<longrightarrow> gr_state g \<notin> set (wanted_states ss))"
  by (simp add: cluster_lookup_eq set_grant_values lookup_states_None)

interpretation cluster_owners: owner_view snapshot_valid
  "\<lambda>ord cm key ss. map_option gr_consumer (cluster_lookup ord cm key ss)" cmap_consumers
proof unfold_locales
  fix ord cm key ss i
  assume valid: "snapshot_valid ord cm"
    and "map_option gr_consumer (cluster_lookup ord cm key ss) = Some i"
  then obtain g where "cluster_lookup ord cm key ss = Some g" "i = gr_consumer g" by auto
  moreover from this valid have "g \<in> ran (cmap_grants cm)"
    using cluster_lookup_mem unfolding snapshot_valid_def by blast
  ultimately show "cmap_consumers cm i \<noteq> None"
    using valid cluster_wfD(4) by (fastforce simp: snapshot_valid_def ran_def)
qed (simp add: snapshot_valid_def cluster_lookup_None)

section \<open>The resolver\<close>

record ('ch, 'c) DomainResolver =
  res_pool :: "'ch ConnectionPool"
  res_domain :: QualifiedDomainName
  res_remote_fn :: "'ch \<Rightarrow> 'c"
  res_preferred_states :: "GrantState list"

definition resolver_new ::
  "'ch ConnectionPool \<Rightarrow> QualifiedDomainName \<Rightarrow> ('ch \<Rightarrow> 'c) \<Rightarrow> ('ch, 'c) DomainResolver" where
  "resolver_new pool domain remote_fn =
     \<lparr>res_pool = pool, res_domain = domain, res_remote_fn = remote_fn,
      res_preferred_states = [GrantState.Active, GrantState.AllocatedLoaded, GrantState.Revoked]\<rparr>"

definition resolver_location ::
  "('ch, 'c) DomainResolver \<Rightarrow> GrantId list \<Rightarrow> ClusterMap \<Rightarrow> QualifiedDomainKey \<Rightarrow> Location option" where
  "resolver_location r ord cm key =
     map_option (\<lambda>c. inst_location (ce_consumer c))
       (Option.bind (cluster_lookup ord cm key (res_preferred_states r)) (\<lambda>g. cmap_consumers cm (gr_consumer g)))"

definition resolver_resolve ::
  "('ch, 'c) DomainResolver \<Rightarrow> GrantId list \<Rightarrow> ClusterMap \<Rightarrow> QualifiedDomainKey \<Rightarrow> ClientError + 'c" where
  "resolver_resolve r ord cm key =
     (if qdk_domain key \<noteq> res_domain r
      then Inl (InvalidMessage (''resolver domain mismatch: '' @ qdn_to_string (res_domain r)
                  @ '' vs '' @ qdn_to_string (qdk_domain key)))
      else sbind (ok_or (cluster_lookup ord cm key (res_preferred_states r)) NoResolution) (\<lambda>grant.
           sbind (pool_resolve (res_pool r) (gr_consumer grant)) (\<lambda>channel.
           Inr (res_remote_fn r channel))))"

section \<open>Location\<close>

lemma bind_map_option: "Option.bind (map_option f x) g = Option.bind x (\<lambda>y. g (f y))"
  by (cases x) simp_all

text \<open>
  The location of an owner is never lost: for a well-formed snapshot \<open>location\<close> returns nothing
  exactly when no grant in a preferred state covers the key, and otherwise the location of an
  instance whose id is the consumer of such a grant.
\<close>

theorem resolver_location_correct:
  assumes "snapshot_valid ord cm"
  shows "case resolver_location r ord cm key of
      None \<Rightarrow> cluster_lookup ord cm key (res_preferred_states r) = None
    | Some l \<Rightarrow> \<exists>g c. cluster_lookup ord cm key (res_preferred_states r) = Some g
        \<and> cmap_consumers cm (gr_consumer g) = Some c \<and> inst_id (ce_consumer c) = gr_consumer g
        \<and> l = inst_location (ce_consumer c)"
proof -
  have wf: "cluster_wf cm" using assms by (simp add: snapshot_valid_def)
  note found = cluster_owners.owner_found [OF assms, of key "res_preferred_states r"]
  then show ?thesis
    using cluster_wfD(5) [OF wf]
    by (cases "cluster_lookup ord cm key (res_preferred_states r)")
      (auto simp: resolver_location_def bind_map_option split: option.split)
qed

section \<open>Resolution\<close>

text \<open>
  C36. When resolution succeeds, the client is built on a channel to another instance that owns, in a
  preferred state, a shard covering the key; when it fails for a key of its domain, the error is
  \<open>NoResolution\<close>; a key of another domain is always rejected as invalid.
\<close>

theorem resolver_resolve_sound:
  assumes "snapshot_valid ord cm"
  shows "case resolver_resolve r ord cm key of
      Inr c \<Rightarrow> qdk_domain key = res_domain r \<and> (\<exists>g ch. g \<in> ran (cmap_grants cm)
        \<and> shard_covers (gr_shard g) key \<and> gr_state g \<in> set (wanted_states (res_preferred_states r))
        \<and> gr_consumer g \<noteq> pool_self_id (res_pool r)
        \<and> pool_resolve (res_pool r) (gr_consumer g) = Inr ch \<and> c = res_remote_fn r ch)
    | Inl e \<Rightarrow> if qdk_domain key = res_domain r then e = NoResolution
               else e = InvalidMessage (''resolver domain mismatch: '' @ qdn_to_string (res_domain r)
                  @ '' vs '' @ qdn_to_string (qdk_domain key))"
proof (cases "qdk_domain key = res_domain r")
  case dom: True
  show ?thesis
  proof (cases "cluster_lookup ord cm key (res_preferred_states r)")
    case None
    with dom show ?thesis by (simp add: resolver_resolve_def)
  next
    case (Some g)
    note mem = cluster_lookup_mem [OF _ Some] assms [unfolded snapshot_valid_def]
    show ?thesis
      by (rule pool_peers.channel_cases [of "res_pool r" "gr_consumer g"])
        (use dom Some mem in \<open>auto simp: resolver_resolve_def\<close>)
  qed
qed (simp add: resolver_resolve_def)

text \<open>
  With a pool that has been synchronised with the snapshot, resolution of a key of the domain
  fails exactly when there is no owner in a preferred state, the owner is this instance, the
  owner advertises no endpoint, or its endpoint could not be dialled and there was no earlier
  channel to it.
\<close>

theorem resolver_no_resolution_iff:
  assumes "snapshot_valid ord cm" and "enumerates cord (cmap_consumers cm)"
    and "qdk_domain key = res_domain r" and "res_pool r = apply_cluster cord cm pool"
  shows "resolver_resolve r ord cm key = Inl NoResolution \<longleftrightarrow>
     (case cluster_lookup ord cm key (res_preferred_states r) of
        None \<Rightarrow> True
      | Some g \<Rightarrow> (case peer_endpoint (pool_self_id pool) cm (gr_consumer g) of
          None \<Rightarrow> True
        | Some endpoint \<Rightarrow> pool_entries pool (gr_consumer g) = None \<and> isl (pool_dial pool endpoint)))"
proof -
  have wf: "cluster_wf cm" using assms(1) by (simp add: snapshot_valid_def)
  have pool: "pool_resolve (apply_cluster cord cm pool) i = Inl NoResolution \<longleftrightarrow>
     (case peer_endpoint (pool_self_id pool) cm i of
          None \<Rightarrow> True
        | Some endpoint \<Rightarrow> pool_entries pool i = None \<and> isl (pool_dial pool endpoint))" for i
  proof (cases "i = pool_self_id pool")
    case True
    then have "peer_endpoint (pool_self_id pool) cm i = None"
      by (simp add: peer_endpoint_def split: option.split)
    with True show ?thesis by (simp add: pool_resolve_def)
  next
    case False
    then show ?thesis
      by (auto simp: pool_resolve_def apply_cluster_entries [OF wf assms(2)] refresh_entry_def ok_or_eq_Inl
          split: option.split sum.split)
  qed
  have "resolver_resolve r ord cm key = Inl NoResolution \<longleftrightarrow>
     (case cluster_lookup ord cm key (res_preferred_states r) of
        None \<Rightarrow> True
      | Some g \<Rightarrow> pool_resolve (apply_cluster cord cm pool) (gr_consumer g) = Inl NoResolution)"
    by (auto simp: resolver_resolve_def assms(3,4) sbind_def split: option.split sum.split)
  then show ?thesis unfolding pool .
qed

section \<open>A concrete resolver\<close>

text \<open>Instance 2 looks for the owner of keys of the cluster of \<open>ClusterLaws\<close>.\<close>

definition demo_pool :: "string ConnectionPool" where
  "demo_pool = pool_with_dial (InstanceId 2) pool_demo_dial"

definition demo_resolver :: "(string, string) DomainResolver" where
  "demo_resolver = resolver_new
     (apply_cluster [InstanceId 1, InstanceId 2] demo_cluster demo_pool) demo_domain (\<lambda>ch. ch)"

lemma demo_valid: "snapshot_valid [GrantId ''g1''] demo_cluster"
  by (simp add: snapshot_valid_def demo_cluster_wf demo_enumerates)

lemma demo_consumers: "enumerates [InstanceId 1, InstanceId 2] (cmap_consumers demo_cluster)"
  by (auto simp: enumerates_def demo_cluster_def)

lemma demo_lookup:
  "cluster_lookup [GrantId ''g1''] demo_cluster (demo_key ''b'') (res_preferred_states demo_resolver)
     = Some demo_grant"
  unfolding demo_resolver_def resolver_new_def DomainResolver.simps by code_simp

theorem resolver_location_correct_witness:
  "resolver_location demo_resolver [GrantId ''g1''] demo_cluster (demo_key ''b'') \<noteq> None"
  using resolver_location_correct [OF demo_valid, where r = demo_resolver and key = "demo_key ''b''"]
  by (simp add: demo_lookup split: option.splits)

theorem resolver_resolve_sound_witness:
  "case resolver_resolve demo_resolver [GrantId ''g1''] demo_cluster (demo_key ''b'') of
     Inr c \<Rightarrow> True | Inl e \<Rightarrow> e = NoResolution"
  using resolver_resolve_sound [OF demo_valid, where r = demo_resolver and key = "demo_key ''b''"]
  by (simp add: demo_resolver_def resolver_new_def demo_key_def split: sum.splits)

theorem resolver_no_resolution_iff_witness:
  "resolver_resolve demo_resolver [GrantId ''g1''] demo_cluster (demo_key ''b'') \<noteq> Inl NoResolution"
proof -
  have 1: "res_pool demo_resolver = apply_cluster [InstanceId 1, InstanceId 2] demo_cluster demo_pool"
    and 2: "qdk_domain (demo_key ''b'') = res_domain demo_resolver"
    by (simp_all add: demo_resolver_def resolver_new_def demo_key_def)
  have 3: "peer_endpoint (InstanceId 2) demo_cluster (InstanceId 1) = Some (Endpoint ''h1:1'')"
    by (simp add: peer_endpoint_def demo_cluster_def demo_instance_def endpoint_is_empty_def)
  have 4: "gr_consumer demo_grant = InstanceId 1" by (simp add: demo_grant_def)
  show ?thesis
    by (subst resolver_no_resolution_iff [OF demo_valid demo_consumers 2 1])
      (simp add: demo_lookup 3 4 demo_pool_def pool_with_dial_def pool_demo_dial_def)
qed

end
