(* ===== verification/RetryModel.thy ===== *)
theory RetryModel
  imports Errors Clock
begin

text \<open>
  Models \<open>splitter-client/src/retry.rs\<close>: repeating an operation while it fails with an error of the
  ownership class.

  The world is a state of type \<open>'w\<close> that the operation and \<open>sleep\<close> pass on; \<open>now\<close> reads its clock, in
  nanoseconds like a \<open>SystemTime\<close>. These three are the caller's and the runtime's, hence
  arguments. The loop may run forever (a zero delay never grows), so it is a
  \<open>partial_function\<close>: \<open>None\<close> means that the call does not return. The two places where
  \<open>Duration\<close> and \<open>Instant\<close> arithmetic panics on overflow are kept.
\<close>

section \<open>The loop\<close>

record OwnershipBackoff =
  bo_initial :: Duration
  bo_max :: Duration
  bo_timeout :: Duration

definition backoff_new :: "Duration \<Rightarrow> OwnershipBackoff" where
  "backoff_new timeout = \<lparr>bo_initial = from_secs 1, bo_max = from_secs 5, bo_timeout = timeout\<rparr>"

text \<open>\<open>(delay * 2).min(backoff.max)\<close>; the product panics when it is not a \<open>Duration\<close>.\<close>

definition next_delay :: "Duration \<Rightarrow> Duration \<Rightarrow> fault + Duration" where
  "next_delay cap delay =
     (if duration_max < delay * 2 then Inl Panic else Inr (min (delay * 2) cap))"

record ('w, 'v) retry_env =
  env_now :: "'w \<Rightarrow> SystemTime"
  env_sleep :: "Duration \<Rightarrow> 'w \<Rightarrow> 'w"
  env_op :: "'w \<Rightarrow> (ClientError + 'v) \<times> 'w"

partial_function (option) retry_loop ::
  "('w, 'v) retry_env \<Rightarrow> SystemTime \<Rightarrow> Duration \<Rightarrow> Duration \<Rightarrow> 'w \<Rightarrow> ((fault + 'v) \<times> 'w) option" where
  "retry_loop E deadline cap delay w =
     (case env_op E w of
        (Inr v, w1) \<Rightarrow> Some (Inr v, w1)
      | (Inl e, w1) \<Rightarrow>
          if \<not> is_ownership e then Some (Inl (Err e), w1)
          else if env_now E w1 \<ge> deadline then Some (Inl (Err e), w1)
          else let remaining = nat (deadline - env_now E w1);
                   sleep_for = min delay remaining;
                   w2 = env_sleep E sleep_for w1
               in case next_delay cap delay of
                    Inl p \<Rightarrow> Some (Inl p, w2)
                  | Inr delay' \<Rightarrow> retry_loop E deadline cap delay' w2)"

definition retry_ownership ::
  "('w, 'v) retry_env \<Rightarrow> OwnershipBackoff \<Rightarrow> 'w \<Rightarrow> ((fault + 'v) \<times> 'w) option" where
  "retry_ownership E backoff w =
     (case add_duration (env_now E w) (bo_timeout backoff) of
        Inl p \<Rightarrow> Some (Inl p, w)
      | Inr deadline \<Rightarrow> retry_loop E deadline (bo_max backoff) (bo_initial backoff) w)"

text \<open>The clock never runs backwards and \<open>tokio::time::sleep\<close> never wakes early.\<close>

definition env_laws :: "('w, 'v) retry_env \<Rightarrow> bool" where
  "env_laws E \<longleftrightarrow>
     (\<forall>w. env_now E w \<le> env_now E (snd (env_op E w)))
     \<and> (\<forall>d w. env_now E w + int d \<le> env_now E (env_sleep E d w))"

lemma env_laws_op: "env_laws E \<Longrightarrow> env_op E w = (r, w1) \<Longrightarrow> env_now E w \<le> env_now E w1"
  unfolding env_laws_def by (metis snd_conv)

lemma env_laws_sleep: "env_laws E \<Longrightarrow> env_now E w + int d \<le> env_now E (env_sleep E d w)"
  by (simp add: env_laws_def)

section \<open>Results\<close>

lemma retry_loop_result:
  assumes "retry_loop E deadline cap delay w = Some out"
  shows "case fst out of
      Inr v \<Rightarrow> \<exists>w0. env_op E w0 = (Inr v, snd out)
    | Inl (Err e) \<Rightarrow> \<exists>w0. env_op E w0 = (Inl e, snd out) \<and> (is_ownership e \<longrightarrow> deadline \<le> env_now E (snd out))
    | Inl Panic \<Rightarrow> True"
  using assms
proof (induction rule: retry_loop.raw_induct [rotated 1, consumes 1, case_names step])
  case (step loop E deadline cap delay w out)
  obtain r w1 where op: "env_op E w = (r, w1)" by force
  show ?case
  proof (cases r)
    case (Inr v)
    with step(2) op show ?thesis by auto
  next
    case (Inl e)
    then show ?thesis
      using step(2) op step(1)
      by (auto simp: Let_def next_delay_def split: if_splits sum.splits fault.splits)
  qed
qed

text \<open>What the attempts keep: \<open>P\<close> while the loop goes on, \<open>Q\<close> of the outcome.\<close>

definition attempts_keep :: "('w, 'v) retry_env \<Rightarrow> ('w \<Rightarrow> bool) \<Rightarrow> (fault + 'v \<Rightarrow> 'w \<Rightarrow> bool) \<Rightarrow> bool" where
  "attempts_keep E P Q \<longleftrightarrow>
     (\<forall>w r w1. P w \<longrightarrow> env_op E w = (r, w1) \<longrightarrow>
        Q (map_sum Err id r) w1 \<and> (\<forall>e. r = Inl e \<longrightarrow> is_ownership e \<longrightarrow> P w1))
     \<and> (\<forall>d w. P w \<longrightarrow> P (env_sleep E d w)) \<and> (\<forall>w. P w \<longrightarrow> Q (Inl Panic) w)"

lemma retry_loop_keeps:
  assumes "retry_loop E deadline cap delay w = Some out" and "attempts_keep E P Q" and "P w"
  shows "Q (fst out) (snd out)"
  using assms
proof (induction rule: retry_loop.raw_induct [rotated 1, consumes 1, case_names step])
  case (step loop E deadline cap delay w out)
  obtain r w1 where op: "env_op E w = (r, w1)" by force
  with step(3,4) have q: "Q (map_sum Err id r) w1" and p: "\<And>e. r = Inl e \<Longrightarrow> is_ownership e \<Longrightarrow> P w1"
    unfolding attempts_keep_def by blast+
  have sleep: "P w1 \<Longrightarrow> P (env_sleep E d w1)" and panic: "P v \<Longrightarrow> Q (Inl Panic) v" for d v
    using step(3) unfolding attempts_keep_def by blast+
  show ?case
  proof (cases "\<exists>e. r = Inl e \<and> is_ownership e \<and> env_now E w1 < deadline")
    case False
    with step(2) op q show ?thesis by (cases r) (auto split: if_splits)
  next
    case True
    then obtain e where e: "r = Inl e" "is_ownership e" "env_now E w1 < deadline" by blast
    let ?w2 = "env_sleep E (min delay (nat (deadline - env_now E w1))) w1"
    have w2: "P ?w2" using p [OF e(1,2)] by (rule sleep)
    have "(case next_delay cap delay of Inl f \<Rightarrow> Some (Inl f, ?w2) | Inr d \<Rightarrow> loop E deadline cap d ?w2) = Some out"
      using step(2) op e by (simp add: Let_def)
    then show ?thesis
      using step(1) [OF _ step(3) w2] panic [OF w2] by (auto simp: next_delay_def split: if_splits)
  qed
qed

lemma retry_ownership_keeps:
  assumes "retry_ownership E backoff w = Some (r, w')" and "attempts_keep E P Q" and "P w"
  shows "Q r w'"
proof (cases "add_duration (env_now E w) (bo_timeout backoff)")
  case (Inl p)
  with assms(1) have "r = Inl Panic" "w' = w"
    by (auto simp: retry_ownership_def dest: add_duration_error)
  with assms(2,3) show ?thesis by (simp add: attempts_keep_def)
next
  case (Inr deadline)
  then have out: "retry_loop E deadline (bo_max backoff) (bo_initial backoff) w = Some (r, w')"
    using assms(1) by (simp add: retry_ownership_def)
  from retry_loop_keeps [OF this assms(2,3)] show ?thesis by simp
qed

text \<open>A world with more in it, by a projection that the operation, the clock and \<open>sleep\<close> respect.\<close>

lemma retry_loop_abs:
  assumes "retry_loop E deadline cap delay s = Some out"
    and "\<And>s. env_op F (f s) = (fst (env_op E s), f (snd (env_op E s)))"
    and "\<And>s. env_now F (f s) = env_now E s" and "\<And>d s. env_sleep F d (f s) = f (env_sleep E d s)"
  shows "retry_loop F deadline cap delay (f s) = Some (fst out, f (snd out))"
  using assms
proof (induction rule: retry_loop.raw_induct [rotated 1, consumes 1, case_names step])
  case (step loop E deadline cap delay s out)
  obtain r s1 where op: "env_op E s = (r, s1)" by force
  with step(3) [of s] have op': "env_op F (f s) = (r, f s1)" by simp
  note unf = retry_loop.simps [of F deadline cap delay "f s"]
  show ?case
  proof (cases "\<exists>e. r = Inl e \<and> is_ownership e \<and> env_now E s1 < deadline")
    case False
    with step(2) op show ?thesis by (subst unf) (auto simp: op' step(4) split: sum.splits if_splits)
  next
    case True
    with step(2) op step(1) [OF _ step(3-5)] show ?thesis
      by (subst unf) (auto simp: op' step(4,5) Let_def next_delay_def split: if_splits)
  qed
qed

lemma retry_ownership_abs:
  assumes "retry_ownership E backoff s = Some (r, s')"
    and "\<And>s. env_op F (f s) = (fst (env_op E s), f (snd (env_op E s)))"
    and "\<And>s. env_now F (f s) = env_now E s" and "\<And>d s. env_sleep F d (f s) = f (env_sleep E d s)"
  shows "retry_ownership F backoff (f s) = Some (r, f s')"
  using assms(1) retry_loop_abs [where f = f and E = E and F = F, OF _ assms(2-4)]
  by (auto simp: retry_ownership_def assms(3) split: sum.splits)

lemma retry_ownership_result:
  assumes "retry_ownership E backoff w = Some (r, w')"
  shows "case r of
      Inr v \<Rightarrow> \<exists>w0. env_op E w0 = (Inr v, w')
    | Inl (Err e) \<Rightarrow> \<exists>w0. env_op E w0 = (Inl e, w')
        \<and> (is_ownership e \<longrightarrow> env_now E w + int (bo_timeout backoff) \<le> env_now E w')
    | Inl Panic \<Rightarrow> True"
proof (cases "add_duration (env_now E w) (bo_timeout backoff)")
  case (Inl p)
  with assms show ?thesis
    by (auto simp: retry_ownership_def add_duration_def split: if_splits)
next
  case (Inr deadline)
  then have "deadline = env_now E w + int (bo_timeout backoff)"
    by (simp add: add_duration_def split: if_splits)
  moreover have "retry_loop E deadline (bo_max backoff) (bo_initial backoff) w = Some (r, w')"
    using assms Inr by (simp add: retry_ownership_def)
  from retry_loop_result [OF this] show ?thesis
    by (auto simp: calculation split: sum.splits fault.splits)
qed

text \<open>
  C25. The caller gets what the operation said: a value is the value of an attempt, an error is the
  error of the last attempt, and an error of the ownership class is only handed out once the
  deadline has passed, so the loop never gives up early on an error it could still retry.
\<close>

theorem retry_result:
  assumes "retry_ownership E backoff w = Some (r, w')"
  shows "case r of
      Inr v \<Rightarrow> \<exists>w0. env_op E w0 = (Inr v, w')
    | Inl (Err e) \<Rightarrow> \<exists>w0. env_op E w0 = (Inl e, w')
        \<and> (is_ownership e \<longrightarrow> env_now E w + int (bo_timeout backoff) \<le> env_now E w')
    | Inl Panic \<Rightarrow> True"
  by (rule retry_ownership_result [OF assms])

section \<open>Termination\<close>

text \<open>
  \<open>cnt\<close> is any measure of the world that grows by at most one per attempt, such as a count of
  attempts or of the requests they send. \<open>m\<close> is a positive lower bound of all delays; every attempt
  after the first two uses up at least \<open>m\<close> of the time left.
\<close>

definition counts_attempts :: "('w, 'v) retry_env \<Rightarrow> ('w \<Rightarrow> nat) \<Rightarrow> bool" where
  "counts_attempts E cnt \<longleftrightarrow>
     (\<forall>w. cnt (snd (env_op E w)) \<le> cnt w + 1) \<and> (\<forall>d w. cnt (env_sleep E d w) \<le> cnt w)"

definition attempts_bound :: "Duration \<Rightarrow> nat \<Rightarrow> nat" where
  "attempts_bound m left = (if left = 0 then 1 else left div m + 2)"

lemma attempts_bound_step:
  assumes "0 < m" and "m \<le> delay" and "0 < left" and "left' \<le> left - min delay left"
  shows "attempts_bound m left' + 1 \<le> attempts_bound m left"
proof (cases "left' = 0")
  case True
  with assms(3) show ?thesis by (simp add: attempts_bound_def)
next
  case False
  with assms(2,4) have "left' + m \<le> left" by (simp add: min_def split: if_splits)
  then have "(left' + m) div m \<le> left div m" by (rule div_le_mono)
  moreover have "(left' + m) div m = left' div m + 1" using div_add_self2 [of m left'] assms(1) by simp
  ultimately show ?thesis using assms(3) False by (simp add: attempts_bound_def)
qed

lemma next_delay_bounds:
  assumes "0 < m" and "m \<le> delay" and "m \<le> cap" and "next_delay cap delay = Inr delay'"
  shows "m \<le> delay'"
  using assms by (simp add: next_delay_def split: if_splits)

lemma retry_loop_returns:
  assumes laws: "env_laws E" and cnt: "counts_attempts E cnt"
    and "0 < m" and "m \<le> delay" and "m \<le> cap"
  shows "\<exists>r w'. retry_loop E deadline cap delay w = Some (r, w')
    \<and> cnt w' \<le> cnt w + attempts_bound m (nat (deadline - env_now E w))"
  using assms(4)
proof (induction "nat (deadline - env_now E w)" arbitrary: w delay rule: less_induct)
  case less
  let ?left = "\<lambda>w. nat (deadline - env_now E w)"
  obtain r w1 where op: "env_op E w = (r, w1)" by force
  have c1: "cnt w1 \<le> cnt w + 1" using cnt op unfolding counts_attempts_def by (metis snd_conv)
  have t1: "env_now E w \<le> env_now E w1" by (rule env_laws_op [OF laws op])
  have one: "1 \<le> attempts_bound m n" for n by (simp add: attempts_bound_def)
  note unf = retry_loop.simps [of E deadline cap delay w]
  show ?case
  proof (cases "\<exists>e. r = Inl e \<and> is_ownership e \<and> env_now E w1 < deadline")
    case False
    then have "\<exists>r'. retry_loop E deadline cap delay w = Some (r', w1)"
      by (subst unf) (auto simp: op split: sum.split)
    moreover have "cnt w1 \<le> cnt w + attempts_bound m (?left w)"
      using c1 one [of "?left w"] by linarith
    ultimately show ?thesis by blast
  next
    case True
    then obtain e where e: "r = Inl e" "is_ownership e" and early: "env_now E w1 < deadline" by blast
    define w2 where "w2 = env_sleep E (min delay (?left w1)) w1"
    have "cnt w2 \<le> cnt w1" using cnt by (simp add: counts_attempts_def w2_def)
    with c1 have c2: "cnt w2 \<le> cnt w + 1" by simp
    have t2: "env_now E w1 + int (min delay (?left w1)) \<le> env_now E w2"
      unfolding w2_def by (rule env_laws_sleep [OF laws])
    have loop: "retry_loop E deadline cap delay w =
        (case next_delay cap delay of Inl p \<Rightarrow> Some (Inl p, w2) | Inr d \<Rightarrow> retry_loop E deadline cap d w2)"
      unfolding w2_def by (subst unf) (use early in \<open>simp add: op e Let_def\<close>)
    show ?thesis
    proof (cases "next_delay cap delay")
      case (Inl p)
      with loop have "retry_loop E deadline cap delay w = Some (Inl p, w2)" by simp
      moreover have "cnt w2 \<le> cnt w + attempts_bound m (?left w)"
        using c2 one [of "?left w"] by linarith
      ultimately show ?thesis by blast
    next
      case (Inr d)
      have d: "m \<le> d" by (rule next_delay_bounds [OF assms(3) less.prems assms(5) Inr])
      have left: "?left w2 \<le> ?left w - min delay (?left w)" and "0 < ?left w"
        using early t1 t2 by linarith+
      moreover have "0 < min delay (?left w)" using less.prems assms(3) \<open>0 < ?left w\<close> by simp
      ultimately have "?left w2 < ?left w" by linarith
      from less.hyps [OF this d] obtain r' w' where "retry_loop E deadline cap d w2 = Some (r', w')"
        and "cnt w' \<le> cnt w2 + attempts_bound m (?left w2)" by blast
      with attempts_bound_step [OF assms(3) less.prems \<open>0 < ?left w\<close> left] c2 loop Inr
      show ?thesis by auto
    qed
  qed
qed

text \<open>
  C17. Retrying ends: if neither delay of the backoff is zero, the call returns, whatever the
  operation does and without any assumption that it takes time, and it makes at most
  \<open>timeout / min(initial, max) + 2\<close> attempts.
\<close>

theorem retry_terminates:
  assumes "env_laws E" and "counts_attempts E cnt"
    and "0 < bo_initial backoff" and "0 < bo_max backoff"
  shows "\<exists>r w'. retry_ownership E backoff w = Some (r, w')
    \<and> cnt w' \<le> cnt w + bo_timeout backoff div min (bo_initial backoff) (bo_max backoff) + 2"
proof (cases "add_duration (env_now E w) (bo_timeout backoff)")
  case (Inl p)
  then show ?thesis by (simp add: retry_ownership_def)
next
  case (Inr deadline)
  let ?m = "min (bo_initial backoff) (bo_max backoff)"
  have "deadline = env_now E w + int (bo_timeout backoff)"
    using Inr by (simp add: add_duration_def split: if_splits)
  then have left: "nat (deadline - env_now E w) = bo_timeout backoff" by simp
  have bound: "attempts_bound ?m n \<le> n div ?m + 2" for n by (simp add: attempts_bound_def)
  obtain r w' where "retry_loop E deadline (bo_max backoff) (bo_initial backoff) w = Some (r, w')"
    and "cnt w' \<le> cnt w + attempts_bound ?m (bo_timeout backoff)"
    using retry_loop_returns [OF assms(1,2), of ?m "bo_initial backoff" "bo_max backoff" deadline w]
      assms(3,4) left by auto
  with bound [of "bo_timeout backoff"] show ?thesis by (simp add: retry_ownership_def Inr)
qed

lemma retry_loop_no_panic:
  assumes "retry_loop E deadline cap delay w = Some out"
    and "2 * cap \<le> duration_max" and "2 * delay \<le> duration_max"
  shows "fst out \<noteq> Inl Panic"
  using assms
proof (induction rule: retry_loop.raw_induct [rotated 1, consumes 1, case_names step])
  case (step loop E deadline cap delay w out)
  obtain r w1 where op: "env_op E w = (r, w1)" by force
  have "next_delay cap delay = Inr (min (delay * 2) cap)" and "2 * min (delay * 2) cap \<le> duration_max"
    using step(3,4) by (simp_all add: next_delay_def mult.commute min_def)
  then show ?case
    using step(2) op step(1) step(3)
    by (cases r) (auto simp: Let_def split: if_splits)
qed

lemma backoff_new_returns:
  assumes "env_laws E" and "counts_attempts E cnt"
  shows "\<exists>r w'. retry_ownership E (backoff_new timeout) w = Some (r, w')
    \<and> cnt w' \<le> cnt w + timeout div nanos_per_sec + 2
    \<and> (r = Inl Panic \<longrightarrow> add_duration (env_now E w) timeout = Inl Panic)"
proof (cases "add_duration (env_now E w) timeout")
  case (Inl p)
  then show ?thesis by (auto simp: retry_ownership_def backoff_new_def dest: add_duration_error)
next
  case (Inr deadline)
  have left: "nat (deadline - env_now E w) = timeout"
    using Inr by (simp add: add_duration_def split: if_splits)
  obtain r w' where out: "retry_loop E deadline (from_secs 5) (from_secs 1) w = Some (r, w')"
    and "cnt w' \<le> cnt w + attempts_bound nanos_per_sec timeout"
    using retry_loop_returns [OF assms, of nanos_per_sec "from_secs 1" "from_secs 5" deadline w] left
    by (auto simp: from_secs_def)
  moreover have "r \<noteq> Inl Panic"
    using retry_loop_no_panic [OF out] by (simp add: from_secs_def duration_max_def)
  moreover have "attempts_bound nanos_per_sec timeout \<le> timeout div nanos_per_sec + 2"
    by (simp add: attempts_bound_def)
  ultimately show ?thesis by (simp add: retry_ownership_def backoff_new_def Inr)
qed

text \<open>
  The library's own settings always end, with at most one attempt per second of the timeout and
  two more, and never panic on the delay: a panic can only come from a deadline that is no valid
  instant.
\<close>

theorem retry_defaults:
  assumes "env_laws E" and "counts_attempts E cnt"
  shows "\<exists>r w'. retry_ownership E (backoff_new timeout) w = Some (r, w')
    \<and> cnt w' \<le> cnt w + timeout div nanos_per_sec + 2
    \<and> (r = Inl Panic \<longrightarrow> add_duration (env_now E w) timeout = Inl Panic)"
  by (rule backoff_new_returns [OF assms])

section \<open>A concrete world\<close>

text \<open>The world is the time and the number of attempts; the third attempt succeeds.\<close>

definition demo_env :: "(int \<times> nat, nat) retry_env" where
  "demo_env =
     \<lparr>env_now = fst, env_sleep = (\<lambda>d (t, n). (t + int d, n)),
      env_op = (\<lambda>(t, n). (if n < 2 then Inl NotOwned else Inr n, (t, n + 1)))\<rparr>"

lemma demo_env_laws: "env_laws demo_env"
  by (auto simp: env_laws_def demo_env_def)

lemma demo_env_counts: "counts_attempts demo_env snd"
  by (auto simp: counts_attempts_def demo_env_def)

lemma demo_env_sel:
  "env_op demo_env (t, n) = (if n < 2 then Inl NotOwned else Inr n, (t, n + 1))"
  "env_now demo_env (t, n) = t" "env_sleep demo_env d (t, n) = (t + int d, n)"
  by (simp_all add: demo_env_def)

lemma demo_retry:
  "retry_ownership demo_env (backoff_new (from_secs 10)) (0, 0) = Some (Inr 2, (3000000000, 3))"
  by (simp add: retry_ownership_def backoff_new_def from_secs_def add_duration_def
      retry_loop.simps [of demo_env] demo_env_sel next_delay_def duration_max_def Let_def)

theorem retry_result_witness: "\<exists>w0. env_op demo_env w0 = (Inr 2, (3000000000, 3))"
  using retry_result [OF demo_retry] by simp

theorem retry_terminates_witness:
  "\<exists>r w'. retry_ownership demo_env (backoff_new (from_secs 10)) (0, 0) = Some (r, w') \<and> snd w' \<le> 12"
  using retry_terminates [OF demo_env_laws demo_env_counts, of "backoff_new (from_secs 10)" "(0, 0)"]
  by (simp add: backoff_new_def from_secs_def)

theorem retry_defaults_witness:
  "\<exists>r w'. retry_ownership demo_env (backoff_new (from_secs 10)) (0, 0) = Some (r, w') \<and> snd w' \<le> 12"
  using retry_defaults [OF demo_env_laws demo_env_counts, of "from_secs 10" "(0, 0)"]
  by (auto simp: from_secs_def)

end
