(* ===== verification/ProxyModel.thy ===== *)
theory ProxyModel
  imports RetryModel ClusterModel
begin

text \<open>
  Models \<open>splitter-client/src/proxy.rs\<close>: routing one request to a local value or to the remote
  owner, and the retrying variant.

  The \<open>Proxy\<close> trait is a record of the operations that \<open>handle\<close> uses. What they read (the grant
  map, the snapshot) is shared with other tasks, so each passes on a world \<open>'w\<close> and two reads in
  one call may differ. The caller's closures are arguments; \<open>remote\<close> returns a gRPC status.
\<close>

section \<open>Routing\<close>

record ('w, 'k, 'c, 'v) Proxy =
  px_resolve :: "'k \<Rightarrow> 'w \<Rightarrow> (ClientError + 'c) \<times> 'w"
  px_lookup :: "'k \<Rightarrow> GrantState list \<Rightarrow> 'w \<Rightarrow> 'v option \<times> 'w"

definition handle ::
  "('w, 'k, 'c, 'v) Proxy \<Rightarrow> 'k \<Rightarrow> 'req \<Rightarrow> ('c \<Rightarrow> 'req \<Rightarrow> 'w \<Rightarrow> (Status + 'resp) \<times> 'w) \<Rightarrow>
   ('v \<Rightarrow> 'req \<Rightarrow> 'w \<Rightarrow> (ClientError + 'resp) \<times> 'w) \<Rightarrow> 'w \<Rightarrow> (ClientError + 'resp) \<times> 'w" where
  "handle proxy key req remote local w =
     (case px_lookup proxy key [GrantState.Active] w of
        (Some v, w1) \<Rightarrow> local v req w1
      | (None, w1) \<Rightarrow>
          (case px_resolve proxy key w1 of
             (Inr client, w2) \<Rightarrow>
               (case remote client req w2 of
                  (Inr resp, w3) \<Rightarrow> (Inr resp, w3)
                | (Inl status, w3) \<Rightarrow> (Inl (from_grpc status), w3))
           | (Inl e, w2) \<Rightarrow>
               if e = NoResolution
               then (case px_lookup proxy key [] w2 of
                       (Some v, w3) \<Rightarrow> local v req w3
                     | (None, w3) \<Rightarrow> (Inl NotOwned, w3))
               else (Inl e, w2)))"

text \<open>The clock and \<open>sleep\<close> of the runtime come with the world.\<close>

definition handle_with_retry ::
  "('w \<Rightarrow> SystemTime) \<Rightarrow> (Duration \<Rightarrow> 'w \<Rightarrow> 'w) \<Rightarrow>
   ('w, 'k, 'c, 'v) Proxy \<Rightarrow> 'k \<Rightarrow> Duration \<Rightarrow> 'req \<Rightarrow> ('c \<Rightarrow> 'req \<Rightarrow> 'w \<Rightarrow> (Status + 'resp) \<times> 'w) \<Rightarrow>
   ('v \<Rightarrow> 'req \<Rightarrow> 'w \<Rightarrow> (ClientError + 'resp) \<times> 'w) \<Rightarrow> 'w \<Rightarrow> ((fault + 'resp) \<times> 'w) option" where
  "handle_with_retry now sleep proxy key timeout req remote local w =
     retry_ownership
       \<lparr>env_now = now, env_sleep = sleep, env_op = handle proxy key req remote local\<rparr>
       (backoff_new timeout) w"

section \<open>Routes\<close>

text \<open>What a single attempt decides to do, without doing it.\<close>

datatype ('c, 'v) route = ToLocal 'v | ToRemote 'c | Fails ClientError

definition chosen_route :: "('w, 'k, 'c, 'v) Proxy \<Rightarrow> 'k \<Rightarrow> 'w \<Rightarrow> ('c, 'v) route \<times> 'w" where
  "chosen_route proxy key w =
     (case px_lookup proxy key [GrantState.Active] w of
        (Some v, w1) \<Rightarrow> (ToLocal v, w1)
      | (None, w1) \<Rightarrow>
          (case px_resolve proxy key w1 of
             (Inr c, w2) \<Rightarrow> (ToRemote c, w2)
           | (Inl e, w2) \<Rightarrow>
               if e \<noteq> NoResolution then (Fails e, w2)
               else apfst (case_option (Fails NotOwned) ToLocal) (px_lookup proxy key [] w2)))"

fun follow_route ::
  "('c \<Rightarrow> 'req \<Rightarrow> 'w \<Rightarrow> (Status + 'resp) \<times> 'w) \<Rightarrow> ('v \<Rightarrow> 'req \<Rightarrow> 'w \<Rightarrow> (ClientError + 'resp) \<times> 'w) \<Rightarrow>
   'req \<Rightarrow> ('c, 'v) route \<times> 'w \<Rightarrow> (ClientError + 'resp) \<times> 'w" where
  "follow_route remote local req (ToLocal v, w) = local v req w"
| "follow_route remote local req (ToRemote c, w) = apfst (map_sum from_grpc id) (remote c req w)"
| "follow_route remote local req (Fails e, w) = (Inl e, w)"

lemma handle_follows:
  "handle proxy key req remote local w = follow_route remote local req (chosen_route proxy key w)"
  by (auto simp: handle_def chosen_route_def split: prod.split option.split sum.split)

text \<open>
  A remote handler's failure keeps its class over the wire. When the remote fails with a client
  error translated by \<open>into_grpc\<close>, the attempt fails with an error of the ownership class, which the
  retrying variant retries, exactly if the remote's own error was one, the remote was being revoked,
  or the remote was unreachable or unresolvable itself.
\<close>

lemma handle_remote_failure:
  assumes "chosen_route proxy key w = (ToRemote c, w1)"
    and "remote c req w1 = (Inl (into_grpc e), w2)"
  shows "\<exists>e'. handle proxy key req remote local w = (Inl e', w2)
    \<and> (is_ownership e' \<longleftrightarrow> is_ownership e \<or> e \<in> {ClientError.Revoked, NoResolution}
         \<or> (\<exists>s. e = Transport s \<and> st_code s \<in> {OutOfRange, Aborted})
         \<or> (\<exists>m. e = SessionClosed m) \<or> (\<exists>m. e = TransportSetup m))"
proof -
  have "handle proxy key req remote local w = (Inl (from_grpc (into_grpc e)), w2)"
    by (simp add: handle_follows assms)
  moreover have "is_ownership (from_grpc (into_grpc e)) \<longleftrightarrow>
      is_ownership e \<or> e \<in> {ClientError.Revoked, NoResolution}
         \<or> (\<exists>s. e = Transport s \<and> st_code s \<in> {OutOfRange, Aborted})
         \<or> (\<exists>m. e = SessionClosed m) \<or> (\<exists>m. e = TransportSetup m)"
    by (cases e) (auto simp: from_grpc_def split: Code.split)
  ultimately show ?thesis by blast
qed

section \<open>The calls of a request\<close>

text \<open>
  The same code run with a proxy and closures that record each of their calls, with what it gave,
  behind the world. Nothing that is recorded is read.
\<close>

datatype ('c, 'v, 'resp) call =
    AskLookup "GrantState list" "'v option"
  | AskResolve "ClientError + 'c"
  | CallRemote 'c "Status + 'resp"
  | CallLocal 'v "ClientError + 'resp"

definition logged :: "('r \<Rightarrow> 'e) \<Rightarrow> ('w \<Rightarrow> 'r \<times> 'w) \<Rightarrow> 'w \<times> 'e list \<Rightarrow> 'r \<times> ('w \<times> 'e list)" where
  "logged entry f s = (case f (fst s) of (r, w) \<Rightarrow> (r, (w, snd s @ [entry r])))"

definition logged_proxy :: "('w, 'k, 'c, 'v) Proxy \<Rightarrow> ('w \<times> ('c, 'v, 'resp) call list, 'k, 'c, 'v) Proxy" where
  "logged_proxy proxy =
     \<lparr>px_resolve = (\<lambda>k. logged AskResolve (px_resolve proxy k)),
      px_lookup = (\<lambda>k ss. logged (AskLookup ss) (px_lookup proxy k ss))\<rparr>"

definition logged_remote ::
  "('c \<Rightarrow> 'req \<Rightarrow> 'w \<Rightarrow> (Status + 'resp) \<times> 'w) \<Rightarrow> 'c \<Rightarrow> 'req \<Rightarrow> 'w \<times> ('c, 'v, 'resp) call list \<Rightarrow>
   (Status + 'resp) \<times> ('w \<times> ('c, 'v, 'resp) call list)" where
  "logged_remote remote c req = logged (CallRemote c) (remote c req)"

definition logged_local ::
  "('v \<Rightarrow> 'req \<Rightarrow> 'w \<Rightarrow> (ClientError + 'resp) \<times> 'w) \<Rightarrow> 'v \<Rightarrow> 'req \<Rightarrow> 'w \<times> ('c, 'v, 'resp) call list \<Rightarrow>
   (ClientError + 'resp) \<times> ('w \<times> ('c, 'v, 'resp) call list)" where
  "logged_local local v req = logged (CallLocal v) (local v req)"

text \<open>A call that passes the request on, and one after which there must not be another.\<close>

fun serving :: "('c, 'v, 'resp) call \<Rightarrow> bool" where
  "serving (CallRemote c r) = True"
| "serving (CallLocal v r) = True"
| "serving _ = False"

fun settles :: "('c, 'v, 'resp) call \<Rightarrow> bool" where
  "settles (CallRemote c r) = (case r of Inr v \<Rightarrow> True | Inl st \<Rightarrow> \<not> is_ownership (from_grpc st))"
| "settles (CallLocal v r) = (case r of Inr v \<Rightarrow> True | Inl e \<Rightarrow> \<not> is_ownership e)"
| "settles _ = False"

text \<open>
  The calls of one attempt: it passes the request on at the very end or not at all, to the client it
  has resolved or to the value it has found, and its result is what that call gave; without such
  a call it reports why there is nobody to call.
\<close>

definition one_attempt :: "ClientError + 'resp \<Rightarrow> ('c, 'v, 'resp) call list \<Rightarrow> bool" where
  "one_attempt r calls \<longleftrightarrow>
     calls \<noteq> [] \<and> list_all (\<lambda>c. \<not> serving c) (butlast calls)
     \<and> (case last calls of
          CallLocal v x \<Rightarrow> r = x
            \<and> (AskLookup [GrantState.Active] (Some v) \<in> set calls
               \<or> AskLookup [] (Some v) \<in> set calls \<and> AskResolve (Inl NoResolution) \<in> set calls
                 \<and> AskLookup [GrantState.Active] None \<in> set calls)
        | CallRemote c x \<Rightarrow> r = map_sum from_grpc id x
            \<and> AskResolve (Inr c) \<in> set calls \<and> AskLookup [GrantState.Active] None \<in> set calls
        | AskResolve x \<Rightarrow> (\<exists>e. x = Inl e \<and> e \<noteq> NoResolution \<and> r = Inl e)
            \<and> AskLookup [GrantState.Active] None \<in> set calls
        | AskLookup ss x \<Rightarrow> x = None \<and> ss = [] \<and> r = Inl NotOwned
            \<and> AskResolve (Inl NoResolution) \<in> set calls \<and> AskLookup [GrantState.Active] None \<in> set calls)"

abbreviation logged_handle ::
  "('w, 'k, 'c, 'v) Proxy \<Rightarrow> 'k \<Rightarrow> 'req \<Rightarrow> ('c \<Rightarrow> 'req \<Rightarrow> 'w \<Rightarrow> (Status + 'resp) \<times> 'w) \<Rightarrow>
   ('v \<Rightarrow> 'req \<Rightarrow> 'w \<Rightarrow> (ClientError + 'resp) \<times> 'w) \<Rightarrow> 'w \<times> ('c, 'v, 'resp) call list \<Rightarrow>
   (ClientError + 'resp) \<times> ('w \<times> ('c, 'v, 'resp) call list)" where
  "logged_handle proxy key req remote local \<equiv>
     handle (logged_proxy proxy) key req (logged_remote remote) (logged_local local)"

lemma logged_attempt:
  obtains r w' calls where "logged_handle proxy key req remote local (w, log) = (r, (w', log @ calls))"
    and "handle proxy key req remote local w = (r, w')" and "one_attempt r calls"
proof -
  have "\<exists>r w' calls. logged_handle proxy key req remote local (w, log) = (r, (w', log @ calls))
    \<and> handle proxy key req remote local w = (r, w') \<and> one_attempt r calls"
    by (simp add: handle_def logged_proxy_def logged_remote_def logged_local_def logged_def one_attempt_def
        split: prod.split option.split sum.split)
  then show thesis using that by blast
qed

text \<open>No attempt but the last one of a retried request settled it.\<close>

lemma settles_serving: "settles c \<Longrightarrow> serving c"
  by (cases c) simp_all

lemma one_attempt_settles:
  assumes "one_attempt r calls"
  shows "list_all (\<lambda>c. \<not> settles c) (butlast calls)"
    and "r = Inl e \<Longrightarrow> is_ownership e \<Longrightarrow> list_all (\<lambda>c. \<not> settles c) calls"
proof -
  show front: "list_all (\<lambda>c. \<not> settles c) (butlast calls)"
    using assms settles_serving by (auto simp: one_attempt_def list_all_iff)
  assume e: "r = Inl e" "is_ownership e"
  have "\<not> settles (last calls)"
    using assms e by (cases "last calls") (auto simp: one_attempt_def split: sum.splits)
  moreover have "calls = butlast calls @ [last calls]" using assms by (simp add: one_attempt_def)
  ultimately show "list_all (\<lambda>c. \<not> settles c) calls" using front by (metis list_all_append list.pred_inject)
qed

section \<open>Retrying\<close>

text \<open>The laws the retry loop needs, for the closures and the proxy of a call.\<close>

definition proxy_laws ::
  "('w \<Rightarrow> SystemTime) \<Rightarrow> (Duration \<Rightarrow> 'w \<Rightarrow> 'w) \<Rightarrow> ('w, 'k, 'c, 'v) Proxy \<Rightarrow>
   ('c \<Rightarrow> 'req \<Rightarrow> 'w \<Rightarrow> (Status + 'resp) \<times> 'w) \<Rightarrow> ('v \<Rightarrow> 'req \<Rightarrow> 'w \<Rightarrow> (ClientError + 'resp) \<times> 'w) \<Rightarrow> bool" where
  "proxy_laws now sleep proxy remote local \<longleftrightarrow>
     (\<forall>d w. now w + int d \<le> now (sleep d w))
     \<and> (\<forall>k ss w. now w \<le> now (snd (px_lookup proxy k ss w)))
     \<and> (\<forall>k w. now w \<le> now (snd (px_resolve proxy k w)))
     \<and> (\<forall>c req w. now w \<le> now (snd (remote c req w)))
     \<and> (\<forall>v req w. now w \<le> now (snd (local v req w)))"

lemma chosen_route_now:
  assumes "proxy_laws now sleep proxy remote local"
  shows "now w \<le> now (snd (chosen_route proxy key w))"
proof -
  have look: "now w \<le> now (snd (px_lookup proxy k ss w))"
    and res: "now w \<le> now (snd (px_resolve proxy k w))" for k ss w
    using assms by (simp_all add: proxy_laws_def)
  obtain v w1 where 1: "px_lookup proxy key [GrantState.Active] w = (v, w1)" by force
  obtain r w2 where 2: "px_resolve proxy key w1 = (r, w2)" by force
  have "now w \<le> now w1" "now w1 \<le> now w2" "now w2 \<le> now (snd (px_lookup proxy key [] w2))"
    using look [of w key "[GrantState.Active]"] res [of w1 key] look 1 2 by simp_all
  then show ?thesis
    by (auto simp: chosen_route_def 1 2 split: option.split sum.split)
qed

lemma handle_now:
  assumes "proxy_laws now sleep proxy remote local"
  shows "now w \<le> now (snd (handle proxy key req remote local w))"
proof -
  obtain r w1 where r: "chosen_route proxy key w = (r, w1)" by force
  then have "now w \<le> now w1" using chosen_route_now [OF assms, of w key] by simp
  also have "now w1 \<le> now (snd (follow_route remote local req (r, w1)))"
    using assms by (cases r) (simp_all add: proxy_laws_def)
  finally show ?thesis by (simp add: handle_follows r)
qed

lemma handle_env_laws:
  assumes "proxy_laws now sleep proxy remote local"
  shows "env_laws \<lparr>env_now = now, env_sleep = sleep, env_op = handle proxy key req remote local\<rparr>"
proof -
  have "now w + int d \<le> now (sleep d w)" for d w using assms by (simp add: proxy_laws_def)
  then show ?thesis using handle_now [OF assms] by (simp add: env_laws_def)
qed

text \<open>
  Retrying routing always returns. It returns what one of its attempts returned; and if that is
  an error of the ownership class (in particular \<open>NotOwned\<close> for a key that nobody owns yet), the
  whole timeout has passed.
\<close>

theorem handle_with_retry_returns:
  assumes "proxy_laws now sleep proxy remote local"
  shows "\<exists>r w'. handle_with_retry now sleep proxy key timeout req remote local w = Some (r, w')
    \<and> (case r of
         Inr v \<Rightarrow> \<exists>w0. handle proxy key req remote local w0 = (Inr v, w')
       | Inl (Err e) \<Rightarrow> (\<exists>w0. handle proxy key req remote local w0 = (Inl e, w'))
           \<and> (is_ownership e \<longrightarrow> now w + int timeout \<le> now w')
       | Inl Panic \<Rightarrow> add_duration (now w) timeout = Inl Panic)"
proof -
  let ?E = "\<lparr>env_now = now, env_sleep = sleep, env_op = handle proxy key req remote local\<rparr>"
  have "counts_attempts ?E (\<lambda>_. 0)" by (simp add: counts_attempts_def)
  from backoff_new_returns [OF handle_env_laws [OF assms] this, of timeout w]
  obtain r w' where out: "retry_ownership ?E (backoff_new timeout) w = Some (r, w')"
    and panic: "r = Inl Panic \<longrightarrow> add_duration (now w) timeout = Inl Panic" by auto
  have "case r of
         Inr v \<Rightarrow> \<exists>w0. handle proxy key req remote local w0 = (Inr v, w')
       | Inl (Err e) \<Rightarrow> (\<exists>w0. handle proxy key req remote local w0 = (Inl e, w'))
           \<and> (is_ownership e \<longrightarrow> now w + int timeout \<le> now w')
       | Inl Panic \<Rightarrow> add_duration (now w) timeout = Inl Panic"
    using retry_ownership_result [OF out] panic
    by (auto simp: backoff_new_def split: sum.splits fault.splits)
  with out show ?thesis unfolding handle_with_retry_def by blast
qed

text \<open>A retried request with its calls recorded is the same request.\<close>

abbreviation logged_env ::
  "('w \<Rightarrow> SystemTime) \<Rightarrow> (Duration \<Rightarrow> 'w \<Rightarrow> 'w) \<Rightarrow> ('w \<times> 'e list \<Rightarrow> (ClientError + 'resp) \<times> 'w \<times> 'e list) \<Rightarrow>
   ('w \<times> 'e list, 'resp) retry_env" where
  "logged_env now sleep op \<equiv>
     \<lparr>env_now = now \<circ> fst, env_sleep = (\<lambda>d s. (sleep d (fst s), snd s)), env_op = op\<rparr>"

lemma logged_laws:
  assumes "proxy_laws now sleep proxy remote local"
  shows "proxy_laws (now \<circ> fst) (\<lambda>d s. (sleep d (fst s), snd s)) (logged_proxy proxy) (logged_remote remote) (logged_local local)"
  using assms by (simp add: proxy_laws_def logged_proxy_def logged_remote_def logged_local_def logged_def split_beta)

text \<open>
  C26. A request is passed on at most once per attempt, as the last thing the attempt does, to the remote
  client that it has resolved when there is no active local value, or to a local value it has
  found: the active one, or one in any state when nothing could be resolved; its outcome is the
  outcome of the attempt, translated if it is a gRPC status. An attempt that calls nobody fails
  with the error of the resolution, or with \<open>NotOwned\<close> instead of \<open>NoResolution\<close>. A retried request returns,
  and its calls are those of attempts that each left it open, followed by those of the attempt
  whose outcome is returned: a request is never passed on again after it was answered or was
  refused for a reason other than ownership. The calls are recorded without a change to the outcome.
\<close>

theorem handle_calls_once:
  assumes "proxy_laws now sleep proxy remote local"
  shows "(\<exists>r w' calls. logged_handle proxy key req remote local (w, []) = (r, (w', calls))
      \<and> handle proxy key req remote local w = (r, w') \<and> one_attempt r calls)
    \<and> (\<exists>r w' before attempt.
         handle_with_retry (now \<circ> fst) (\<lambda>d s. (sleep d (fst s), snd s)) (logged_proxy proxy) key timeout req
           (logged_remote remote) (logged_local local) (w, []) = Some (r, (w', before @ attempt))
         \<and> handle_with_retry now sleep proxy key timeout req remote local w = Some (r, w')
         \<and> list_all (\<lambda>c. \<not> settles c) before
         \<and> (case r of
              Inr v \<Rightarrow> one_attempt (Inr v) attempt
            | Inl (Err e) \<Rightarrow> one_attempt (Inl e) attempt
            | Inl Panic \<Rightarrow> attempt = []))"
proof
  obtain r w' calls where "logged_handle proxy key req remote local (w, []) = (r, (w', [] @ calls))"
    "handle proxy key req remote local w = (r, w')" "one_attempt r calls" by (rule logged_attempt)
  then show "\<exists>r w' calls. logged_handle proxy key req remote local (w, []) = (r, (w', calls))
      \<and> handle proxy key req remote local w = (r, w') \<and> one_attempt r calls" by simp
next
  let ?op = "logged_handle proxy key req remote local"
  let ?E = "logged_env now sleep ?op"
  let ?F = "\<lparr>env_now = now, env_sleep = sleep, env_op = handle proxy key req remote local\<rparr>"
  let ?P = "\<lambda>s. list_all (\<lambda>c. \<not> settles c) (snd s)"
  let ?Q = "\<lambda>r s. \<exists>before attempt. snd s = before @ attempt \<and> list_all (\<lambda>c. \<not> settles c) before
      \<and> (case r of Inr v \<Rightarrow> one_attempt (Inr v) attempt | Inl (Err e) \<Rightarrow> one_attempt (Inl e) attempt
           | Inl Panic \<Rightarrow> attempt = [])"
  obtain r s where out: "retry_ownership ?E (backoff_new timeout) (w, []) = Some (r, s)"
  proof -
    have "counts_attempts ?E (\<lambda>_. 0)" by (simp add: counts_attempts_def)
    from backoff_new_returns [OF handle_env_laws [OF logged_laws [OF assms]] this, of timeout "(w, [])"] that
    show thesis by blast
  qed
  have "attempts_keep ?E ?P ?Q"
    unfolding attempts_keep_def
  proof (intro conjI allI impI)
    fix s r s1 assume p: "?P s" and op: "env_op ?E s = (r, s1)"
    obtain r' w1 calls where "?op (fst s, snd s) = (r', (w1, snd s @ calls))" and one: "one_attempt r' calls"
      by (rule logged_attempt)
    then have s1: "r' = r" "s1 = (w1, snd s @ calls)" using op by simp_all
    show "?Q (map_sum Err id r) s1" using p one s1 by (cases r) auto
    show "?P s1" if "r = Inl e" "is_ownership e" for e
      using p one_attempt_settles(2) [OF one] that s1 by simp
  qed auto
  from retry_ownership_keeps [OF out this] have q: "?Q r s" by simp
  have same: "handle proxy key req remote local (fst s) = (fst (?op s), fst (snd (?op s)))" for s
  proof -
    obtain r w1 calls where "?op (fst s, snd s) = (r, (w1, snd s @ calls))"
      "handle proxy key req remote local (fst s) = (r, w1)" by (rule logged_attempt)
    then show ?thesis by simp
  qed
  have "retry_ownership ?F (backoff_new timeout) w = Some (r, fst s)"
    using retry_ownership_abs [OF out, where f = fst and F = ?F] by (simp add: same)
  with out q show "\<exists>r w' before attempt.
      handle_with_retry (now \<circ> fst) (\<lambda>d s. (sleep d (fst s), snd s)) (logged_proxy proxy) key timeout req
        (logged_remote remote) (logged_local local) (w, []) = Some (r, (w', before @ attempt))
      \<and> handle_with_retry now sleep proxy key timeout req remote local w = Some (r, w')
      \<and> list_all (\<lambda>c. \<not> settles c) before
      \<and> (case r of Inr v \<Rightarrow> one_attempt (Inr v) attempt | Inl (Err e) \<Rightarrow> one_attempt (Inl e) attempt
           | Inl Panic \<Rightarrow> attempt = [])"
    unfolding handle_with_retry_def by (cases s) auto
qed

text \<open>
  A proxy for a key that is first unowned and then owned by a remote that is draining until
  second 3: the world is the time.
\<close>

definition demo_proxy :: "(int, string, string, string) Proxy" where
  "demo_proxy =
     \<lparr>px_resolve = (\<lambda>k w. (if w < 1000000000 then Inl NoResolution else Inr ''peer'', w)),
      px_lookup = (\<lambda>k ss w. (None, w))\<rparr>"

definition demo_remote :: "string \<Rightarrow> string \<Rightarrow> int \<Rightarrow> (Status + string) \<times> int" where
  "demo_remote c req w =
     (if w < 3000000000 then Inl (into_grpc ClientError.Draining) else Inr (c @ req), w)"

definition demo_local :: "string \<Rightarrow> string \<Rightarrow> int \<Rightarrow> (ClientError + string) \<times> int" where
  "demo_local v req w = (Inr v, w)"

lemma demo_proxy_laws:
  "proxy_laws (\<lambda>w. w) (\<lambda>d w. w + int d) demo_proxy demo_remote demo_local"
  by (simp add: proxy_laws_def demo_proxy_def demo_remote_def demo_local_def)

lemma demo_proxy_run:
  "handle_with_retry (\<lambda>w. w) (\<lambda>d w. w + int d) demo_proxy ''k'' (from_secs 10) ''x'' demo_remote demo_local 0
     = Some (Inr ''peerx'', 3000000000)"
  by (simp add: handle_with_retry_def retry_ownership_def backoff_new_def from_secs_def add_duration_def
      retry_loop.simps handle_def demo_proxy_def demo_remote_def next_delay_def duration_max_def
      from_grpc_def Let_def)

theorem handle_calls_once_witness:
  "\<exists>before attempt.
     handle_with_retry ((\<lambda>w. w) \<circ> fst) (\<lambda>d s. (fst s + int d, snd s)) (logged_proxy demo_proxy) ''k'' (from_secs 10) ''x''
       (logged_remote demo_remote) (logged_local demo_local) (0, []) = Some (Inr ''peerx'', (3000000000, before @ attempt))
     \<and> list_all (\<lambda>c. \<not> settles c) before \<and> one_attempt (Inr ''peerx'') attempt"
proof -
  obtain r w' before attempt where
    out: "handle_with_retry ((\<lambda>w. w) \<circ> fst) (\<lambda>d s. (fst s + int d, snd s)) (logged_proxy demo_proxy) ''k'' (from_secs 10) ''x''
       (logged_remote demo_remote) (logged_local demo_local) (0, []) = Some (r, (w', before @ attempt))"
    and same: "handle_with_retry (\<lambda>w. w) (\<lambda>d w. w + int d) demo_proxy ''k'' (from_secs 10) ''x'' demo_remote demo_local 0 = Some (r, w')"
    and calls: "list_all (\<lambda>c. \<not> settles c) before"
      "case r of Inr v \<Rightarrow> one_attempt (Inr v) attempt | Inl (Err e) \<Rightarrow> one_attempt (Inl e) attempt | Inl Panic \<Rightarrow> attempt = []"
    using handle_calls_once [OF demo_proxy_laws, of "''k''" "''x''" 0 "from_secs 10"] by blast
  have "r = Inr ''peerx''" "w' = 3000000000" using same by (simp_all add: demo_proxy_run)
  with out calls show ?thesis by auto
qed

theorem handle_with_retry_returns_witness:
  "\<exists>r w'. handle_with_retry (\<lambda>w. w) (\<lambda>d w. w + int d) demo_proxy ''k'' (from_secs 10) ''x''
       demo_remote demo_local 0 = Some (r, w') \<and> r = Inr ''peerx''"
  using handle_with_retry_returns [OF demo_proxy_laws, of "''k''" "from_secs 10" "''x''" 0]
  by (simp add: demo_proxy_run)

end
