(* ===== verification/ProcessorModel.thy ===== *)
theory ProcessorModel
  imports OwnershipModel GrantMaps
begin

text \<open>
  Models \<open>splitter-client/src/processor.rs\<close>: the per-grant state machine \<open>run_grant\<close> of a
  \<open>Processor\<close>, its clean-up guard, and the table shared by all grants.

  A run of \<open>run_grant\<close> is a record with a program counter. Between two awaits other threads may
  do anything, so every statement with an effect is a step of its own: \<open>moves\<close> lists what the task
  of a run can do next in the current state, as pairs of the next program counter and an effect.
  The steps of the environment are those of the driver and the user on an \<open>Ownership\<close>, of the user's
  \<open>Range\<close> (a type of the caller: all that is used of it are two latches, the latch its \<open>drain\<close>
  returns, and the calls of \<open>drain\<close> and \<open>close\<close>), the start of another run, and cancellation of a
  run's task at an await, which drops the guard. An \<open>Arc<Range>\<close> in the table is the index of its run.
\<close>

section \<open>State\<close>

datatype pc =
    Step1             \<comment> \<open>awaiting \<open>wait_for_unload\<close>\<close>
  | Step2Allocate     \<comment> \<open>before \<open>grants.allocated\<close>\<close>
  | Step2             \<comment> \<open>awaiting initialisation\<close>
  | Step2Load         \<comment> \<open>before \<open>loader.load\<close>\<close>
  | Step2Loaded       \<comment> \<open>before \<open>grants.loaded\<close>\<close>
  | Step3             \<comment> \<open>awaiting \<open>wait_for_active\<close>\<close>
  | Step3Activate     \<comment> \<open>before \<open>grants.activate\<close>\<close>
  | Step4             \<comment> \<open>awaiting \<open>wait_for_revoke\<close>\<close>
  | Step4Revoke       \<comment> \<open>before \<open>grants.revoke\<close>\<close>
  | Step4Drain        \<comment> \<open>before calling \<open>range.drain\<close>\<close>
  | Step4Draining     \<comment> \<open>awaiting the future of \<open>range.drain\<close>\<close>
  | Step5             \<comment> \<open>awaiting the latch that \<open>drain\<close> returned\<close>
  | Step5Check        \<comment> \<open>before \<open>range.closed().is_closed()\<close>\<close>
  | Step5Unload       \<comment> \<open>before \<open>unloader.unload\<close>\<close>
  | Step5Unloaded     \<comment> \<open>before \<open>grants.unloaded\<close>\<close>
  | Step5Load         \<comment> \<open>awaiting \<open>wait_for_load\<close>\<close>
  | Cleanup           \<comment> \<open>in \<open>GrantCleanup::drop\<close>, before \<open>grants.delete\<close>\<close>
  | CleanupClose      \<comment> \<open>before \<open>range.close\<close>\<close>
  | Exited

record range =
  rg_initialized :: latch
  rg_closed :: latch
  rg_drain_returned :: bool         \<comment> \<open>the future of \<open>drain\<close> is ready\<close>
  rg_drained :: latch               \<comment> \<open>the latch that \<open>drain\<close> returns\<close>
  rg_drain_calls :: "Duration list"
  rg_close_calls :: nat

definition range_new :: "bool \<Rightarrow> range" where
  "range_new initialized =
     \<lparr>rg_initialized = Latch initialized, rg_closed = fresh_latch, rg_drain_returned = False,
      rg_drained = fresh_latch, rg_drain_calls = [], rg_close_calls = 0\<rparr>"

record run =
  rn_id :: GrantId
  rn_shard :: Shard
  rn_own :: Ownership
  rn_range :: range
  rn_pc :: pc

record processor =
  pr_initialized :: latch
  pr_grants :: "nat GrantMap"
  pr_runs :: "run list"

definition processor_new :: processor where
  "processor_new = \<lparr>pr_initialized = fresh_latch, pr_grants = gm_new, pr_runs = []\<rparr>"

definition processor_init :: "processor \<Rightarrow> processor" where
  "processor_init p = p\<lparr>pr_initialized := close_latch (pr_initialized p)\<rparr>"

section \<open>What a run does next\<close>

datatype effect = NoEffect | Write GrantState | CallLoad | CallDrain Duration | CallUnload | Delete | CallClose

text \<open>A wait with \<open>?\<close>-like handling: success continues, an error returns and drops the guard.\<close>

definition continue_or_bail :: "pc \<Rightarrow> (ClientError + 'a) list \<Rightarrow> (pc \<times> effect) list" where
  "continue_or_bail next results =
     map (\<lambda>r. case r of Inr _ \<Rightarrow> (next, NoEffect) | Inl e \<Rightarrow> (Cleanup, NoEffect)) results"

fun moves_at :: "pc \<Rightarrow> SystemTime \<Rightarrow> Ownership \<Rightarrow> range \<Rightarrow> (pc \<times> effect) list" where
  "moves_at Step1 now w g = continue_or_bail Step2Allocate (wait_for_unload w)"
| "moves_at Step2Allocate now w g = [(Step2, Write GrantState.Allocated)]"
| "moves_at Step2 now w g =
     continue_or_bail Step2Load (wait_for_action w (rg_initialized g))
     @ select_ready [(is_closed (rg_closed g), (Cleanup, NoEffect))]"
| "moves_at Step2Load now w g = [(Step2Loaded, CallLoad)]"
| "moves_at Step2Loaded now w g = [(Step3, Write GrantState.AllocatedLoaded)]"
| "moves_at Step3 now w g = continue_or_bail Step3Activate (wait_for_active w)"
| "moves_at Step3Activate now w g = [(Step4, Write GrantState.Active)]"
| "moves_at Step4 now w g = continue_or_bail Step4Revoke (wait_for_revoke w)"
| "moves_at Step4Revoke now w g = [(Step4Drain, Write GrantState.Revoked)]"
| "moves_at Step4Drain now w g = [(Step4Draining, CallDrain (time_left (ow_expiration w) now))]"
| "moves_at Step4Draining now w g = select_ready [(rg_drain_returned g, (Step5, NoEffect))]"
| "moves_at Step5 now w g = continue_or_bail Step5Check (wait_for_action w (rg_drained g))"
| "moves_at Step5Check now w g = [(if is_closed (rg_closed g) then Cleanup else Step5Unload, NoEffect)]"
| "moves_at Step5Unload now w g = [(Step5Unloaded, CallUnload)]"
| "moves_at Step5Unloaded now w g = [(Step5Load, Write GrantState.RevokedUnloaded)]"
| "moves_at Step5Load now w g = continue_or_bail Cleanup (wait_for_load w)"
| "moves_at Cleanup now w g = [(CleanupClose, Delete)]"
| "moves_at CleanupClose now w g = [(Exited, CallClose)]"
| "moves_at Exited now w g = []"

definition moves :: "SystemTime \<Rightarrow> run \<Rightarrow> (pc \<times> effect) list" where
  "moves now r = moves_at (rn_pc r) now (rn_own r) (rn_range r)"

text \<open>\<open>gm_write\<close> with each of the five states is the table's \<open>allocated\<close>, \<open>loaded\<close>, \<open>activate\<close>,
  \<open>revoke\<close> and \<open>unloaded\<close>.\<close>

fun effect_on_table :: "effect \<Rightarrow> nat \<Rightarrow> run \<Rightarrow> nat GrantMap \<Rightarrow> nat GrantMap" where
  "effect_on_table (Write st) i r m = gm_write m (rn_id r) (rn_shard r) st i"
| "effect_on_table Delete i r m = snd (gm_delete m (rn_id r))"
| "effect_on_table _ i r m = m"

fun effect_on_run :: "effect \<Rightarrow> run \<Rightarrow> run" where
  "effect_on_run CallLoad r = r\<lparr>rn_own := load (rn_own r)\<rparr>"
| "effect_on_run CallUnload r = r\<lparr>rn_own := unload (rn_own r)\<rparr>"
| "effect_on_run (CallDrain t) r =
     r\<lparr>rn_range := (rn_range r)\<lparr>rg_drain_calls := rg_drain_calls (rn_range r) @ [t]\<rparr>\<rparr>"
| "effect_on_run CallClose r =
     r\<lparr>rn_range := (rn_range r)\<lparr>rg_close_calls := rg_close_calls (rn_range r) + 1\<rparr>\<rparr>"
| "effect_on_run _ r = r"

definition move_run :: "nat \<Rightarrow> pc \<times> effect \<Rightarrow> processor \<Rightarrow> processor" where
  "move_run i mv p =
     (let r = pr_runs p ! i
      in p\<lparr>pr_runs := (pr_runs p)[i := (effect_on_run (snd mv) r)\<lparr>rn_pc := fst mv\<rparr>],
            pr_grants := effect_on_table (snd mv) i r (pr_grants p)\<rparr>)"

section \<open>The environment\<close>

text \<open>\<open>try_handle\<close> once the processor is initialised, by whether the factory builds a range.\<close>

definition run_new :: "GrantId \<Rightarrow> Shard \<Rightarrow> Ownership \<Rightarrow> range \<Rightarrow> run" where
  "run_new i shard w g = \<lparr>rn_id = i, rn_shard = shard, rn_own = w, rn_range = g, rn_pc = Step1\<rparr>"

definition try_handle ::
  "(GrantId \<Rightarrow> Shard \<Rightarrow> Ownership \<Rightarrow> range option) \<Rightarrow> GrantId \<Rightarrow> Shard \<Rightarrow> Ownership \<Rightarrow>
   processor \<Rightarrow> (bool \<times> processor) option" where
  "try_handle build i shard w p =
     (if \<not> is_closed (pr_initialized p) then None
      else case build i shard w of
             None \<Rightarrow> Some (False, p)
           | Some g \<Rightarrow> Some (True, p\<lparr>pr_runs := pr_runs p @ [run_new i shard w g]\<rparr>))"

text \<open>What the owner of a range may do to it at any time.\<close>

datatype range_op = Initialize | SelfClose | DrainReturns | DrainDone

fun range_apply :: "range_op \<Rightarrow> range \<Rightarrow> range" where
  "range_apply Initialize g = g\<lparr>rg_initialized := close_latch (rg_initialized g)\<rparr>"
| "range_apply SelfClose g = g\<lparr>rg_closed := close_latch (rg_closed g)\<rparr>"
| "range_apply DrainReturns g =
     (if rg_drain_calls g = [] then g else g\<lparr>rg_drain_returned := True\<rparr>)"
| "range_apply DrainDone g =
     (if rg_drain_calls g = [] then g else g\<lparr>rg_drained := close_latch (rg_drained g)\<rparr>)"

text \<open>The operations of the driver on an ownership, and the user's request for revocation.\<close>

definition driver_op :: "own_op \<Rightarrow> bool" where
  "driver_op x \<longleftrightarrow> x \<noteq> own_op.Load \<and> x \<noteq> own_op.Unload"

definition at_await :: "pc \<Rightarrow> bool" where
  "at_await c \<longleftrightarrow> c \<in> {Step1, Step2, Step3, Step4, Step4Draining, Step5, Step5Load}"

definition set_run :: "nat \<Rightarrow> run \<Rightarrow> processor \<Rightarrow> processor" where
  "set_run i r p = p\<lparr>pr_runs := (pr_runs p)[i := r]\<rparr>"

text \<open>A new range has not been drained or closed by the processor.\<close>

definition range_fresh :: "range \<Rightarrow> bool" where
  "range_fresh g \<longleftrightarrow> rg_drain_calls g = [] \<and> rg_close_calls g = 0
     \<and> \<not> rg_drain_returned g \<and> \<not> is_closed (rg_drained g)"

definition own_fresh :: "Ownership \<Rightarrow> bool" where
  "own_fresh w \<longleftrightarrow> \<not> is_closed (ld_load (ow_loader w)) \<and> \<not> is_closed (ul_unload (ow_unloader w))"

inductive proc_step :: "processor \<Rightarrow> processor \<Rightarrow> bool" where
  init: "proc_step p (processor_init p)"
| accept: "try_handle build i shard w p = Some (b, p') \<Longrightarrow> own_fresh w \<Longrightarrow>
     (\<And>g. build i shard w = Some g \<Longrightarrow> range_fresh g) \<Longrightarrow> proc_step p p'"
| move: "i < length (pr_runs p) \<Longrightarrow> mv \<in> set (moves now (pr_runs p ! i)) \<Longrightarrow>
     proc_step p (move_run i mv p)"
| driver: "i < length (pr_runs p) \<Longrightarrow> driver_op x \<Longrightarrow> r = pr_runs p ! i \<Longrightarrow>
     proc_step p (set_run i (r\<lparr>rn_own := own_apply x (rn_own r)\<rparr>) p)"
| user_range: "i < length (pr_runs p) \<Longrightarrow> r = pr_runs p ! i \<Longrightarrow>
     proc_step p (set_run i (r\<lparr>rn_range := range_apply x (rn_range r)\<rparr>) p)"
| cancel: "i < length (pr_runs p) \<Longrightarrow> r = pr_runs p ! i \<Longrightarrow> at_await (rn_pc r) \<Longrightarrow>
     proc_step p (set_run i (r\<lparr>rn_pc := Cleanup\<rparr>) p)"

definition proc_start :: "processor \<Rightarrow> bool" where
  "proc_start p \<longleftrightarrow> p = processor_new"

section \<open>Invariant of a run\<close>

text \<open>How far a run has come; clean-up comes last.\<close>

fun rank :: "pc \<Rightarrow> nat" where
  "rank Step1 = 0" | "rank Step2Allocate = 1" | "rank Step2 = 2" | "rank Step2Load = 3"
| "rank Step2Loaded = 4" | "rank Step3 = 5" | "rank Step3Activate = 6" | "rank Step4 = 7"
| "rank Step4Revoke = 8" | "rank Step4Drain = 9" | "rank Step4Draining = 10" | "rank Step5 = 11"
| "rank Step5Check = 12" | "rank Step5Unload = 13" | "rank Step5Unloaded = 14" | "rank Step5Load = 15"
| "rank Cleanup = 16" | "rank CleanupClose = 17" | "rank Exited = 18"

lemma moves_advance: "(c, e) \<in> set (moves now r) \<Longrightarrow> rank (rn_pc r) < rank c"
  unfolding moves_def
  by (cases "rn_pc r")
    (auto simp: continue_or_bail_def split: if_splits sum.splits)

text \<open>
  The signals of a run by program counter: \<open>act\<close>, \<open>unl\<close> and \<open>rvk\<close> are the driver's (active, counterpart
  unloaded, revoked), \<open>ini\<close> and \<open>drd\<close> the range's (initialised, drained), \<open>drc\<close> says that \<open>drain\<close> was
  called, \<open>ld\<close> and \<open>ul\<close> that \<open>load\<close> and \<open>unload\<close> were signalled.
\<close>

definition signals_ok :: "pc \<Rightarrow> bool \<Rightarrow> bool \<Rightarrow> bool \<Rightarrow> bool \<Rightarrow> bool \<Rightarrow> bool \<Rightarrow> bool \<Rightarrow> bool \<Rightarrow> bool" where
  "signals_ok c act unl rvk ini drd drc ld ul \<longleftrightarrow>
     (ld \<longrightarrow> ini \<and> (act \<or> unl))
     \<and> (ul \<longrightarrow> ld \<and> act \<and> rvk \<and> drd \<and> drc)
     \<and> (rank c < 16 \<longrightarrow>
          (1 \<le> rank c \<longrightarrow> act \<or> unl) \<and> (3 \<le> rank c \<longrightarrow> ini) \<and> (ld \<longleftrightarrow> 4 \<le> rank c)
          \<and> (6 \<le> rank c \<longrightarrow> act) \<and> (8 \<le> rank c \<longrightarrow> rvk) \<and> (drc \<longleftrightarrow> 10 \<le> rank c)
          \<and> (12 \<le> rank c \<longrightarrow> drd) \<and> (ul \<longleftrightarrow> 14 \<le> rank c))"

definition run_inv :: "run \<Rightarrow> bool" where
  "run_inv r \<longleftrightarrow>
     signals_ok (rn_pc r) (is_closed (ow_active (rn_own r))) (is_closed (ld_unloaded (ow_loader (rn_own r))))
       (is_closed (ow_revoked (rn_own r))) (is_closed (rg_initialized (rn_range r)))
       (is_closed (rg_drained (rn_range r))) (rg_drain_calls (rn_range r) \<noteq> [])
       (is_closed (ld_load (ow_loader (rn_own r)))) (is_closed (ul_unload (ow_unloader (rn_own r))))
     \<and> length (rg_drain_calls (rn_range r)) \<le> 1
     \<and> rg_close_calls (rn_range r) = (if rn_pc r = Exited then 1 else 0)"

lemma signals_mono:
  assumes "signals_ok c act unl rvk ini drd drc ld ul"
    and "act \<longrightarrow> act'" and "unl \<longrightarrow> unl'" and "rvk \<longrightarrow> rvk'" and "ini \<longrightarrow> ini'" and "drd \<longrightarrow> drd'"
  shows "signals_ok c act' unl' rvk' ini' drd' drc ld ul"
  using assms unfolding signals_ok_def by blast

lemma signals_end:
  "signals_ok c act unl rvk ini drd drc ld ul \<Longrightarrow> 16 \<le> rank c' \<Longrightarrow> signals_ok c' act unl rvk ini drd drc ld ul"
  by (simp add: signals_ok_def)

lemma signals_next:
  "signals_ok Step1 act unl rvk ini drd drc ld ul \<Longrightarrow> act \<or> unl \<Longrightarrow>
     signals_ok Step2Allocate act unl rvk ini drd drc ld ul"
  "signals_ok Step2Allocate act unl rvk ini drd drc ld ul \<Longrightarrow> signals_ok Step2 act unl rvk ini drd drc ld ul"
  "signals_ok Step2 act unl rvk ini drd drc ld ul \<Longrightarrow> ini \<Longrightarrow>
     signals_ok Step2Load act unl rvk ini drd drc ld ul"
  "signals_ok Step2Load act unl rvk ini drd drc ld ul \<Longrightarrow> signals_ok Step2Loaded act unl rvk ini drd drc True ul"
  "signals_ok Step2Loaded act unl rvk ini drd drc ld ul \<Longrightarrow> signals_ok Step3 act unl rvk ini drd drc ld ul"
  "signals_ok Step3 act unl rvk ini drd drc ld ul \<Longrightarrow> act \<Longrightarrow>
     signals_ok Step3Activate act unl rvk ini drd drc ld ul"
  "signals_ok Step3Activate act unl rvk ini drd drc ld ul \<Longrightarrow> signals_ok Step4 act unl rvk ini drd drc ld ul"
  "signals_ok Step4 act unl rvk ini drd drc ld ul \<Longrightarrow> rvk \<Longrightarrow>
     signals_ok Step4Revoke act unl rvk ini drd drc ld ul"
  "signals_ok Step4Revoke act unl rvk ini drd drc ld ul \<Longrightarrow> signals_ok Step4Drain act unl rvk ini drd drc ld ul"
  "signals_ok Step4Drain act unl rvk ini drd drc ld ul \<Longrightarrow>
     signals_ok Step4Draining act unl rvk ini drd True ld ul"
  "signals_ok Step4Draining act unl rvk ini drd drc ld ul \<Longrightarrow> signals_ok Step5 act unl rvk ini drd drc ld ul"
  "signals_ok Step5 act unl rvk ini drd drc ld ul \<Longrightarrow> drd \<Longrightarrow>
     signals_ok Step5Check act unl rvk ini drd drc ld ul"
  "signals_ok Step5Check act unl rvk ini drd drc ld ul \<Longrightarrow> signals_ok Step5Unload act unl rvk ini drd drc ld ul"
  "signals_ok Step5Unload act unl rvk ini drd drc ld ul \<Longrightarrow>
     signals_ok Step5Unloaded act unl rvk ini drd drc ld True"
  "signals_ok Step5Unloaded act unl rvk ini drd drc ld ul \<Longrightarrow> signals_ok Step5Load act unl rvk ini drd drc ld ul"
  by (simp_all add: signals_ok_def)

lemma signals_drain_once: "signals_ok Step4Drain act unl rvk ini drd drc ld ul \<Longrightarrow> \<not> drc"
  by (simp add: signals_ok_def)

lemma set_continue_or_bail:
  "mv \<in> set (continue_or_bail next rs) \<longleftrightarrow>
     (mv = (next, NoEffect) \<and> None \<in> outcomes rs) \<or> (mv = (Cleanup, NoEffect) \<and> outcomes rs - {None} \<noteq> {})"
  by (force simp: continue_or_bail_def outcomes_def split: sum.splits)

lemma None_in_outcomes [simp]:
  "None \<in> outcomes (wait_for_unload w) \<longleftrightarrow>
     is_closed (ow_active w) \<or> is_closed (ld_unloaded (ow_loader w))"
  "None \<in> outcomes (wait_for_active w) \<longleftrightarrow> is_closed (ow_active w)"
  "None \<in> outcomes (wait_for_revoke w) \<longleftrightarrow> is_closed (ow_revoked w)"
  "None \<in> outcomes (wait_for_load w) \<longleftrightarrow> is_closed (ul_loaded (ow_unloader w))"
  "None \<in> outcomes (wait_for_action w a) \<longleftrightarrow> is_closed a"
  by (auto simp: wait_defs outcomes_def)

lemma own_load_simps [simp]:
  "ow_active (load w) = ow_active w" "ow_revoked (load w) = ow_revoked w"
  "ow_expired (load w) = ow_expired w" "ow_unloader (load w) = ow_unloader w"
  "ld_unloaded (ow_loader (load w)) = ld_unloaded (ow_loader w)"
  "is_closed (ld_load (ow_loader (load w)))"
  "ow_expiration (load w) = ow_expiration w"
  "ow_active (unload w) = ow_active w" "ow_revoked (unload w) = ow_revoked w"
  "ow_expired (unload w) = ow_expired w" "ow_loader (unload w) = ow_loader w"
  "ul_loaded (ow_unloader (unload w)) = ul_loaded (ow_unloader w)"
  "is_closed (ul_unload (ow_unloader (unload w)))"
  "ow_expiration (unload w) = ow_expiration w"
  by (simp_all add: load_def unload_def loader_load_def unloader_unload_def)

lemma run_inv_cleanup: "run_inv r \<Longrightarrow> at_await (rn_pc r) \<Longrightarrow> run_inv (r\<lparr>rn_pc := Cleanup\<rparr>)"
  by (auto simp: run_inv_def at_await_def intro: signals_end)

lemma run_inv_move:
  assumes "(c, e) \<in> set (moves now r)" and "run_inv r"
  shows "run_inv ((effect_on_run e r)\<lparr>rn_pc := c\<rparr>)"
  using assms
  by (cases "rn_pc r")
    (auto simp: moves_def set_continue_or_bail run_inv_def
      intro: signals_end signals_next dest: signals_drain_once split: if_splits)

lemma driver_op_keeps:
  "driver_op x \<Longrightarrow> is_closed (ld_load (ow_loader (own_apply x w))) = is_closed (ld_load (ow_loader w))"
  "driver_op x \<Longrightarrow> is_closed (ul_unload (ow_unloader (own_apply x w))) = is_closed (ul_unload (ow_unloader w))"
  by (cases x; simp add: driver_op_def own_op_defs)+

lemma run_inv_driver:
  assumes "driver_op x" and "run_inv r"
  shows "run_inv (r\<lparr>rn_own := own_apply x (rn_own r)\<rparr>)"
  using assms(2) own_leD(1,2,5) [OF own_apply_le [of "rn_own r" x]]
  by (simp add: run_inv_def driver_op_keeps [OF assms(1)]) (blast intro: signals_mono)

lemma run_inv_user_range:
  "run_inv r \<Longrightarrow> run_inv (r\<lparr>rn_range := range_apply x (rn_range r)\<rparr>)"
  by (cases x) (auto simp: run_inv_def elim: signals_mono)

lemma run_inv_new: "own_fresh w \<Longrightarrow> range_fresh g \<Longrightarrow> run_inv (run_new i shard w g)"
  by (simp add: run_inv_def signals_ok_def run_new_def own_fresh_def range_fresh_def)

end
