(* ===== verification/ProcessorLaws.thy ===== *)
theory ProcessorLaws
  imports ProcessorModel
begin

text \<open>
  The invariant of the processor model and what follows from it: the order of the hand-over
  signals, the guard's work, the truth of the table, and the end of expired runs. The last
  section is an execution in which the guard of an earlier run removes the entry of a later one.
\<close>

section \<open>Invariant of the processor\<close>

text \<open>The state under which a run is listed in the table, by its program counter.\<close>

fun table_state :: "pc \<Rightarrow> GrantState option" where
  "table_state Step1 = None"
| "table_state Step2Allocate = None"
| "table_state Step2 = Some GrantState.Allocated"
| "table_state Step2Load = Some GrantState.Allocated"
| "table_state Step2Loaded = Some GrantState.Allocated"
| "table_state Step3 = Some GrantState.AllocatedLoaded"
| "table_state Step3Activate = Some GrantState.AllocatedLoaded"
| "table_state Step4 = Some GrantState.Active"
| "table_state Step4Revoke = Some GrantState.Active"
| "table_state Step4Drain = Some GrantState.Revoked"
| "table_state Step4Draining = Some GrantState.Revoked"
| "table_state Step5 = Some GrantState.Revoked"
| "table_state Step5Check = Some GrantState.Revoked"
| "table_state Step5Unload = Some GrantState.Revoked"
| "table_state Step5Unloaded = Some GrantState.Revoked"
| "table_state Step5Load = Some GrantState.RevokedUnloaded"
| "table_state Cleanup = None"
| "table_state CleanupClose = None"
| "table_state Exited = None"

definition listed_as :: "nat GrantMap \<Rightarrow> nat \<Rightarrow> run \<Rightarrow> bool" where
  "listed_as m i r \<longleftrightarrow> rn_pc r = Cleanup
     \<or> gm_get m (rn_id r) = map_option (\<lambda>st. (rn_shard r, st, i)) (table_state (rn_pc r))"

definition sole_run :: "processor \<Rightarrow> nat \<Rightarrow> bool" where
  "sole_run p i \<longleftrightarrow> i < length (pr_runs p)
     \<and> (\<forall>j < length (pr_runs p). rn_id (pr_runs p ! j) = rn_id (pr_runs p ! i) \<longrightarrow> j = i)"

definition entries_owned :: "processor \<Rightarrow> bool" where
  "entries_owned p \<longleftrightarrow> (\<forall>gid shard st i. gm_get (pr_grants p) gid = Some (shard, st, i) \<longrightarrow>
     i < length (pr_runs p) \<and> rn_id (pr_runs p ! i) = gid \<and> rn_shard (pr_runs p ! i) = shard)"

definition proc_inv :: "processor \<Rightarrow> bool" where
  "proc_inv p \<longleftrightarrow> list_all run_inv (pr_runs p) \<and> entries_owned p
     \<and> (\<forall>i. sole_run p i \<longrightarrow> listed_as (pr_grants p) i (pr_runs p ! i))"

lemma proc_invD:
  assumes "proc_inv p"
  shows "i < length (pr_runs p) \<Longrightarrow> run_inv (pr_runs p ! i)" and "entries_owned p"
    and "sole_run p i \<Longrightarrow> listed_as (pr_grants p) i (pr_runs p ! i)"
  using assms by (simp_all add: proc_inv_def list_all_length)

lemma list_all_update: "list_all P xs \<Longrightarrow> P y \<Longrightarrow> list_all P (xs[i := y])"
  unfolding list_all_iff using set_update_subset_insert by fastforce

lemma effect_on_run_same [simp]:
  "rn_id (effect_on_run e r) = rn_id r" "rn_shard (effect_on_run e r) = rn_shard r"
  by (cases e; simp)+

lemma sole_run_update:
  assumes "i < length (pr_runs p)" and "rn_id r' = rn_id (pr_runs p ! i)"
    and "pr_runs p' = (pr_runs p)[i := r']"
  shows "sole_run p' j \<longleftrightarrow> sole_run p j"
proof -
  have "rn_id (pr_runs p' ! k) = rn_id (pr_runs p ! k)" for k
    using assms by (cases "k = i") simp_all
  then show ?thesis using assms(3) by (simp add: sole_run_def)
qed

text \<open>A step that replaces a run by one with the same identity, and leaves the table alone.\<close>

lemma proc_inv_set_run:
  assumes inv: "proc_inv p" and i: "i < length (pr_runs p)"
    and r': "run_inv r'" "rn_id r' = rn_id (pr_runs p ! i)" "rn_shard r' = rn_shard (pr_runs p ! i)"
    and pc: "rn_pc r' = Cleanup \<or> rn_pc r' = rn_pc (pr_runs p ! i)"
  shows "proc_inv (set_run i r' p)"
  unfolding proc_inv_def
proof (intro conjI allI impI)
  show "list_all run_inv (pr_runs (set_run i r' p))"
    using inv r'(1) by (simp add: proc_inv_def set_run_def list_all_update)
  show "entries_owned (set_run i r' p)"
    using proc_invD(2) [OF inv] r'(2,3) i
    by (auto simp: entries_owned_def set_run_def nth_list_update)
next
  fix j assume "sole_run (set_run i r' p) j"
  then have sole: "sole_run p j"
    using sole_run_update [OF i r'(2), of "set_run i r' p"] by (simp add: set_run_def)
  then have "listed_as (pr_grants p) j (pr_runs p ! j)" by (rule proc_invD(3) [OF inv])
  then show "listed_as (pr_grants (set_run i r' p)) j (pr_runs (set_run i r' p) ! j)"
    using pc r'(2,3) i by (cases "j = i") (auto simp: set_run_def listed_as_def)
qed

text \<open>Moves: what they do to the table is what \<open>table_state\<close> says.\<close>

lemma move_lists:
  assumes "(c, e) \<in> set (moves now r)" and "listed_as m i r"
  shows "listed_as (effect_on_table e i r m) i ((effect_on_run e r)\<lparr>rn_pc := c\<rparr>)"
  using assms
  by (cases "rn_pc r")
    (auto simp: moves_def set_continue_or_bail listed_as_def split: if_splits)

lemma effect_on_table_other:
  "rn_id r \<noteq> gid \<Longrightarrow> gm_get (effect_on_table e i r m) gid = gm_get m gid"
  by (cases e) simp_all

lemma effect_on_table_owned:
  "gm_get (effect_on_table e i r m) gid = Some (shard, st, j) \<Longrightarrow>
   gm_get m gid = Some (shard, st, j) \<or> (gid = rn_id r \<and> shard = rn_shard r \<and> j = i)"
  by (cases e) (auto split: if_splits)

lemma proc_inv_move:
  assumes inv: "proc_inv p" and i: "i < length (pr_runs p)"
    and mv: "(c, e) \<in> set (moves now (pr_runs p ! i))"
  shows "proc_inv (move_run i (c, e) p)"
  unfolding proc_inv_def
proof (intro conjI allI impI)
  let ?r = "pr_runs p ! i" and ?r' = "(effect_on_run e (pr_runs p ! i))\<lparr>rn_pc := c\<rparr>"
  let ?q = "move_run i (c, e) p"
  have runs: "pr_runs ?q = (pr_runs p)[i := ?r']" by (simp add: move_run_def Let_def)
  have table: "pr_grants ?q = effect_on_table e i ?r (pr_grants p)" by (simp add: move_run_def Let_def)
  have "run_inv ?r'" by (rule run_inv_move [OF mv proc_invD(1) [OF inv i]])
  then show "list_all run_inv (pr_runs ?q)"
    using inv by (simp add: runs proc_inv_def list_all_update)
  show "entries_owned ?q"
    using proc_invD(2) [OF inv] i
    by (auto simp: entries_owned_def runs table nth_list_update dest!: effect_on_table_owned)
  fix j assume "sole_run ?q j"
  then have sole: "sole_run p j" using sole_run_update [OF i _ runs] by simp
  then have listed: "listed_as (pr_grants p) j (pr_runs p ! j)" by (rule proc_invD(3) [OF inv])
  show "listed_as (pr_grants ?q) j (pr_runs ?q ! j)"
  proof (cases "j = i")
    case True
    with move_lists [OF mv] listed i show ?thesis by (simp add: runs table)
  next
    case False
    then have "rn_id ?r \<noteq> rn_id (pr_runs p ! j)"
      using sole i by (auto simp: sole_run_def)
    with listed False show ?thesis by (simp add: runs table listed_as_def effect_on_table_other)
  qed
qed

lemma proc_inv_accept:
  assumes inv: "proc_inv p" and "run_inv (run_new gid shard w g)"
  shows "proc_inv (p\<lparr>pr_runs := pr_runs p @ [run_new gid shard w g]\<rparr>)"
  unfolding proc_inv_def
proof (intro conjI allI impI)
  let ?q = "p\<lparr>pr_runs := pr_runs p @ [run_new gid shard w g]\<rparr>"
  show "list_all run_inv (pr_runs ?q)" using inv assms(2) by (simp add: proc_inv_def)
  show "entries_owned ?q"
    using proc_invD(2) [OF inv] by (fastforce simp: entries_owned_def nth_append)
  fix j assume sole: "sole_run ?q j"
  show "listed_as (pr_grants ?q) j (pr_runs ?q ! j)"
  proof (cases "j < length (pr_runs p)")
    case True
    then have "sole_run p j" using sole by (auto simp: sole_run_def nth_append split: if_splits)
    with True show ?thesis using proc_invD(3) [OF inv] by (simp add: nth_append)
  next
    case False
    with sole have j: "j = length (pr_runs p)" by (simp add: sole_run_def)
    have "rn_id (pr_runs p ! k) \<noteq> gid" if "k < length (pr_runs p)" for k
      using sole [unfolded sole_run_def, THEN conjunct2, rule_format, of k] that
      by (auto simp: j nth_append run_new_def)
    then have "gm_get (pr_grants p) gid = None"
      using proc_invD(2) [OF inv] unfolding entries_owned_def
      by (metis option.exhaust prod_cases3)
    then show ?thesis by (simp add: j listed_as_def run_new_def)
  qed
qed

lemma proc_inv_start: "proc_start p \<Longrightarrow> proc_inv p"
  by (simp add: proc_start_def processor_new_def proc_inv_def entries_owned_def sole_run_def)

lemma proc_inv_step:
  assumes "proc_inv p" and "proc_step p q"
  shows "proc_inv q"
  using assms(2)
proof cases
  case init
  then show ?thesis
    using assms(1) by (simp add: processor_init_def proc_inv_def entries_owned_def sole_run_def)
next
  case (accept build i shard w b)
  show ?thesis
  proof (cases "build i shard w")
    case None
    then show ?thesis using accept(1) assms(1) by (simp add: try_handle_def split: if_splits)
  next
    case (Some g)
    then have "q = p\<lparr>pr_runs := pr_runs p @ [run_new i shard w g]\<rparr>"
      using accept(1) by (simp add: try_handle_def split: if_splits)
    then show ?thesis
      using proc_inv_accept [OF assms(1) run_inv_new [OF accept(2) accept(3) [OF Some]]] by simp
  qed
next
  case (move i mv now)
  then show ?thesis using proc_inv_move [OF assms(1)] by (cases mv) simp
next
  case (driver i x r)
  then show ?thesis
    using proc_inv_set_run [OF assms(1)] run_inv_driver proc_invD(1) [OF assms(1)] by simp
next
  case (user_range i r x)
  then show ?thesis
    using proc_inv_set_run [OF assms(1)] run_inv_user_range proc_invD(1) [OF assms(1)] by simp
next
  case (cancel i r)
  then show ?thesis
    using proc_inv_set_run [OF assms(1)] run_inv_cleanup proc_invD(1) [OF assms(1)] by simp
qed

interpretation processor_system: invariant_system proc_start proc_step proc_inv
  by unfold_locales (rule proc_inv_start, assumption, rule proc_inv_step)

lemma processor_reach_inv: "reach proc_start proc_step p \<Longrightarrow> proc_inv p"
  by (rule processor_system.reach_inv)

section \<open>Properties\<close>

text \<open>
  C1. The hand-over protocol is respected in every interleaving: a run signals \<open>load\<close> only after its
  range is initialised and the grant is active or the counterpart has unloaded; and it signals
  \<open>unload\<close> only after it signalled \<open>load\<close>, the grant was activated and revoked, and the drain of the
  range was started and has completed.
\<close>

theorem handover_order:
  assumes "reach proc_start proc_step p" and "i < length (pr_runs p)" and "r = pr_runs p ! i"
  shows "(is_closed (ld_load (ow_loader (rn_own r))) \<longrightarrow> is_closed (rg_initialized (rn_range r))
      \<and> (is_closed (ow_active (rn_own r)) \<or> is_closed (ld_unloaded (ow_loader (rn_own r)))))
    \<and> (is_closed (ul_unload (ow_unloader (rn_own r))) \<longrightarrow> is_closed (ld_load (ow_loader (rn_own r)))
      \<and> is_closed (ow_active (rn_own r)) \<and> is_closed (ow_revoked (rn_own r))
      \<and> rg_drain_calls (rn_range r) \<noteq> [] \<and> is_closed (rg_drained (rn_range r)))"
proof -
  have "run_inv r" using proc_invD(1) [OF processor_reach_inv [OF assms(1)] assms(2)] assms(3) by simp
  then show ?thesis by (auto simp: run_inv_def signals_ok_def)
qed

text \<open>
  The guard does its work exactly once: a run that has returned has called \<open>close\<close> on its range
  once, every other run has not called it yet, and no run ever calls \<open>drain\<close> twice; this holds for
  every way out of \<open>run_grant\<close>, cancellation of its task included.
\<close>

theorem range_closed_once:
  assumes "reach proc_start proc_step p" and "r \<in> set (pr_runs p)"
  shows "rg_close_calls (rn_range r) = (if rn_pc r = Exited then 1 else 0)
    \<and> length (rg_drain_calls (rn_range r)) \<le> 1"
proof -
  have "run_inv r"
    using processor_reach_inv [OF assms(1)] assms(2) by (auto simp: proc_inv_def list_all_iff)
  then show ?thesis by (simp add: run_inv_def)
qed

text \<open>
  C18. The table tells the truth about a grant that was assigned once: the entry under its id is that
  of its run, in the state the run has reached, and the entry is there exactly from allocation
  until clean-up. Only the guard's deletion itself is in between.
\<close>

theorem table_tracks_run:
  assumes "reach proc_start proc_step p" and "sole_run p i" and "rn_pc (pr_runs p ! i) \<noteq> Cleanup"
  shows "gm_get (pr_grants p) (rn_id (pr_runs p ! i)) =
     map_option (\<lambda>st. (rn_shard (pr_runs p ! i), st, i)) (table_state (rn_pc (pr_runs p ! i)))"
  using proc_invD(3) [OF processor_reach_inv [OF assms(1)] assms(2)] assms(3)
  by (simp add: listed_as_def)

section \<open>Termination\<close>

definition own_step :: "nat \<Rightarrow> processor \<Rightarrow> processor \<Rightarrow> bool" where
  "own_step i p q \<longleftrightarrow> (\<exists>mv now. mv \<in> set (moves now (pr_runs p ! i)) \<and> q = move_run i mv p)"

lemma no_own_step: "(\<nexists>u. own_step i q u) \<longleftrightarrow> (\<forall>now. moves now (pr_runs q ! i) = [])"
proof
  assume stuck: "\<nexists>u. own_step i q u"
  have "mv \<notin> set (moves now (pr_runs q ! i))" for mv now
    using stuck unfolding own_step_def by blast
  then show "\<forall>now. moves now (pr_runs q ! i) = []" using last_in_set by blast
qed (simp add: own_step_def)

lemma rank_le: "rank c \<le> 18"
  by (cases c) simp_all

lemma effect_on_run_waits [simp]:
  "ow_expired (rn_own (effect_on_run e r)) = ow_expired (rn_own r)"
  "rg_drain_returned (rn_range (effect_on_run e r)) = rg_drain_returned (rn_range r)"
  by (cases e; simp)+

lemma own_step_run:
  assumes "own_step i p q" and "i < length (pr_runs p)"
  shows "length (pr_runs q) = length (pr_runs p)"
    and "rank (rn_pc (pr_runs p ! i)) < rank (rn_pc (pr_runs q ! i))"
    and "ow_expired (rn_own (pr_runs q ! i)) = ow_expired (rn_own (pr_runs p ! i))"
    and "rg_drain_returned (rn_range (pr_runs q ! i)) = rg_drain_returned (rn_range (pr_runs p ! i))"
proof -
  obtain c e now where mv: "(c, e) \<in> set (moves now (pr_runs p ! i))" and q: "q = move_run i (c, e) p"
    using assms(1) by (auto simp: own_step_def)
  show "length (pr_runs q) = length (pr_runs p)" by (simp add: q move_run_def Let_def)
  show "rank (rn_pc (pr_runs p ! i)) < rank (rn_pc (pr_runs q ! i))"
    using moves_advance [OF mv] assms(2) by (simp add: q move_run_def Let_def)
  show "ow_expired (rn_own (pr_runs q ! i)) = ow_expired (rn_own (pr_runs p ! i))"
    and "rg_drain_returned (rn_range (pr_runs q ! i)) = rg_drain_returned (rn_range (pr_runs p ! i))"
    using assms(2) by (simp_all add: q move_run_def Let_def)
qed

lemma expired_moves:
  assumes "is_closed (ow_expired (rn_own r))"
  shows "moves now r = [] \<longleftrightarrow>
    rn_pc r = Exited \<or> rn_pc r = Step4Draining \<and> \<not> rg_drain_returned (rn_range r)"
  using assms
  by (cases "rn_pc r") (simp_all add: moves_def continue_or_bail_def wait_defs)

lemma own_steps_run:
  assumes "(own_step i ^^ n) p q" and "i < length (pr_runs p)"
  shows "length (pr_runs q) = length (pr_runs p)
    \<and> rank (rn_pc (pr_runs p ! i)) + n \<le> rank (rn_pc (pr_runs q ! i))
    \<and> ow_expired (rn_own (pr_runs q ! i)) = ow_expired (rn_own (pr_runs p ! i))"
  using assms(1)
proof (induction n arbitrary: q)
  case (Suc n)
  then obtain u where u: "(own_step i ^^ n) p u" and step: "own_step i u q" by auto
  note IH = Suc.IH [OF u]
  have "i < length (pr_runs u)" using IH assms(2) by simp
  note own_step_run [OF step this]
  with IH show ?case by simp
qed simp

text \<open>
  C27. After its lease has expired a run ends by itself: however its remaining statements and selects go,
  it stops after at most 18 of its own steps, and when it has stopped it has either returned,
  with its guard dropped, or is waiting for the user's \<open>drain\<close> future, the one await of
  \<open>run_grant\<close> that does not watch the lease.
\<close>

theorem expired_run_ends:
  assumes "i < length (pr_runs p)" and "is_closed (ow_expired (rn_own (pr_runs p ! i)))"
    and "(own_step i ^^ n) p q"
  shows "n \<le> 18 \<and> ((\<nexists>u. own_step i q u) \<longleftrightarrow>
     rn_pc (pr_runs q ! i) = Exited
     \<or> rn_pc (pr_runs q ! i) = Step4Draining \<and> \<not> rg_drain_returned (rn_range (pr_runs q ! i)))"
proof -
  note run = own_steps_run [OF assms(3,1)]
  then have "n \<le> 18" using rank_le [of "rn_pc (pr_runs q ! i)"] by linarith
  moreover have exp: "is_closed (ow_expired (rn_own (pr_runs q ! i)))" using run assms(2) by simp
  ultimately show ?thesis unfolding no_own_step by (simp add: expired_moves [OF exp])
qed

section \<open>A grant assigned twice\<close>

text \<open>Playing a script: pairs of a run and the number of the move it makes, at time 0.\<close>

fun play :: "(nat \<times> nat) list \<Rightarrow> processor \<Rightarrow> processor option" where
  "play [] p = Some p"
| "play ((i, k) # script) p =
     (if i < length (pr_runs p) \<and> k < length (moves 0 (pr_runs p ! i))
      then play script (move_run i (moves 0 (pr_runs p ! i) ! k) p) else None)"

lemma play_reach:
  "play script p = Some q \<Longrightarrow> reach proc_start proc_step p \<Longrightarrow> reach proc_start proc_step q"
proof (induction script arbitrary: p)
  case (Cons cmd script)
  obtain i k where cmd: "cmd = (i, k)" by force
  have ik: "i < length (pr_runs p)" "k < length (moves 0 (pr_runs p ! i))"
    and rest: "play script (move_run i (moves 0 (pr_runs p ! i) ! k) p) = Some q"
    using Cons.prems(1) by (simp_all add: cmd split: if_splits)
  have "proc_step p (move_run i (moves 0 (pr_runs p ! i) ! k) p)"
    by (rule proc_step.move [OF ik(1) nth_mem [OF ik(2)]])
  from Cons.IH [OF rest reach_step [OF Cons.prems(2) this]] show ?case .
qed simp

text \<open>Two runs for the same id: the first has an expired lease, the second is active.\<close>

definition demo_run_shard :: Shard where
  "demo_run_shard =
     \<lparr>sh_domain = \<lparr>qdn_service = qsn_new ''acme'' ''widgets'', qdn_name = DomainName ''d''\<rparr>,
      sh_kind = DomainType.Global, sh_region = Region [], sh_from = [], sh_to = []\<rparr>"

definition twice_assigned :: processor where
  "twice_assigned =
     \<lparr>pr_initialized = close_latch fresh_latch, pr_grants = gm_new,
      pr_runs = [run_new (GrantId ''g'') demo_run_shard (ownership_new GrantState.Active 0 1) (range_new True),
                 run_new (GrantId ''g'') demo_run_shard (ownership_new GrantState.Active 9 1) (range_new True)]\<rparr>"

lemma ownership_new_fresh: "own_fresh (ownership_new st e now)"
  by (simp add: own_fresh_def)

lemma range_new_fresh: "range_fresh (range_new b)"
  by (simp add: range_fresh_def range_new_def fresh_latch_def)

lemma twice_assigned_reach: "reach proc_start proc_step twice_assigned"
proof -
  let ?R = "reach proc_start proc_step"
  let ?w = "\<lambda>e. ownership_new GrantState.Active e 1"
  let ?p = "processor_init processor_new"
  let ?run = "\<lambda>e. run_new (GrantId ''g'') demo_run_shard (?w e) (range_new True)"
  have 0: "?R ?p"
    by (rule reach_step, rule reach_start [of _ processor_new], simp add: proc_start_def, rule proc_step.init)
  have acc: "proc_step p (p\<lparr>pr_runs := pr_runs p @ [?run e]\<rparr>)" if "is_closed (pr_initialized p)" for p e
    by (rule proc_step.accept [where build = "\<lambda>_ _ _. Some (range_new True)" and w = "?w e"])
      (use that in \<open>auto simp: try_handle_def ownership_new_fresh range_new_fresh\<close>)
  note 1 = reach_step [OF 0 acc [of _ 0]]
  note 2 = reach_step [OF 1 acc [of _ 9]]
  from 2 show ?thesis
    by (simp add: processor_init_def processor_new_def twice_assigned_def)
qed

text \<open>Run 0 allocates and bails on expiry; run 1 goes to \<open>Active\<close>; then run 0's guard is dropped.\<close>

definition late_cleanup :: "(nat \<times> nat) list" where
  "late_cleanup = [(0, 0), (0, 0), (0, 1), (1, 0), (1, 0), (1, 0), (1, 0), (1, 0), (1, 0), (1, 0), (0, 0), (0, 0)]"

lemma late_cleanup_play:
  "map_option (\<lambda>q. (map rn_pc (pr_runs q), map rn_id (pr_runs q),
       map (\<lambda>r. is_closed (ow_expired (rn_own r))) (pr_runs q), gm_get (pr_grants q) (GrantId ''g'')))
     (play late_cleanup twice_assigned)
   = Some ([Exited, Step4], [GrantId ''g'', GrantId ''g''], [True, False], None)"
  by code_simp

text \<open>
  C34. The guard deletes by id: when a grant id is assigned again before the run of its first assignment has
  cleaned up, that clean-up removes the entry of the new run. Some execution leaves a run
  that serves an active grant, its lease not expired, and that the table does not list, so
  that requests for it are refused.
\<close>

theorem late_cleanup_unlists_active_run:
  "\<exists>p. reach proc_start proc_step p \<and> length (pr_runs p) = 2
     \<and> rn_pc (pr_runs p ! 0) = Exited \<and> rn_pc (pr_runs p ! 1) = Step4
     \<and> \<not> is_closed (ow_expired (rn_own (pr_runs p ! 1)))
     \<and> gm_get (pr_grants p) (rn_id (pr_runs p ! 1)) = None"
proof -
  obtain q where q: "play late_cleanup twice_assigned = Some q"
    and pcs: "map rn_pc (pr_runs q) = [Exited, Step4]"
    and ids: "map rn_id (pr_runs q) = [GrantId ''g'', GrantId ''g'']"
    and exp: "map (\<lambda>r. is_closed (ow_expired (rn_own r))) (pr_runs q) = [True, False]"
    and none: "gm_get (pr_grants q) (GrantId ''g'') = None"
    using late_cleanup_play by auto
  obtain r0 r1 where runs: "pr_runs q = [r0, r1]" using pcs by (auto simp: map_eq_Cons_conv)
  from play_reach [OF q twice_assigned_reach] show ?thesis
    using pcs ids exp none by (intro exI [of _ q]) (simp add: runs)
qed

text \<open>The full life of one run, driven to \<open>Step4\<close>.\<close>

lemma twice_assigned_play:
  assumes "play script twice_assigned = Some q"
  shows "reach proc_start proc_step q"
  by (rule play_reach [OF assms twice_assigned_reach])

definition to_active :: "(nat \<times> nat) list" where
  "to_active = [(1, 0), (1, 0), (1, 0), (1, 0), (1, 0)]"

lemma to_active_play:
  "map_option (\<lambda>q. (map (\<lambda>r. (rn_pc r, is_closed (ld_load (ow_loader (rn_own r))))) (pr_runs q)))
     (play to_active twice_assigned)
   = Some [(Step1, False), (Step3, True)]"
  by code_simp

theorem handover_order_witness:
  "\<exists>q. play to_active twice_assigned = Some q \<and> is_closed (rg_initialized (rn_range (pr_runs q ! 1)))"
proof -
  obtain q where q: "play to_active twice_assigned = Some q"
    and runs: "map (\<lambda>r. (rn_pc r, is_closed (ld_load (ow_loader (rn_own r))))) (pr_runs q) = [(Step1, False), (Step3, True)]"
    using to_active_play by auto
  obtain r0 r1 where r: "pr_runs q = [r0, r1]" and ld: "is_closed (ld_load (ow_loader (rn_own r1)))"
    using runs by (auto simp: map_eq_Cons_conv)
  have "1 < length (pr_runs q)" and "r1 = pr_runs q ! 1" by (simp_all add: r)
  from handover_order [OF twice_assigned_play [OF q] this] ld have "is_closed (rg_initialized (rn_range r1))"
    by blast
  with q r show ?thesis by (intro exI [of _ q]) simp
qed

theorem range_closed_once_witness:
  "rg_close_calls (rn_range (run_new (GrantId ''g'') demo_run_shard (ownership_new GrantState.Active 9 1) (range_new True))) = 0"
proof -
  let ?r = "run_new (GrantId ''g'') demo_run_shard (ownership_new GrantState.Active 9 1) (range_new True)"
  have "?r \<in> set (pr_runs twice_assigned)" by (simp add: twice_assigned_def)
  from range_closed_once [OF twice_assigned_reach this] show ?thesis by (simp add: run_new_def)
qed

theorem expired_run_ends_witness: "\<exists>u. own_step 0 twice_assigned u"
proof -
  have 0: "0 < length (pr_runs twice_assigned)" by (simp add: twice_assigned_def)
  have exp: "is_closed (ow_expired (rn_own (pr_runs twice_assigned ! 0)))"
    by (simp add: twice_assigned_def run_new_def)
  have "(own_step 0 ^^ 0) twice_assigned twice_assigned" by simp
  from expired_run_ends [OF 0 exp this] have "rn_pc (pr_runs twice_assigned ! 0) \<in> {Exited, Step4Draining}"
    if "\<nexists>u. own_step 0 twice_assigned u" using that by blast
  moreover have "rn_pc (pr_runs twice_assigned ! 0) = Step1" by (simp add: twice_assigned_def run_new_def)
  ultimately show ?thesis by fastforce
qed

text \<open>One grant, assigned once and allocated.\<close>

definition once_assigned :: processor where
  "once_assigned =
     \<lparr>pr_initialized = close_latch fresh_latch, pr_grants = gm_new,
      pr_runs = [run_new (GrantId ''g'') demo_run_shard (ownership_new GrantState.Active 9 1) (range_new True)]\<rparr>"

lemma once_assigned_reach: "reach proc_start proc_step once_assigned"
proof -
  have 0: "reach proc_start proc_step (processor_init processor_new)"
    by (rule reach_step, rule reach_start [of _ processor_new], simp add: proc_start_def, rule proc_step.init)
  have "proc_step (processor_init processor_new) once_assigned"
    by (rule proc_step.accept [where build = "\<lambda>_ _ _. Some (range_new True)"
          and w = "ownership_new GrantState.Active 9 1"])
      (auto simp: try_handle_def ownership_new_fresh range_new_fresh processor_init_def
        processor_new_def once_assigned_def)
  with 0 show ?thesis by (rule reach_step)
qed

theorem table_tracks_run_witness:
  "gm_get (pr_grants once_assigned) (GrantId ''g'') = None"
  using table_tracks_run [OF once_assigned_reach, of 0]
  by (simp add: sole_run_def once_assigned_def run_new_def)

end
