(* ===== verification/RecordingRange.thy ===== *)
theory RecordingRange
  imports ProcessorModel "HOL-Library.Multiset"
begin

text \<open>
  Models \<open>RecordingRange\<close> of \<open>splitter-client/src/processor.rs\<close>: a range that logs its life-cycle, with
  the tasks it spawns for its initialisation and for each drain.

  Its operations are called by one run at a time, which calls \<open>close\<close> once, so each of them is one
  transition. A spawned task is its due time; it writes to the log and closes its latch in one
  transition after that time. Times are in nanoseconds on the tokio clock.
\<close>

record drain_task =
  dt_called :: nat       \<comment> \<open>time of the call\<close>
  dt_timeout :: Duration
  dt_due :: nat
  dt_done :: latch

record recording =
  rr_label :: string
  rr_drain_delay :: Duration
  rr_initialized :: latch
  rr_closed :: latch
  rr_init_due :: "nat option"    \<comment> \<open>the initialisation task, until it has run\<close>
  rr_drains :: "drain_task list"
  rr_log :: "string list"

definition rr_new :: "nat \<Rightarrow> string \<Rightarrow> Duration \<Rightarrow> Duration \<Rightarrow> string list \<Rightarrow> recording" where
  "rr_new now label init_delay drain_delay log =
     \<lparr>rr_label = label, rr_drain_delay = drain_delay, rr_initialized = fresh_latch, rr_closed = fresh_latch,
      rr_init_due = Some (now + init_delay), rr_drains = [], rr_log = log\<rparr>"

definition rr_write :: "string \<Rightarrow> recording \<Rightarrow> recording" where
  "rr_write msg r = r\<lparr>rr_log := rr_log r @ [rr_label r @ '' '' @ msg]\<rparr>"

definition rr_run_init :: "recording \<Rightarrow> recording" where
  "rr_run_init r =
     (rr_write ''initialized'' r)\<lparr>rr_initialized := close_latch (rr_initialized r), rr_init_due := None\<rparr>"

definition rr_drain :: "nat \<Rightarrow> Duration \<Rightarrow> recording \<Rightarrow> recording" where
  "rr_drain now timeout r =
     (let r1 = rr_write ''drain start'' r
      in r1\<lparr>rr_drains := rr_drains r1 @
           [\<lparr>dt_called = now, dt_timeout = timeout, dt_due = now + min (rr_drain_delay r) timeout,
             dt_done = fresh_latch\<rparr>]\<rparr>)"

definition rr_run_drain :: "nat \<Rightarrow> recording \<Rightarrow> recording" where
  "rr_run_drain i r =
     (rr_write ''drain done'' r)
       \<lparr>rr_drains := (rr_drains r)[i := (rr_drains r ! i)\<lparr>dt_done := close_latch (dt_done (rr_drains r ! i))\<rparr>]\<rparr>"

definition rr_close :: "recording \<Rightarrow> recording" where
  "rr_close r =
     (if \<not> is_closed (rr_closed r)
      then (rr_write ''closed'' r)\<lparr>rr_closed := close_latch (rr_closed r)\<rparr> else r)"

inductive rr_step :: "recording \<Rightarrow> recording \<Rightarrow> bool" where
  run_init: "rr_init_due r = Some due \<Longrightarrow> due \<le> now \<Longrightarrow> rr_step r (rr_run_init r)"
| drain: "rr_step r (rr_drain now timeout r)"
| run_drain: "i < length (rr_drains r) \<Longrightarrow> \<not> is_closed (dt_done (rr_drains r ! i)) \<Longrightarrow>
     dt_due (rr_drains r ! i) \<le> now \<Longrightarrow> rr_step r (rr_run_drain i r)"
| close: "rr_step r (rr_close r)"

definition entries :: "string \<Rightarrow> recording \<Rightarrow> nat" where
  "entries msg r = count (mset (rr_log r)) (rr_label r @ '' '' @ msg)"

definition drained :: "drain_task list \<Rightarrow> nat" where
  "drained ts = length (filter (\<lambda>t. is_closed (dt_done t)) ts)"

definition rr_inv :: "recording \<Rightarrow> bool" where
  "rr_inv r \<longleftrightarrow>
     entries ''initialized'' r = (if is_closed (rr_initialized r) then 1 else 0)
     \<and> (rr_init_due r = None \<longleftrightarrow> is_closed (rr_initialized r))
     \<and> entries ''closed'' r = (if is_closed (rr_closed r) then 1 else 0)
     \<and> entries ''drain start'' r = length (rr_drains r)
     \<and> entries ''drain done'' r = drained (rr_drains r)
     \<and> list_all (\<lambda>t. dt_due t \<le> dt_called t + dt_timeout t) (rr_drains r)"

lemma entries_write [simp]:
  "entries msg (rr_write msg' r) = entries msg r + (if msg = msg' then 1 else 0)"
  by (simp add: entries_def rr_write_def)

lemma rr_write_same [simp]:
  "rr_label (rr_write m r) = rr_label r" "rr_initialized (rr_write m r) = rr_initialized r"
  "rr_closed (rr_write m r) = rr_closed r" "rr_init_due (rr_write m r) = rr_init_due r"
  "rr_drains (rr_write m r) = rr_drains r"
  by (simp_all add: rr_write_def)

lemma entries_updates [simp]:
  "entries m (r\<lparr>rr_initialized := l\<rparr>) = entries m r" "entries m (r\<lparr>rr_init_due := t\<rparr>) = entries m r"
  "entries m (r\<lparr>rr_closed := l\<rparr>) = entries m r" "entries m (r\<lparr>rr_drains := ds\<rparr>) = entries m r"
  by (simp_all add: entries_def)

lemma drained_update:
  assumes "i < length ts" and "\<not> is_closed (dt_done (ts ! i))" and "is_closed (dt_done t)"
  shows "drained (ts[i := t]) = Suc (drained ts)"
proof -
  have "ts = take i ts @ ts ! i # List.drop (Suc i) ts" by (rule id_take_nth_drop [OF assms(1)])
  then have "drained ts = drained (take i ts) + drained (List.drop (Suc i) ts)"
    using assms(2) by (metis (no_types, lifting) drained_def filter.simps(2) filter_append length_append)
  moreover have "drained (ts[i := t]) = drained (take i ts) + Suc (drained (List.drop (Suc i) ts))"
    using assms(1,3) by (simp add: upd_conv_take_nth_drop drained_def)
  ultimately show ?thesis by simp
qed

lemma rr_inv_step:
  assumes "rr_step r r'" and "rr_inv r"
  shows "rr_inv r'"
  using assms(1)
proof cases
  case (run_init due now)
  then show ?thesis using assms(2) by (simp add: rr_inv_def rr_run_init_def)
next
  case (drain now timeout)
  then show ?thesis using assms(2) by (simp add: rr_inv_def rr_drain_def Let_def drained_def)
next
  case (run_drain i now)
  let ?t = "(rr_drains r ! i)\<lparr>dt_done := close_latch (dt_done (rr_drains r ! i))\<rparr>"
  have "list_all (\<lambda>t. dt_due t \<le> dt_called t + dt_timeout t) ((rr_drains r)[i := ?t])"
    using assms(2) run_drain(2) by (simp add: rr_inv_def list_all_length nth_list_update)
  with assms(2) run_drain drained_update [of i "rr_drains r" ?t] show ?thesis
    by (simp add: rr_inv_def rr_run_drain_def)
next
  case close
  then show ?thesis
    using assms(2) by (cases "is_closed (rr_closed r)") (auto simp add: rr_inv_def rr_close_def)
qed

definition rr_start :: "recording \<Rightarrow> bool" where
  "rr_start r \<longleftrightarrow> (\<exists>now label init_delay drain_delay. r = rr_new now label init_delay drain_delay [])"

interpretation recording_system: invariant_system rr_start rr_step rr_inv
proof unfold_locales
  show "rr_inv r" if "rr_start r" for r
    using that by (auto simp: rr_start_def rr_new_def rr_inv_def entries_def drained_def)
qed (rule rr_inv_step)

text \<open>
  The log of a recording range tells exactly what happened, whatever the order of the calls and of
  the tasks: one entry for the initialisation iff its latch is closed, one for closing iff it is
  closed however often \<open>close\<close> is called, one per call of \<open>drain\<close> and one per drain that is done;
  and every drain is due within the timeout it was called with.
\<close>

theorem recording_log_exact:
  assumes "reach rr_start rr_step r"
  shows "entries ''initialized'' r = (if is_closed (rr_initialized r) then 1 else 0)
    \<and> entries ''closed'' r = (if is_closed (rr_closed r) then 1 else 0)
    \<and> entries ''drain start'' r = length (rr_drains r)
    \<and> entries ''drain done'' r = length (filter (\<lambda>t. is_closed (dt_done t)) (rr_drains r))
    \<and> list_all (\<lambda>t. dt_due t \<le> dt_called t + dt_timeout t) (rr_drains r)"
  using recording_system.reach_inv [OF assms] by (simp add: rr_inv_def drained_def)

theorem recording_log_exact_witness:
  "entries ''drain start'' (rr_drain 0 5 (rr_new 0 ''r'' 10 10 [])) = 1"
proof -
  have "reach rr_start rr_step (rr_new 0 ''r'' 10 10 [])" by (rule reach_start) (auto simp: rr_start_def)
  from recording_log_exact [OF reach_step [OF this rr_step.drain [of _ 0 5]]]
  show ?thesis by (simp add: rr_drain_def rr_new_def rr_write_def)
qed

section \<open>A recording range as a range of the processor\<close>

text \<open>
  What the processor knows of any range: its owner may initialise and close it and complete a drain
  that was asked for; the processor calls \<open>drain\<close> at most once, and \<open>close\<close>.
\<close>

inductive range_step :: "range \<Rightarrow> range \<Rightarrow> bool" where
  owner: "range_step g (range_apply x g)"
| drain: "rg_drain_calls g = [] \<Longrightarrow> range_step g (g\<lparr>rg_drain_calls := [timeout]\<rparr>)"
| close: "range_step g (g\<lparr>rg_close_calls := rg_close_calls g + 1\<rparr>)"

definition range_start :: "range \<Rightarrow> bool" where
  "range_start g \<longleftrightarrow> g = range_new False"

text \<open>A recording range in the hands of a processor, with the number of calls of \<open>close\<close>.\<close>

inductive use_step :: "recording \<times> nat \<Rightarrow> recording \<times> nat \<Rightarrow> bool" where
  run_init: "rr_init_due r = Some due \<Longrightarrow> due \<le> now \<Longrightarrow> use_step (r, n) (rr_run_init r, n)"
| drain: "rr_drains r = [] \<Longrightarrow> use_step (r, n) (rr_drain now timeout r, n)"
| run_drain: "i < length (rr_drains r) \<Longrightarrow> \<not> is_closed (dt_done (rr_drains r ! i)) \<Longrightarrow>
     dt_due (rr_drains r ! i) \<le> now \<Longrightarrow> use_step (r, n) (rr_run_drain i r, n)"
| close: "use_step (r, n) (rr_close r, Suc n)"

definition use_start :: "recording \<times> nat \<Rightarrow> bool" where
  "use_start u \<longleftrightarrow> (\<exists>now label init_delay drain_delay log. u = (rr_new now label init_delay drain_delay log, 0))"

definition range_of :: "recording \<times> nat \<Rightarrow> range" where
  "range_of u =
     (case u of (r, n) \<Rightarrow>
        \<lparr>rg_initialized = rr_initialized r, rg_closed = rr_closed r, rg_drain_returned = (rr_drains r \<noteq> []),
         rg_drained = (case rr_drains r of [] \<Rightarrow> fresh_latch | t # ts \<Rightarrow> dt_done t),
         rg_drain_calls = map dt_timeout (rr_drains r), rg_close_calls = n\<rparr>)"

lemma range_of_write [simp]: "range_of (rr_write msg r, n) = range_of (r, n)"
  by (simp add: range_of_def)

lemma two_range_steps: "range_step g h \<Longrightarrow> range_step h k \<Longrightarrow> range_step\<^sup>*\<^sup>* g k"
  by (meson converse_rtranclp_into_rtranclp r_into_rtranclp)

lemma use_step_range:
  assumes "use_step u v" and "length (rr_drains (fst u)) \<le> 1"
  shows "length (rr_drains (fst v)) \<le> 1 \<and> range_step\<^sup>*\<^sup>* (range_of u) (range_of v)"
  using assms(1)
proof cases
  case (run_init r due now n)
  have "range_of v = range_apply Initialize (range_of u)"
    by (simp add: run_init(1,2) rr_run_init_def range_of_def)
  then have "range_step (range_of u) (range_of v)" by (metis range_step.owner)
  then show ?thesis using assms(2) by (simp add: run_init(1,2) rr_run_init_def r_into_rtranclp)
next
  case (drain r n now timeout)
  let ?g = "(range_of u)\<lparr>rg_drain_calls := [timeout]\<rparr>"
  have "range_step (range_of u) ?g" by (rule range_step.drain) (simp add: drain range_of_def)
  moreover have "range_of v = range_apply DrainReturns ?g"
    by (simp add: drain rr_drain_def range_of_def Let_def)
  then have "range_step ?g (range_of v)" by (metis range_step.owner)
  ultimately show ?thesis using two_range_steps by (simp add: drain rr_drain_def Let_def)
next
  case (run_drain i r now n)
  then obtain t where t: "rr_drains r = [t]" "i = 0"
    using assms(2) by (cases "rr_drains r") auto
  have "range_of v = range_apply DrainDone (range_of u)"
    by (simp add: run_drain(1,2) t rr_run_drain_def range_of_def)
  then have "range_step (range_of u) (range_of v)" by (metis range_step.owner)
  then show ?thesis by (simp add: run_drain(1,2) t rr_run_drain_def r_into_rtranclp)
next
  case (close r n)
  let ?g = "(range_of u)\<lparr>rg_close_calls := rg_close_calls (range_of u) + 1\<rparr>"
  have "range_step (range_of u) ?g" by (rule range_step.close)
  moreover have "range_of v = range_apply SelfClose ?g \<or> range_of v = ?g"
    by (cases "rr_closed r") (auto simp: close rr_close_def range_of_def)
  then have "range_step\<^sup>*\<^sup>* ?g (range_of v)" by (metis range_step.owner r_into_rtranclp rtranclp.rtrancl_refl)
  ultimately show ?thesis
    using assms(2) by (simp add: close rr_close_def converse_rtranclp_into_rtranclp)
qed

interpretation recording_range: system_refinement use_start use_step "\<lambda>u. length (rr_drains (fst u)) \<le> 1"
    range_start range_step range_of
  by unfold_locales
    (auto simp: use_start_def range_start_def rr_new_def range_of_def range_new_def fresh_latch_def dest: use_step_range)

text \<open>
  A recording range is a range as the processor's model knows it: in the hands of a processor, and
  whatever its delays, it is always in a state that such a range can be in. So what is shown for
  processors with arbitrary ranges holds for the examples.
\<close>

theorem recording_refines_range:
  assumes "reach use_start use_step u"
  shows "reach range_start range_step (range_of u)"
  using recording_range.refine_reach [OF assms] by blast

theorem recording_refines_range_witness:
  "reach range_start range_step (range_of (rr_drain 0 5 (rr_new 0 ''r'' 10 10 []), 0))"
proof (rule recording_refines_range)
  have "reach use_start use_step (rr_new 0 ''r'' 10 10 [], 0)" by (rule reach_start) (simp add: use_start_def, blast)
  then show "reach use_start use_step (rr_drain 0 5 (rr_new 0 ''r'' 10 10 []), 0)"
    by (rule reach_step) (rule use_step.drain, simp add: rr_new_def)
qed

end
