(* ===== verification/ConsumerModel.thy ===== *)
theory ConsumerModel
  imports ClusterModel OwnershipModel Session
begin

text \<open>
  Models \<open>splitter-client/src/consumer.rs\<close>: the driver of a \<open>Join\<close> stream, its grant table, and the
  helper tasks of each grant.

  An \<open>Arc<Ownership>\<close> is shared by the driver, the helper tasks and the dispatcher, so ownerships
  live in a store: a list of cells, one per assignment, whose addresses are never reused. A cell
  also holds the helper tasks spawned with it and the message they captured. The table maps a
  grant id to its message, address and revoked flag.

  Handlers are state transformers that may panic half-way (\<open>fault + unit\<close> beside the new state).
  The outbound channel is the list of messages it has accepted and how many of them the transport
  has taken; \<open>send\<close> waits while 64 are queued, and fails when the receiving half is gone, so each
  of the driver's sends is a place where it waits. The grant broadcast is the list of events sent. The current time is an argument.
\<close>

section \<open>State\<close>

record ConsumerOptions =
  co_key_names :: "DomainKeyName list"
  co_capacity_limit :: u64

definition options_default :: ConsumerOptions where
  "options_default = \<lparr>co_key_names = [], co_capacity_limit = 0\<rparr>"

definition with_key_name :: "DomainKeyName \<Rightarrow> ConsumerOptions \<Rightarrow> ConsumerOptions" where
  "with_key_name name opts = opts\<lparr>co_key_names := co_key_names opts @ [name]\<rparr>"

definition with_capacity_limit :: "u64 \<Rightarrow> ConsumerOptions \<Rightarrow> ConsumerOptions" where
  "with_capacity_limit limit opts = opts\<lparr>co_capacity_limit := limit\<rparr>"

datatype GrantEvent = Assigned GrantId Shard nat | Removed GrantId

text \<open>A signal watcher, and the expiration timer with the deadline it works on.\<close>

datatype watcher = Watching | Sending | Finished

datatype timer =
    TTop                   \<comment> \<open>at the head of the loop\<close>
  | TArmed SystemTime      \<comment> \<open>has read the deadline, not yet waiting\<close>
  | TSleep SystemTime      \<comment> \<open>waiting for the deadline or a notification\<close>
  | TWoken SystemTime      \<comment> \<open>waiting, and notified\<close>
  | TCheck                 \<comment> \<open>the sleep is over\<close>
  | TFire                  \<comment> \<open>before \<open>ownership.expire()\<close>\<close>
  | TDone

record cell =
  gc_own :: Ownership
  gc_pb :: pb_Grant
  gc_load :: watcher
  gc_unload :: watcher
  gc_revoke :: watcher
  gc_timer :: timer
  gc_aborted :: bool

record ActiveGrant =
  ag_pb :: pb_Grant
  ag_ownership :: nat
  ag_revoked :: bool

datatype driver_pc =
    LoopTop                      \<comment> \<open>before the \<open>select!\<close>\<close>
  | Selecting bool               \<comment> \<open>in the \<open>select!\<close>, with the shutdown branch enabled or not\<close>
  | Beating SystemTime           \<comment> \<open>sending a heartbeat made at that time\<close>
  | Leaving                      \<comment> \<open>sending \<open>Deregister\<close>\<close>
  | Parting                      \<comment> \<open>sending the session's close frame\<close>
  | Finish "ClientError option"  \<comment> \<open>returned after the loop and the clean-up\<close>
  | EarlyReturn ClientError      \<comment> \<open>returned by \<open>?\<close> from inside the loop\<close>
  | Panicked

record driver =
  dr_pc :: driver_pc
  dr_outbound :: "pb_JoinMessage list"
  dr_taken :: nat                      \<comment> \<open>how many of them the transport has taken\<close>
  dr_out_open :: bool
  dr_cluster :: ClusterMap
  dr_cluster_rx :: bool
  dr_events :: "GrantEvent list"
  dr_closed :: latch
  dr_shutdown :: latch
  dr_heartbeat :: Duration
  dr_grants :: "GrantId \<rightharpoonup> ActiveGrant"
  dr_cells :: "cell list"

text \<open>The uuid library, and the iteration orders of the hash maps of a snapshot and of the table.\<close>

record consumer_env =
  en_uuid :: uuid_lib
  en_cluster_order :: "ClusterMap \<Rightarrow> GrantId list"
  en_grant_order :: "(GrantId \<rightharpoonup> ActiveGrant) \<Rightarrow> GrantId list"

section \<open>Outbound messages\<close>

definition wrap_client :: "client_Msg \<Rightarrow> pb_JoinMessage" where
  "wrap_client msg = \<lparr>jm_msg = Some (Consumer \<lparr>com_msg = Some (Client \<lparr>clm_msg = Some msg\<rparr>)\<rparr>)\<rparr>"

definition build_register ::
  "uuid_lib \<Rightarrow> Instance \<Rightarrow> QualifiedServiceName \<Rightarrow> ConsumerOptions \<Rightarrow> pb_JoinMessage" where
  "build_register U consumer service opts =
     wrap_client (Register
       \<lparr>rg_consumer = Some (instance_into U consumer), rg_service = Some (qsn_into service),
        rg_domains = [], rg_active = [],
        rg_options = Some \<lparr>ro_names = map domain_key_name_into (co_key_names opts),
                           ro_capacity_limit = co_capacity_limit opts\<rparr>\<rparr>)"

definition update_message :: "pb_Grant \<Rightarrow> pb_GrantState \<Rightarrow> pb_JoinMessage" where
  "update_message grant state =
     wrap_client (client_Msg.Update (Some (grant\<lparr>pbg_state := pb_grant_state_as_i32 state\<rparr>)))"

definition revoke_message :: "pb_Grant \<Rightarrow> pb_JoinMessage" where
  "revoke_message grant = wrap_client (client_Msg.Revoke [grant])"

text \<open>
  \<open>outbound.send(..)\<close> once it does not wait any more: whether it succeeded, and the state. The
  channel is \<open>mpsc::channel(64)\<close>.
\<close>

definition outbound_capacity :: nat where
  "outbound_capacity = 64"

definition out_ready :: "driver \<Rightarrow> bool" where
  "out_ready d \<longleftrightarrow> \<not> dr_out_open d \<or> length (dr_outbound d) < dr_taken d + outbound_capacity"

definition send_out :: "pb_JoinMessage \<Rightarrow> driver \<Rightarrow> bool \<times> driver" where
  "send_out msg d =
     (if dr_out_open d then (True, d\<lparr>dr_outbound := dr_outbound d @ [msg]\<rparr>) else (False, d))"

definition emit :: "GrantEvent \<Rightarrow> driver \<Rightarrow> driver" where
  "emit e d = d\<lparr>dr_events := dr_events d @ [e]\<rparr>"

section \<open>Joining\<close>

text \<open>
  \<open>join\<close> queues the two opening frames and starts the driver; \<open>now\<close> is used by no frame. The RPC
  itself is the network's; it either fails, or the stream starts with this driver.
\<close>

definition driver_new :: "pb_JoinMessage list \<Rightarrow> driver" where
  "driver_new queued =
     \<lparr>dr_pc = LoopTop, dr_outbound = queued, dr_taken = 0, dr_out_open = True, dr_cluster = cluster_empty,
      dr_cluster_rx = True, dr_events = [], dr_closed = fresh_latch, dr_shutdown = fresh_latch,
      dr_heartbeat = from_secs 60, dr_grants = Map.empty, dr_cells = []\<rparr>"

definition join ::
  "consumer_env \<Rightarrow> string \<Rightarrow> Instance \<Rightarrow> QualifiedServiceName \<Rightarrow> ConsumerOptions \<Rightarrow> driver" where
  "join E session_id consumer service opts =
     driver_new [establish_frame (loc_instance_into (en_uuid E) consumer) session_id,
                 build_register (en_uuid E) consumer service opts]"

section \<open>The grant table\<close>

definition on_cell :: "nat \<Rightarrow> (cell \<Rightarrow> cell) \<Rightarrow> driver \<Rightarrow> driver" where
  "on_cell a f d = d\<lparr>dr_cells := (dr_cells d)[a := f (dr_cells d ! a)]\<rparr>"

definition on_own :: "(Ownership \<Rightarrow> Ownership) \<Rightarrow> cell \<Rightarrow> cell" where
  "on_own f c = c\<lparr>gc_own := f (gc_own c)\<rparr>"

text \<open>\<open>Ownership::set_expiration\<close> also wakes a timer that is waiting: \<open>notify_waiters\<close>.\<close>

definition set_expiration_cell :: "SystemTime \<Rightarrow> cell \<Rightarrow> cell" where
  "set_expiration_cell deadline c =
     c\<lparr>gc_own := set_expiration deadline (gc_own c),
       gc_timer := (case gc_timer c of TSleep w \<Rightarrow> TWoken w | t \<Rightarrow> t)\<rparr>"

definition remove_grant :: "GrantId \<Rightarrow> driver \<Rightarrow> driver" where
  "remove_grant gid d =
     (case dr_grants d gid of
        None \<Rightarrow> d
      | Some entry \<Rightarrow>
          let d1 = d\<lparr>dr_grants := (dr_grants d)(gid := None)\<rparr>;
              d2 = on_cell (ag_ownership entry) (on_own expire) d1;
              d3 = on_cell (ag_ownership entry) (\<lambda>c. c\<lparr>gc_aborted := True\<rparr>) d2
          in emit (Removed gid) d3)"

definition cell_new :: "Ownership \<Rightarrow> pb_Grant \<Rightarrow> cell" where
  "cell_new w g =
     \<lparr>gc_own = w, gc_pb = g, gc_load = Watching, gc_unload = Watching, gc_revoke = Watching,
      gc_timer = TTop, gc_aborted = False\<rparr>"

definition assign_shard :: "pb_Grant \<Rightarrow> Shard option" where
  "assign_shard g =
     (case pbg_shard g of
        None \<Rightarrow> None
      | Some p \<Rightarrow> (case shard_try_from p of Inl e \<Rightarrow> None | Inr shard \<Rightarrow> Some shard))"

definition assign_expiration :: "SystemTime \<Rightarrow> pb_Grant \<Rightarrow> fault + SystemTime" where
  "assign_expiration now g =
     (case pbg_lease g of
        Some t \<Rightarrow> timestamp_to_system_time t
      | None \<Rightarrow> add_duration now (from_secs 30))"

definition on_assign :: "SystemTime \<Rightarrow> pb_Grant \<Rightarrow> driver \<Rightarrow> (fault + unit) \<times> driver" where
  "on_assign now g d =
     (case assign_shard g of
        None \<Rightarrow> (Inr (), d)
      | Some shard \<Rightarrow>
          let gid = GrantId (pbg_id g);
              state = grant_state_from_i32 (pbg_state g)
          in case assign_expiration now g of
               Inl p \<Rightarrow> (Inl p, d)
             | Inr expiration \<Rightarrow>
                 let d1 = (if dr_grants d gid \<noteq> None then remove_grant gid d else d);
                     a = length (dr_cells d1);
                     d2 = d1\<lparr>dr_cells := dr_cells d1 @ [cell_new (ownership_new state expiration now) g]\<rparr>;
                     d3 = d2\<lparr>dr_grants := (dr_grants d2)(gid \<mapsto>
                       \<lparr>ag_pb = g, ag_ownership = a,
                        ag_revoked = (state = GrantState.Revoked \<or> state = GrantState.RevokedUnloaded)\<rparr>)\<rparr>
                 in (Inr (), emit (Assigned gid shard a) d3))"

definition on_promote :: "pb_Grant \<Rightarrow> driver \<Rightarrow> (fault + unit) \<times> driver" where
  "on_promote g d =
     (let gid = GrantId (pbg_id g)
      in case dr_grants d gid of
           None \<Rightarrow> (Inr (), d)
         | Some entry \<Rightarrow>
             (Inr (), on_cell (ag_ownership entry) (on_own activate)
               (d\<lparr>dr_grants := (dr_grants d)(gid \<mapsto> entry\<lparr>ag_pb := g\<rparr>)\<rparr>)))"

definition on_revoke :: "pb_Grant \<Rightarrow> driver \<Rightarrow> (fault + unit) \<times> driver" where
  "on_revoke g d =
     (let gid = GrantId (pbg_id g)
      in case (case pbg_lease g of
                 None \<Rightarrow> Inr None
               | Some t \<Rightarrow> sbind (timestamp_to_system_time t) (\<lambda>e. Inr (Some e))) of
           Inl p \<Rightarrow> (Inl p, d)
         | Inr new_expiration \<Rightarrow>
             (case dr_grants d gid of
                None \<Rightarrow> (Inr (), d)
              | Some entry \<Rightarrow>
                  let d1 = d\<lparr>dr_grants := (dr_grants d)(gid \<mapsto> entry\<lparr>ag_revoked := True, ag_pb := g\<rparr>)\<rparr>;
                      d2 = (case new_expiration of
                              None \<Rightarrow> d1
                            | Some e \<Rightarrow> on_cell (ag_ownership entry) (set_expiration_cell e) d1)
                  in (Inr (), on_cell (ag_ownership entry) (on_own revoke) d2)))"

definition on_notify :: "pb_Notify \<Rightarrow> driver \<Rightarrow> driver" where
  "on_notify n d =
     (case no_target n of
        None \<Rightarrow> d
      | Some target \<Rightarrow>
          (case no_update n of
             None \<Rightarrow> d
           | Some update \<Rightarrow>
               (case dr_grants d (GrantId (pbg_id target)) of
                  None \<Rightarrow> d
                | Some entry \<Rightarrow>
                    (case grant_state_from_i32 (pbg_state update) of
                       GrantState.AllocatedLoaded \<Rightarrow> on_cell (ag_ownership entry) (on_own counterpart_loaded) d
                     | GrantState.RevokedUnloaded \<Rightarrow> on_cell (ag_ownership entry) (on_own counterpart_unloaded) d
                     | _ \<Rightarrow> d))))"

text \<open>One turn of the loop over \<open>grants.values()\<close>, for the entry of \<open>gid\<close>.\<close>

definition extend_one :: "SystemTime \<Rightarrow> GrantId \<Rightarrow> driver \<Rightarrow> driver" where
  "extend_one new_lease gid d =
     (case dr_grants d gid of
        None \<Rightarrow> d
      | Some entry \<Rightarrow>
          if ag_revoked entry then d
          else on_cell (ag_ownership entry) (set_expiration_cell new_lease) d)"

definition on_extend :: "consumer_env \<Rightarrow> pb_Extend \<Rightarrow> driver \<Rightarrow> (fault + unit) \<times> driver" where
  "on_extend E e d =
     (case ex_lease e of
        None \<Rightarrow> (Inr (), d)
      | Some t \<Rightarrow>
          (case timestamp_to_system_time t of
             Inl p \<Rightarrow> (Inl p, d)
           | Inr new_lease \<Rightarrow> (Inr (), fold (extend_one new_lease) (en_grant_order E (dr_grants d)) d)))"

section \<open>Inbound messages\<close>

fun for_each :: "('g \<Rightarrow> 's \<Rightarrow> (fault + unit) \<times> 's) \<Rightarrow> 'g list \<Rightarrow> 's \<Rightarrow> (fault + unit) \<times> 's" where
  "for_each f [] d = (Inr (), d)"
| "for_each f (g # gs) d =
     (case f g d of
        (Inl p, d') \<Rightarrow> (Inl p, d')
      | (Inr _, d') \<Rightarrow> for_each f gs d')"

definition handle_client_message ::
  "consumer_env \<Rightarrow> SystemTime \<Rightarrow> pb_ClientMessage \<Rightarrow> driver \<Rightarrow> (fault + unit) \<times> driver" where
  "handle_client_message E now msg d =
     (case clm_msg msg of
        None \<Rightarrow> (Inr (), d)
      | Some (Assign gs) \<Rightarrow> for_each (on_assign now) gs d
      | Some (Promote gs) \<Rightarrow> for_each on_promote gs d
      | Some (client_Msg.Revoke gs) \<Rightarrow> for_each on_revoke gs d
      | Some (Notify n) \<Rightarrow> (Inr (), on_notify n d)
      | Some (Extend e) \<Rightarrow> on_extend E e d
      | Some _ \<Rightarrow> (Inr (), d))"

text \<open>\<open>watch::Sender::send\<close> stores the value only while a receiver is alive.\<close>

definition handle_cluster :: "consumer_env \<Rightarrow> pb_ClusterMessage \<Rightarrow> driver \<Rightarrow> (fault + unit) \<times> driver" where
  "handle_cluster E cm d =
     (case cluster_apply (en_uuid E) (en_cluster_order E (dr_cluster d)) (dr_cluster d) cm of
        Inr next \<Rightarrow> (Inr (), if dr_cluster_rx d then d\<lparr>dr_cluster := next\<rparr> else d)
      | Inl (Err e) \<Rightarrow> (Inr (), d)
      | Inl Panic \<Rightarrow> (Inl Panic, d))"

definition handle_inbound ::
  "consumer_env \<Rightarrow> SystemTime \<Rightarrow> pb_JoinMessage \<Rightarrow> driver \<Rightarrow> (fault + SystemTime option) \<times> driver" where
  "handle_inbound E now msg d =
     (case jm_msg msg of
        None \<Rightarrow> (Inr None, d)
      | Some (Session s) \<Rightarrow>
          (case classify s of
             Inl p \<Rightarrow> (Inl p, d)
           | Inr (Some (SessionEvent.Established ttl)) \<Rightarrow> (Inr (Some ttl), d)
           | Inr (Some (SessionEvent.HeartbeatAck ttl)) \<Rightarrow> (Inr (Some ttl), d)
           | Inr (Some (SessionEvent.Closed error)) \<Rightarrow> (Inl (Err (SessionClosed error)), d)
           | Inr None \<Rightarrow> (Inr None, d))
      | Some (Consumer c) \<Rightarrow>
          (case com_msg c of
             None \<Rightarrow> (Inr None, d)
           | Some (Cluster cm) \<Rightarrow> apfst (map_sum id (\<lambda>_. None)) (handle_cluster E cm d)
           | Some (Client m) \<Rightarrow> apfst (map_sum id (\<lambda>_. None)) (handle_client_message E now m d)))"

section \<open>The driver's loop\<close>

definition clean_up :: "consumer_env \<Rightarrow> driver \<Rightarrow> driver" where
  "clean_up E d =
     (let d1 = fold remove_grant (en_grant_order E (dr_grants d)) d
      in d1\<lparr>dr_closed := close_latch (dr_closed d1)\<rparr>)"

definition break_loop :: "consumer_env \<Rightarrow> ClientError option \<Rightarrow> driver \<Rightarrow> driver" where
  "break_loop E result d = (clean_up E d)\<lparr>dr_pc := Finish result\<rparr>"

text \<open>Evaluation of the \<open>select!\<close> guards.\<close>

definition select_enter :: "driver \<Rightarrow> driver" where
  "select_enter d = d\<lparr>dr_pc := Selecting (\<not> is_closed (dr_shutdown d))\<rparr>"

text \<open>The branch for a shutdown request, after each of its two sends.\<close>

definition leave_branch :: "driver \<Rightarrow> driver" where
  "leave_branch d = (snd (send_out (wrap_client Deregister) d))\<lparr>dr_pc := Parting\<rparr>"

definition part_branch :: "consumer_env \<Rightarrow> driver \<Rightarrow> driver" where
  "part_branch E d = break_loop E None (snd (send_out (closed_frame ''client shutdown'') d))"

definition heartbeat_branch :: "consumer_env \<Rightarrow> SystemTime \<Rightarrow> driver \<Rightarrow> driver" where
  "heartbeat_branch E now d =
     (case send_out (heartbeat_frame now) d of
        (True, d1) \<Rightarrow> d1\<lparr>dr_pc := LoopTop\<rparr>
      | (False, d1) \<Rightarrow> break_loop E (Some (SessionClosed ''outbound dropped'')) d1)"

datatype inbound = Item pb_JoinMessage | Failed Status | Ended

definition inbound_branch :: "consumer_env \<Rightarrow> SystemTime \<Rightarrow> inbound \<Rightarrow> driver \<Rightarrow> driver" where
  "inbound_branch E now i d =
     (case i of
        Item msg \<Rightarrow>
          (case handle_inbound E now msg d of
             (Inl Panic, d1) \<Rightarrow> d1\<lparr>dr_pc := Panicked\<rparr>
           | (Inl (Err e), d1) \<Rightarrow> d1\<lparr>dr_pc := EarlyReturn e\<rparr>
           | (Inr (Some ttl), d1) \<Rightarrow> d1\<lparr>dr_heartbeat := heartbeat_delay ttl now, dr_pc := LoopTop\<rparr>
           | (Inr None, d1) \<Rightarrow> d1\<lparr>dr_pc := LoopTop\<rparr>)
      | Failed status \<Rightarrow> break_loop E (Some (Transport status)) d
      | Ended \<Rightarrow> break_loop E (Some (SessionClosed ''stream ended'')) d)"

section \<open>Helper tasks\<close>

text \<open>The three signal watchers of a grant, by the signal they wait for.\<close>

datatype signal = LoadSignal | UnloadSignal | RevokeSignal

fun signal_latch :: "signal \<Rightarrow> Ownership \<Rightarrow> latch" where
  "signal_latch LoadSignal w = ld_load (ow_loader w)"
| "signal_latch UnloadSignal w = ul_unload (ow_unloader w)"
| "signal_latch RevokeSignal w = ow_request_revoke w"

fun signal_message :: "signal \<Rightarrow> pb_Grant \<Rightarrow> pb_JoinMessage" where
  "signal_message LoadSignal g = update_message g pb_GrantState.AllocatedLoaded"
| "signal_message UnloadSignal g = update_message g pb_GrantState.RevokedUnloaded"
| "signal_message RevokeSignal g = revoke_message g"

fun watcher_of :: "signal \<Rightarrow> cell \<Rightarrow> watcher" where
  "watcher_of LoadSignal c = gc_load c"
| "watcher_of UnloadSignal c = gc_unload c"
| "watcher_of RevokeSignal c = gc_revoke c"

fun set_watcher :: "signal \<Rightarrow> watcher \<Rightarrow> cell \<Rightarrow> cell" where
  "set_watcher LoadSignal t c = c\<lparr>gc_load := t\<rparr>"
| "set_watcher UnloadSignal t c = c\<lparr>gc_unload := t\<rparr>"
| "set_watcher RevokeSignal t c = c\<lparr>gc_revoke := t\<rparr>"

text \<open>The \<open>select!\<close> of a watcher, and the sending of its message.\<close>

definition watcher_select :: "signal \<Rightarrow> cell \<Rightarrow> watcher list" where
  "watcher_select k c = select_ready
     [(is_closed (signal_latch k (gc_own c)), Sending),
      (is_closed (ow_expired (gc_own c)), Finished)]"

definition watcher_send :: "signal \<Rightarrow> nat \<Rightarrow> driver \<Rightarrow> driver" where
  "watcher_send k a d =
     on_cell a (set_watcher k Finished) (snd (send_out (signal_message k (gc_pb (dr_cells d ! a))) d))"

text \<open>What the expiration timer does next; \<open>TFire\<close> expires the ownership.\<close>

fun timer_moves :: "SystemTime \<Rightarrow> Ownership \<Rightarrow> timer \<Rightarrow> timer list" where
  "timer_moves now w TTop =
     (if is_closed (ow_expired w) then [TDone]
      else if time_left (ow_expiration w) now = 0 then [TFire] else [TArmed (ow_expiration w)])"
| "timer_moves now w (TArmed deadline) = [TSleep deadline]"
| "timer_moves now w (TSleep deadline) = (if deadline \<le> now then [TCheck] else [])"
| "timer_moves now w (TWoken deadline) = TTop # (if deadline \<le> now then [TCheck] else [])"
| "timer_moves now w TCheck = (if ow_expiration w \<le> now then [TFire] else [TTop])"
| "timer_moves now w TFire = [TDone]"
| "timer_moves now w TDone = []"

definition timer_step :: "timer \<Rightarrow> cell \<Rightarrow> cell" where
  "timer_step next c =
     (case gc_timer c of
        TFire \<Rightarrow> (on_own expire c)\<lparr>gc_timer := next\<rparr>
      | _ \<Rightarrow> c\<lparr>gc_timer := next\<rparr>)"

section \<open>The whole system\<close>

text \<open>The operations on an \<open>Ownership\<close> that are open to the user.\<close>

definition user_op :: "own_op \<Rightarrow> bool" where
  "user_op x \<longleftrightarrow> x \<in> {own_op.RequestRevoke, own_op.Load, own_op.Unload}"

text \<open>
  Steps of the driver, of the user, of the helper tasks, and of the outside. An aborted task stops
  at some later await; until then it may go on.
\<close>

inductive drv_step :: "consumer_env \<Rightarrow> driver \<Rightarrow> driver \<Rightarrow> bool" for E :: consumer_env where
  enter: "dr_pc d = LoopTop \<Longrightarrow> drv_step E d (select_enter d)"
| shutdown: "dr_pc d = Selecting True \<Longrightarrow> is_closed (dr_shutdown d) \<Longrightarrow> drv_step E d (d\<lparr>dr_pc := Leaving\<rparr>)"
| leave: "dr_pc d = Leaving \<Longrightarrow> out_ready d \<Longrightarrow> drv_step E d (leave_branch d)"
| part: "dr_pc d = Parting \<Longrightarrow> out_ready d \<Longrightarrow> drv_step E d (part_branch E d)"
| heartbeat: "dr_pc d = Selecting b \<Longrightarrow> drv_step E d (d\<lparr>dr_pc := Beating now\<rparr>)"
| beat: "dr_pc d = Beating now \<Longrightarrow> out_ready d \<Longrightarrow> drv_step E d (heartbeat_branch E now d)"
| inbound: "dr_pc d = Selecting b \<Longrightarrow> drv_step E d (inbound_branch E now i d)"
| request_shutdown: "drv_step E d (d\<lparr>dr_shutdown := close_latch (dr_shutdown d)\<rparr>)"
| taken: "dr_out_open d \<Longrightarrow> dr_taken d < length (dr_outbound d) \<Longrightarrow> drv_step E d (d\<lparr>dr_taken := dr_taken d + 1\<rparr>)"
| outbound_gone: "drv_step E d (d\<lparr>dr_out_open := False\<rparr>)"
| cluster_unread: "drv_step E d (d\<lparr>dr_cluster_rx := False\<rparr>)"
| user: "a < length (dr_cells d) \<Longrightarrow> user_op x \<Longrightarrow> drv_step E d (on_cell a (on_own (own_apply x)) d)"
| watch: "a < length (dr_cells d) \<Longrightarrow> watcher_of k (dr_cells d ! a) = Watching \<Longrightarrow>
     t \<in> set (watcher_select k (dr_cells d ! a)) \<Longrightarrow> drv_step E d (on_cell a (set_watcher k t) d)"
| send: "a < length (dr_cells d) \<Longrightarrow> watcher_of k (dr_cells d ! a) = Sending \<Longrightarrow> out_ready d \<Longrightarrow>
     drv_step E d (watcher_send k a d)"
| stop: "a < length (dr_cells d) \<Longrightarrow> gc_aborted (dr_cells d ! a) \<Longrightarrow>
     drv_step E d (on_cell a (set_watcher k Finished) d)"
| tick: "a < length (dr_cells d) \<Longrightarrow>
     t \<in> set (timer_moves now (gc_own (dr_cells d ! a)) (gc_timer (dr_cells d ! a))) \<Longrightarrow>
     drv_step E d (on_cell a (timer_step t) d)"
| stop_timer: "a < length (dr_cells d) \<Longrightarrow> gc_aborted (dr_cells d ! a) \<Longrightarrow>
     drv_step E d (on_cell a (\<lambda>c. c\<lparr>gc_timer := TDone\<rparr>) d)"

definition drv_start :: "consumer_env \<Rightarrow> driver \<Rightarrow> bool" where
  "drv_start E d \<longleftrightarrow> (\<exists>session_id consumer service opts. d = join E session_id consumer service opts)"

end
