(* ===== verification/ConsumerLaws.thy ===== *)
theory ConsumerLaws
  imports ConsumerModel
begin

text \<open>
  The invariant of the driver and what follows from it: the broadcast replays to the table, every
  ownership is tracked or expired, a finished driver leaves nothing behind. The last sections are
  about the ways out of the loop that do not: an early return, and a shutdown request that the
  loop does not see.
\<close>

section \<open>Reads\<close>

lemma on_cell_same [simp]:
  "dr_pc (on_cell a f d) = dr_pc d" "dr_outbound (on_cell a f d) = dr_outbound d"
  "dr_out_open (on_cell a f d) = dr_out_open d" "dr_cluster (on_cell a f d) = dr_cluster d"
  "dr_events (on_cell a f d) = dr_events d" "dr_closed (on_cell a f d) = dr_closed d"
  "dr_shutdown (on_cell a f d) = dr_shutdown d" "dr_grants (on_cell a f d) = dr_grants d"
  "length (dr_cells (on_cell a f d)) = length (dr_cells d)" "dr_taken (on_cell a f d) = dr_taken d"
  by (simp_all add: on_cell_def)

lemma on_cell_nth:
  "i < length (dr_cells d) \<Longrightarrow> dr_cells (on_cell a f d) ! i = (if i = a then f (dr_cells d ! i) else dr_cells d ! i)"
  by (auto simp: on_cell_def nth_list_update)

lemma emit_same [simp]:
  "dr_pc (emit e d) = dr_pc d" "dr_outbound (emit e d) = dr_outbound d" "dr_cells (emit e d) = dr_cells d"
  "dr_events (emit e d) = dr_events d @ [e]" "dr_closed (emit e d) = dr_closed d"
  "dr_shutdown (emit e d) = dr_shutdown d" "dr_grants (emit e d) = dr_grants d"
  "dr_out_open (emit e d) = dr_out_open d" "dr_taken (emit e d) = dr_taken d"
  by (simp_all add: emit_def)

lemma send_out_same [simp]:
  "dr_pc (snd (send_out m d)) = dr_pc d" "dr_cells (snd (send_out m d)) = dr_cells d"
  "dr_events (snd (send_out m d)) = dr_events d" "dr_closed (snd (send_out m d)) = dr_closed d"
  "dr_shutdown (snd (send_out m d)) = dr_shutdown d" "dr_grants (snd (send_out m d)) = dr_grants d"
  "dr_taken (snd (send_out m d)) = dr_taken d" "dr_out_open (snd (send_out m d)) = dr_out_open d"
  by (simp_all add: send_out_def)

lemma on_own_same [simp]:
  "gc_pb (on_own f c) = gc_pb c" "gc_aborted (on_own f c) = gc_aborted c" "gc_own (on_own f c) = f (gc_own c)"
  by (simp_all add: on_own_def)

lemma set_expiration_cell_same [simp]:
  "gc_pb (set_expiration_cell e c) = gc_pb c" "gc_aborted (set_expiration_cell e c) = gc_aborted c"
  "gc_own (set_expiration_cell e c) = set_expiration e (gc_own c)"
  by (simp_all add: set_expiration_cell_def)

lemma set_watcher_same [simp]:
  "gc_pb (set_watcher k t c) = gc_pb c" "gc_aborted (set_watcher k t c) = gc_aborted c"
  "gc_own (set_watcher k t c) = gc_own c"
  by (cases k; simp)+

section \<open>Invariant\<close>

text \<open>Replaying the broadcast events gives a map from grants to ownerships.\<close>

fun event_update :: "GrantEvent \<Rightarrow> (GrantId \<rightharpoonup> nat) \<Rightarrow> (GrantId \<rightharpoonup> nat)" where
  "event_update (Assigned gid shard a) m = m(gid \<mapsto> a)"
| "event_update (Removed gid) m = m(gid := None)"

definition replay :: "GrantEvent list \<Rightarrow> (GrantId \<rightharpoonup> nat) \<Rightarrow> (GrantId \<rightharpoonup> nat)" where
  "replay es m = fold event_update es m"

lemma replay_simps [simp]:
  "replay [] m = m" "replay [e] m = event_update e m" "replay (xs @ ys) m = replay ys (replay xs m)"
  by (simp_all add: replay_def)

definition grant_addresses :: "driver \<Rightarrow> (GrantId \<rightharpoonup> nat)" where
  "grant_addresses d = (\<lambda>gid. map_option ag_ownership (dr_grants d gid))"

text \<open>What the table says of the cell of one of its entries.\<close>

definition entry_ok :: "driver \<Rightarrow> GrantId \<Rightarrow> ActiveGrant \<Rightarrow> bool" where
  "entry_ok d gid e \<longleftrightarrow>
     ag_ownership e < length (dr_cells d)
     \<and> GrantId (pbg_id (ag_pb e)) = gid
     \<and> GrantId (pbg_id (gc_pb (dr_cells d ! ag_ownership e))) = gid
     \<and> (ag_revoked e \<longleftrightarrow> is_closed (ow_revoked (gc_own (dr_cells d ! ag_ownership e))))
     \<and> \<not> gc_aborted (dr_cells d ! ag_ownership e)"

text \<open>A cell outside the table has been expired and its helpers aborted.\<close>

definition cell_ok :: "driver \<Rightarrow> nat \<Rightarrow> bool" where
  "cell_ok d a \<longleftrightarrow>
     (\<exists>gid e. dr_grants d gid = Some e \<and> ag_ownership e = a)
     \<or> (gc_aborted (dr_cells d ! a) \<and> is_closed (ow_expired (gc_own (dr_cells d ! a))))"

lemma cell_ok_mono:
  assumes "cell_ok d a"
    and "\<And>gid e. dr_grants d gid = Some e \<Longrightarrow> ag_ownership e = a \<Longrightarrow>
      \<exists>gid' e'. dr_grants d' gid' = Some e' \<and> ag_ownership e' = a"
    and "gc_aborted (dr_cells d ! a) \<Longrightarrow> gc_aborted (dr_cells d' ! a)"
    and "is_closed (ow_expired (gc_own (dr_cells d ! a))) \<Longrightarrow> is_closed (ow_expired (gc_own (dr_cells d' ! a)))"
  shows "cell_ok d' a"
  using assms unfolding cell_ok_def by blast

definition drv_inv :: "driver \<Rightarrow> bool" where
  "drv_inv d \<longleftrightarrow>
     finite (dom (dr_grants d))
     \<and> (\<forall>gid e. dr_grants d gid = Some e \<longrightarrow> entry_ok d gid e)
     \<and> (\<forall>a < length (dr_cells d). cell_ok d a)
     \<and> replay (dr_events d) Map.empty = grant_addresses d"

lemma drv_invD:
  assumes "drv_inv d"
  shows "finite (dom (dr_grants d))" and "dr_grants d gid = Some e \<Longrightarrow> entry_ok d gid e"
    and "a < length (dr_cells d) \<Longrightarrow> cell_ok d a"
    and "replay (dr_events d) Map.empty = grant_addresses d"
  using assms by (simp_all add: drv_inv_def)

lemma drv_invI:
  assumes "finite (dom (dr_grants d))" and "\<And>gid e. dr_grants d gid = Some e \<Longrightarrow> entry_ok d gid e"
    and "\<And>a. a < length (dr_cells d) \<Longrightarrow> cell_ok d a"
    and "replay (dr_events d) Map.empty = grant_addresses d"
  shows "drv_inv d"
  using assms by (simp add: drv_inv_def)

lemma drv_inv_cong:
  assumes "dr_grants d' = dr_grants d" and "dr_cells d' = dr_cells d" and "dr_events d' = dr_events d"
  shows "drv_inv d' \<longleftrightarrow> drv_inv d"
  by (simp add: drv_inv_def entry_ok_def cell_ok_def grant_addresses_def assms)

text \<open>An update of a cell that the invariant does not notice.\<close>

definition harmless :: "(cell \<Rightarrow> cell) \<Rightarrow> bool" where
  "harmless f \<longleftrightarrow> (\<forall>c. gc_pb (f c) = gc_pb c \<and> gc_aborted (f c) = gc_aborted c
     \<and> is_closed (ow_revoked (gc_own (f c))) = is_closed (ow_revoked (gc_own c))
     \<and> (is_closed (ow_expired (gc_own c)) \<longrightarrow> is_closed (ow_expired (gc_own (f c)))))"

lemma harmless_own [simp]:
  "harmless (on_own activate)" "harmless (on_own counterpart_loaded)" "harmless (on_own counterpart_unloaded)"
  "harmless (on_own expire)" "harmless (set_expiration_cell e)" "harmless (set_watcher k t)"
  "harmless (timer_step u)" "harmless (\<lambda>c. c\<lparr>gc_timer := TDone\<rparr>)"
  by (simp_all add: harmless_def own_op_defs timer_step_def split: timer.split)

lemma harmless_user [simp]: "user_op x \<Longrightarrow> harmless (on_own (own_apply x))"
  by (auto simp: user_op_def harmless_def own_op_defs)

lemma on_cell_inv:
  assumes "drv_inv d" and "harmless f"
  shows "drv_inv (on_cell a f d)"
proof (rule drv_invI)
  have cell: "\<And>i. i < length (dr_cells d) \<Longrightarrow>
      gc_pb (dr_cells (on_cell a f d) ! i) = gc_pb (dr_cells d ! i)
      \<and> gc_aborted (dr_cells (on_cell a f d) ! i) = gc_aborted (dr_cells d ! i)
      \<and> is_closed (ow_revoked (gc_own (dr_cells (on_cell a f d) ! i))) = is_closed (ow_revoked (gc_own (dr_cells d ! i)))
      \<and> (is_closed (ow_expired (gc_own (dr_cells d ! i))) \<longrightarrow>
           is_closed (ow_expired (gc_own (dr_cells (on_cell a f d) ! i))))"
    using assms(2) by (simp add: on_cell_nth harmless_def)
  show "entry_ok (on_cell a f d) gid e" if "dr_grants (on_cell a f d) gid = Some e" for gid e
    using drv_invD(2) [OF assms(1), of gid e] that cell by (simp add: entry_ok_def)
  show "cell_ok (on_cell a f d) i" if "i < length (dr_cells (on_cell a f d))" for i
    using drv_invD(3) [OF assms(1), of i] that cell by (auto simp: cell_ok_def)
qed (use drv_invD(1,4) [OF assms(1)] in \<open>simp_all add: grant_addresses_def\<close>)

text \<open>Two entries never share an ownership.\<close>

lemma addresses_distinct:
  assumes "drv_inv d" and "dr_grants d g1 = Some e1" and "dr_grants d g2 = Some e2"
    and "ag_ownership e1 = ag_ownership e2"
  shows "g1 = g2"
  using drv_invD(2) [OF assms(1,2)] drv_invD(2) [OF assms(1,3)] assms(4) by (auto simp: entry_ok_def)

section \<open>Preservation\<close>

lemma remove_grant_fields:
  "dr_grants (remove_grant gid d) = (dr_grants d)(gid := None)"
  "length (dr_cells (remove_grant gid d)) = length (dr_cells d)"
  "dr_pc (remove_grant gid d) = dr_pc d" "dr_closed (remove_grant gid d) = dr_closed d"
  "dr_shutdown (remove_grant gid d) = dr_shutdown d" "dr_outbound (remove_grant gid d) = dr_outbound d"
  "dr_events (remove_grant gid d) = dr_events d @ (if dr_grants d gid = None then [] else [Removed gid])"
  by (auto simp: remove_grant_def Let_def split: option.split)

lemma remove_grant_cell:
  assumes "i < length (dr_cells d)"
  shows "dr_cells (remove_grant gid d) ! i =
    (if map_option ag_ownership (dr_grants d gid) = Some i
     then (on_own expire (dr_cells d ! i))\<lparr>gc_aborted := True\<rparr> else dr_cells d ! i)"
  using assms by (auto simp: remove_grant_def Let_def on_cell_nth split: option.split)

lemma remove_grant_inv:
  assumes "drv_inv d"
  shows "drv_inv (remove_grant gid d)"
proof (rule drv_invI)
  show "finite (dom (dr_grants (remove_grant gid d)))"
    using drv_invD(1) [OF assms] by (simp add: remove_grant_fields)
next
  fix g e assume "dr_grants (remove_grant gid d) g = Some e"
  then have g: "g \<noteq> gid" "dr_grants d g = Some e" by (auto simp: remove_grant_fields split: if_splits)
  have "map_option ag_ownership (dr_grants d gid) \<noteq> Some (ag_ownership e)"
    using addresses_distinct [OF assms g(2)] g(1) by auto
  then show "entry_ok (remove_grant gid d) g e"
    using drv_invD(2) [OF assms g(2)] by (simp add: entry_ok_def remove_grant_fields remove_grant_cell)
next
  fix a assume a: "a < length (dr_cells (remove_grant gid d))"
  then have len: "a < length (dr_cells d)" by (simp add: remove_grant_fields)
  show "cell_ok (remove_grant gid d) a"
  proof (cases "map_option ag_ownership (dr_grants d gid) = Some a")
    case True
    then show ?thesis using len by (simp add: cell_ok_def remove_grant_cell expire_def)
  next
    case False
    then have cell: "dr_cells (remove_grant gid d) ! a = dr_cells d ! a"
      by (simp only: remove_grant_cell [OF len] if_False)
    have "dr_grants (remove_grant gid d) g = Some e" if "dr_grants d g = Some e" "ag_ownership e = a" for g e
      using that False by (auto simp: remove_grant_fields)
    with drv_invD(3) [OF assms len] show ?thesis unfolding cell_ok_def cell by blast
  qed
next
  show "replay (dr_events (remove_grant gid d)) Map.empty = grant_addresses (remove_grant gid d)"
    using drv_invD(4) [OF assms]
    by (auto simp: remove_grant_fields grant_addresses_def fun_eq_iff)
qed

lemma fold_remove_inv: "drv_inv d \<Longrightarrow> drv_inv (fold remove_grant gids d)"
  by (induction gids arbitrary: d) (auto intro: remove_grant_inv)

text \<open>A new grant under an id that is not in the table.\<close>

definition add_grant :: "GrantId \<Rightarrow> Shard \<Rightarrow> pb_Grant \<Rightarrow> Ownership \<Rightarrow> bool \<Rightarrow> driver \<Rightarrow> driver" where
  "add_grant gid shard g w rvk d =
     emit (Assigned gid shard (length (dr_cells d)))
       (d\<lparr>dr_cells := dr_cells d @ [cell_new w g],
          dr_grants := (dr_grants d)(gid \<mapsto> \<lparr>ag_pb = g, ag_ownership = length (dr_cells d), ag_revoked = rvk\<rparr>)\<rparr>)"

lemma add_grant_inv:
  assumes "drv_inv d" and "dr_grants d gid = None" and "gid = GrantId (pbg_id g)"
    and "rvk \<longleftrightarrow> is_closed (ow_revoked w)"
  shows "drv_inv (add_grant gid shard g w rvk d)"
proof (rule drv_invI)
  let ?q = "add_grant gid shard g w rvk d"
  show "finite (dom (dr_grants ?q))" using drv_invD(1) [OF assms(1)] by (simp add: add_grant_def)
  show "entry_ok ?q i e" if "dr_grants ?q i = Some e" for i e
  proof (cases "i = gid")
    case True
    with that have "e = \<lparr>ag_pb = g, ag_ownership = length (dr_cells d), ag_revoked = rvk\<rparr>"
      by (simp add: add_grant_def)
    with True assms(3,4) show ?thesis by (simp add: add_grant_def entry_ok_def cell_new_def)
  next
    case False
    with that have "dr_grants d i = Some e" by (simp add: add_grant_def)
    from drv_invD(2) [OF assms(1) this] show ?thesis by (simp add: add_grant_def entry_ok_def nth_append)
  qed
  show "cell_ok ?q a" if "a < length (dr_cells ?q)" for a
  proof (cases "a = length (dr_cells d)")
    case True
    then show ?thesis by (auto simp: add_grant_def cell_ok_def)
  next
    case False
    with that have a: "a < length (dr_cells d)" by (simp add: add_grant_def)
    have kept: "dr_grants ?q i = Some e" if "dr_grants d i = Some e" for i e
      using that assms(2) by (auto simp: add_grant_def)
    have cell: "dr_cells ?q ! a = dr_cells d ! a" using a by (simp add: add_grant_def nth_append)
    show ?thesis
      by (rule cell_ok_mono [OF drv_invD(3) [OF assms(1) a]]) (use kept in \<open>auto simp: cell\<close>)
  qed
  show "replay (dr_events ?q) Map.empty = grant_addresses ?q"
    using drv_invD(4) [OF assms(1)] by (auto simp: add_grant_def grant_addresses_def fun_eq_iff)
qed

lemma on_assign_cases:
  obtains (kept) f where "on_assign now g d = (f, d)"
  | (added) shard expiration where "assign_shard g = Some shard" "assign_expiration now g = Inr expiration"
      "on_assign now g d = (Inr (), add_grant (GrantId (pbg_id g)) shard g
         (ownership_new (grant_state_from_i32 (pbg_state g)) expiration now)
         (grant_state_from_i32 (pbg_state g) \<in> {GrantState.Revoked, GrantState.RevokedUnloaded})
         (remove_grant (GrantId (pbg_id g)) d))"
proof (cases "assign_shard g")
  case None
  then show ?thesis by (intro kept) (simp add: on_assign_def)
next
  case (Some shard)
  show ?thesis
  proof (cases "assign_expiration now g")
    case (Inl p)
    then show ?thesis by (intro kept) (simp add: on_assign_def Some)
  next
    case (Inr expiration)
    have "remove_grant (GrantId (pbg_id g)) d = d" if "dr_grants d (GrantId (pbg_id g)) = None"
      using that by (simp add: remove_grant_def)
    with Some Inr show ?thesis
      by (intro added [of shard expiration]) (simp_all add: on_assign_def Let_def add_grant_def)
  qed
qed

lemma on_assign_inv: "drv_inv d \<Longrightarrow> drv_inv (snd (on_assign now g d))"
  by (cases rule: on_assign_cases [of now g d])
    (auto intro!: add_grant_inv remove_grant_inv simp: remove_grant_fields)

lemma on_promote_inv:
  assumes "drv_inv d"
  shows "drv_inv (snd (on_promote g d))"
proof (cases "dr_grants d (GrantId (pbg_id g))")
  case (Some entry)
  let ?d = "d\<lparr>dr_grants := (dr_grants d)(GrantId (pbg_id g) \<mapsto> entry\<lparr>ag_pb := g\<rparr>)\<rparr>"
  have "drv_inv ?d"
  proof (rule drv_invI)
    show "entry_ok ?d gid e" if "dr_grants ?d gid = Some e" for gid e
      using that drv_invD(2) [OF assms Some] drv_invD(2) [OF assms, of gid e]
      by (auto simp: entry_ok_def split: if_splits)
    have kept: "\<exists>e'. dr_grants ?d gid = Some e' \<and> ag_ownership e' = ag_ownership e"
      if "dr_grants d gid = Some e" for gid e
      using that Some by auto
    show "cell_ok ?d a" if a: "a < length (dr_cells ?d)" for a
    proof (rule cell_ok_mono [of d])
      show "cell_ok d a" using drv_invD(3) [OF assms, of a] a by simp
      fix gid e assume "dr_grants d gid = Some e" and "ag_ownership e = a"
      then show "\<exists>gid' e'. dr_grants ?d gid' = Some e' \<and> ag_ownership e' = a" using kept by blast
    qed simp_all
  qed (use drv_invD(1,4) [OF assms] Some in \<open>auto simp: grant_addresses_def fun_eq_iff\<close>)
  with Some show ?thesis by (simp add: on_promote_def on_cell_inv)
qed (simp add: on_promote_def assms)

text \<open>Revocation: the flag of the entry and the latch of its cell change together.\<close>

lemma revoke_entry_inv:
  assumes inv: "drv_inv d" and entry: "dr_grants d gid = Some entry" and "GrantId (pbg_id g) = gid"
  shows "drv_inv (on_cell (ag_ownership entry) (on_own revoke)
    (d\<lparr>dr_grants := (dr_grants d)(gid \<mapsto> entry\<lparr>ag_revoked := True, ag_pb := g\<rparr>)\<rparr>))"
    (is "drv_inv ?q")
proof (rule drv_invI)
  have cells: "i < length (dr_cells d) \<Longrightarrow> dr_cells ?q ! i =
      (if i = ag_ownership entry then on_own revoke (dr_cells d ! i) else dr_cells d ! i)" for i
    by (simp add: on_cell_nth)
  have old: "entry_ok d gid entry" by (rule drv_invD(2) [OF inv entry])
  show "finite (dom (dr_grants ?q))" using drv_invD(1) [OF inv] by simp
  show "entry_ok ?q i e" if "dr_grants ?q i = Some e" for i e
  proof (cases "i = gid")
    case True
    with that have "e = entry\<lparr>ag_revoked := True, ag_pb := g\<rparr>" by simp
    with True old assms(3) show ?thesis by (simp add: entry_ok_def cells revoke_def)
  next
    case False
    with that have e: "dr_grants d i = Some e" by simp
    have "ag_ownership e \<noteq> ag_ownership entry"
      using addresses_distinct [OF inv e entry] False by blast
    with drv_invD(2) [OF inv e] show ?thesis by (simp add: entry_ok_def cells)
  qed
  have kept: "\<exists>e'. dr_grants ?q i = Some e' \<and> ag_ownership e' = ag_ownership e"
    if "dr_grants d i = Some e" for i e
    using that entry by auto
  show "cell_ok ?q a" if "a < length (dr_cells ?q)" for a
  proof (rule cell_ok_mono [of d])
    have a: "a < length (dr_cells d)" using that by simp
    show "cell_ok d a" by (rule drv_invD(3) [OF inv a])
    show "gc_aborted (dr_cells d ! a) \<Longrightarrow> gc_aborted (dr_cells ?q ! a)"
      and "is_closed (ow_expired (gc_own (dr_cells d ! a))) \<Longrightarrow> is_closed (ow_expired (gc_own (dr_cells ?q ! a)))"
      by (auto simp: cells [OF a] revoke_def)
    fix i e assume "dr_grants d i = Some e" and "ag_ownership e = a"
    then show "\<exists>gid' e'. dr_grants ?q gid' = Some e' \<and> ag_ownership e' = a" using kept by blast
  qed
  show "replay (dr_events ?q) Map.empty = grant_addresses ?q"
    using drv_invD(4) [OF inv] entry by (auto simp: grant_addresses_def fun_eq_iff)
qed

lemma on_revoke_inv:
  assumes "drv_inv d"
  shows "drv_inv (snd (on_revoke g d))"
proof -
  let ?gid = "GrantId (pbg_id g)"
  have "drv_inv (on_cell (ag_ownership entry) (on_own revoke)
      (on_cell (ag_ownership entry) (set_expiration_cell e)
        (d\<lparr>dr_grants := (dr_grants d)(?gid \<mapsto> entry\<lparr>ag_revoked := True, ag_pb := g\<rparr>)\<rparr>)))"
    if "dr_grants d ?gid = Some entry" for entry e
  proof -
    let ?upd = "\<lambda>d. d\<lparr>dr_grants := (dr_grants d)(?gid \<mapsto> entry\<lparr>ag_revoked := True, ag_pb := g\<rparr>)\<rparr>"
    have "drv_inv (on_cell (ag_ownership entry) (set_expiration_cell e) d)"
      by (simp add: on_cell_inv assms)
    from revoke_entry_inv [OF this, of ?gid entry g] that
    have "drv_inv (on_cell (ag_ownership entry) (on_own revoke)
        (?upd (on_cell (ag_ownership entry) (set_expiration_cell e) d)))" by simp
    then show ?thesis by (simp add: on_cell_def)
  qed
  moreover have "drv_inv (on_cell (ag_ownership entry) (on_own revoke)
        (d\<lparr>dr_grants := (dr_grants d)(?gid \<mapsto> entry\<lparr>ag_revoked := True, ag_pb := g\<rparr>)\<rparr>))"
    if "dr_grants d ?gid = Some entry" for entry
    using revoke_entry_inv [OF assms that] by simp
  ultimately show ?thesis
    using assms by (auto simp: on_revoke_def Let_def split: sum.split option.split)
qed

lemma on_notify_inv: "drv_inv d \<Longrightarrow> drv_inv (on_notify n d)"
  by (auto simp: on_notify_def on_cell_inv split: option.split GrantState.split)

lemma extend_one_inv: "drv_inv d \<Longrightarrow> drv_inv (extend_one e gid d)"
  by (auto simp: extend_one_def on_cell_inv split: option.split)

lemma on_extend_inv: "drv_inv d \<Longrightarrow> drv_inv (snd (on_extend E e d))"
proof -
  have "drv_inv (fold (extend_one l) gids d)" if "drv_inv d" for l gids
    using that by (induction gids arbitrary: d) (auto intro: extend_one_inv)
  then show "drv_inv d \<Longrightarrow> drv_inv (snd (on_extend E e d))"
    by (auto simp: on_extend_def split: option.split sum.split)
qed

lemma drv_inv_updates [simp]:
  "drv_inv (d\<lparr>dr_pc := c\<rparr>) \<longleftrightarrow> drv_inv d" "drv_inv (d\<lparr>dr_cluster := cm\<rparr>) \<longleftrightarrow> drv_inv d"
  "drv_inv (d\<lparr>dr_heartbeat := h\<rparr>) \<longleftrightarrow> drv_inv d" "drv_inv (d\<lparr>dr_closed := l\<rparr>) \<longleftrightarrow> drv_inv d"
  "drv_inv (d\<lparr>dr_shutdown := l\<rparr>) \<longleftrightarrow> drv_inv d" "drv_inv (d\<lparr>dr_out_open := b\<rparr>) \<longleftrightarrow> drv_inv d"
  "drv_inv (d\<lparr>dr_outbound := ms\<rparr>) \<longleftrightarrow> drv_inv d" "drv_inv (d\<lparr>dr_cluster_rx := b\<rparr>) \<longleftrightarrow> drv_inv d"
  by (rule drv_inv_cong; simp)+

text \<open>What a handler keeps: a general rule for \<open>for_each\<close>.\<close>

lemma for_each_keeps:
  assumes "P d" and "\<And>g d. P d \<Longrightarrow> P (snd (f g d))"
  shows "P (snd (for_each f gs d))"
  using assms(1)
proof (induction gs arbitrary: d)
  case (Cons g gs)
  obtain r d' where f: "f g d = (r, d')" by force
  then have "P d'" using assms(2) [OF Cons.prems, of g] by simp
  then show ?case using Cons.IH f by (cases r) auto
qed simp

lemma handle_inbound_state:
  "snd (handle_inbound E now msg d) =
     (case jm_msg msg of
        Some (Consumer c) \<Rightarrow>
          (case com_msg c of
             Some (Cluster cm) \<Rightarrow> snd (handle_cluster E cm d)
           | Some (Client m) \<Rightarrow> snd (handle_client_message E now m d)
           | None \<Rightarrow> d)
      | _ \<Rightarrow> d)"
  unfolding handle_inbound_def
  by (cases "jm_msg msg")
    (simp_all split: join_Msg.split option.split consumer_Msg.split sum.split SessionEvent.split)

lemma handle_inbound_keeps:
  assumes "P d"
    and "\<And>now g d. P d \<Longrightarrow> P (snd (on_assign now g d))" and "\<And>g d. P d \<Longrightarrow> P (snd (on_promote g d))"
    and "\<And>g d. P d \<Longrightarrow> P (snd (on_revoke g d))" and "\<And>n d. P d \<Longrightarrow> P (on_notify n d)"
    and "\<And>e d. P d \<Longrightarrow> P (snd (on_extend E e d))" and "\<And>d c. P d \<Longrightarrow> P (d\<lparr>dr_cluster := c\<rparr>)"
  shows "P (snd (handle_inbound E now msg d))"
proof -
  have "P (snd (for_each (on_assign now) gs d))" "P (snd (for_each on_promote gs d))"
    "P (snd (for_each on_revoke gs d))" for gs
    by (rule for_each_keeps [where P = P]; use assms in simp)+
  then have "P (snd (handle_client_message E now m d))" for m
    using assms by (auto simp: handle_client_message_def split: option.split client_Msg.split)
  moreover have "P (snd (handle_cluster E cm d))" for cm
    using assms by (auto simp: handle_cluster_def split: sum.split fault.split)
  ultimately show ?thesis
    using assms(1)
    by (simp add: handle_inbound_state split: option.split join_Msg.split consumer_Msg.split)
qed

lemma handle_inbound_inv: "drv_inv d \<Longrightarrow> drv_inv (snd (handle_inbound E now msg d))"
  by (rule handle_inbound_keeps [where P = drv_inv])
    (simp_all add: on_assign_inv on_promote_inv on_revoke_inv on_notify_inv on_extend_inv)

text \<open>Handlers leave the loop's own fields alone.\<close>

definition same_loop :: "driver \<Rightarrow> driver \<Rightarrow> bool" where
  "same_loop d d' \<longleftrightarrow> dr_pc d' = dr_pc d \<and> dr_closed d' = dr_closed d \<and> dr_shutdown d' = dr_shutdown d
     \<and> dr_outbound d' = dr_outbound d \<and> dr_out_open d' = dr_out_open d \<and> dr_taken d' = dr_taken d"

lemma remove_grant_out [simp]:
  "dr_out_open (remove_grant gid d) = dr_out_open d" "dr_taken (remove_grant gid d) = dr_taken d"
  by (auto simp: remove_grant_def Let_def split: option.split)

lemma handlers_same_loop:
  "same_loop c d \<Longrightarrow> same_loop c (snd (on_assign now g d))"
  "same_loop c d \<Longrightarrow> same_loop c (snd (on_promote g d))"
  "same_loop c d \<Longrightarrow> same_loop c (snd (on_revoke g d))"
  "same_loop c d \<Longrightarrow> same_loop c (on_notify n d)"
  "same_loop c d \<Longrightarrow> same_loop c (snd (on_extend E e d))"
proof -
  show "same_loop c d \<Longrightarrow> same_loop c (snd (on_assign now g d))"
    by (cases rule: on_assign_cases [of now g d])
      (simp_all add: same_loop_def add_grant_def remove_grant_fields)
  show "same_loop c d \<Longrightarrow> same_loop c (snd (on_promote g d))"
    by (simp add: same_loop_def on_promote_def Let_def split: option.split)
  show "same_loop c d \<Longrightarrow> same_loop c (snd (on_revoke g d))"
    by (auto simp: same_loop_def on_revoke_def Let_def split: option.split sum.split)
  show "same_loop c d \<Longrightarrow> same_loop c (on_notify n d)"
    by (auto simp: same_loop_def on_notify_def split: option.split GrantState.split)
  have "same_loop c d \<Longrightarrow> same_loop c (fold (extend_one l) gids d)" for l gids
    by (induction gids arbitrary: d) (auto simp: same_loop_def extend_one_def split: option.split)
  then show "same_loop c d \<Longrightarrow> same_loop c (snd (on_extend E e d))"
    by (auto simp: on_extend_def split: option.split sum.split)
qed

lemma handle_inbound_same_loop: "same_loop d (snd (handle_inbound E now msg d))"
  by (rule handle_inbound_keeps [where P = "same_loop d"])
    (use handlers_same_loop [of d] in \<open>simp_all add: same_loop_def\<close>)

section \<open>The loop\<close>

definition grant_order_ok :: "consumer_env \<Rightarrow> bool" where
  "grant_order_ok E \<longleftrightarrow> (\<forall>m. finite (dom m) \<longrightarrow> enumerates (en_grant_order E m) m)"

lemma clean_up_inv: "drv_inv d \<Longrightarrow> drv_inv (clean_up E d)"
  using fold_remove_inv by (simp add: clean_up_def Let_def)

lemma fold_remove_grants: "dr_grants (fold remove_grant gids d) gid = (if gid \<in> set gids then None else dr_grants d gid)"
  by (induction gids arbitrary: d) (auto simp: remove_grant_fields)

lemma clean_up_empty:
  assumes "grant_order_ok E" and "drv_inv d"
  shows "dr_grants (clean_up E d) = Map.empty" and "is_closed (dr_closed (clean_up E d))"
proof -
  have "set (en_grant_order E (dr_grants d)) = dom (dr_grants d)"
    using assms(1) drv_invD(1) [OF assms(2)] by (simp add: grant_order_ok_def enumerates_def)
  then show "dr_grants (clean_up E d) = Map.empty"
    by (auto simp: clean_up_def Let_def fold_remove_grants fun_eq_iff)
qed (simp add: clean_up_def Let_def)

text \<open>The driver has finished exactly if its latch is closed, and then its table is empty.\<close>

definition loop_inv :: "driver \<Rightarrow> bool" where
  "loop_inv d \<longleftrightarrow> drv_inv d
     \<and> (is_closed (dr_closed d) \<longleftrightarrow> (\<exists>r. dr_pc d = Finish r))
     \<and> (\<forall>r. dr_pc d = Finish r \<longrightarrow> dr_grants d = Map.empty)"

lemma break_loop_inv:
  assumes "grant_order_ok E" and "drv_inv d"
  shows "loop_inv (break_loop E r d)"
  using clean_up_inv [OF assms(2), of E] clean_up_empty [OF assms]
  by (simp add: loop_inv_def break_loop_def)

lemma send_out_inv: "drv_inv (snd (send_out m d)) \<longleftrightarrow> drv_inv d"
  by (rule drv_inv_cong) simp_all

lemma inbound_inv:
  assumes "grant_order_ok E" and "loop_inv d" and "dr_pc d = Selecting b"
  shows "loop_inv (inbound_branch E now i d)"
proof -
  have inv: "drv_inv d" and closed: "\<not> is_closed (dr_closed d)"
    using assms(2,3) by (simp_all add: loop_inv_def)
  show ?thesis
  proof (cases i)
    case (Item msg)
    obtain r d' where h: "handle_inbound E now msg d = (r, d')" by force
    have "drv_inv d'" "dr_closed d' = dr_closed d"
      using handle_inbound_inv [OF inv, of E now msg] handle_inbound_same_loop [of d E now msg] h
      by (simp_all add: same_loop_def)
    then show ?thesis
      using closed
      by (auto simp: inbound_branch_def Item h loop_inv_def split: sum.split fault.split option.split)
  qed (simp_all add: inbound_branch_def break_loop_inv [OF assms(1) inv])
qed

lemma on_cell_loop_inv:
  assumes "loop_inv d" and "harmless f"
  shows "loop_inv (on_cell a f d)"
  using assms on_cell_inv [OF _ assms(2)] by (simp add: loop_inv_def)

lemma loop_inv_start: "drv_start E d \<Longrightarrow> loop_inv d"
  by (auto simp: drv_start_def join_def driver_new_def loop_inv_def drv_inv_def grant_addresses_def fun_eq_iff)

lemma loop_inv_cong:
  assumes "dr_grants d' = dr_grants d" "dr_cells d' = dr_cells d" "dr_events d' = dr_events d"
    "dr_closed d' = dr_closed d" "dr_pc d' = dr_pc d"
  shows "loop_inv d' \<longleftrightarrow> loop_inv d"
  by (simp add: loop_inv_def drv_inv_cong [OF assms(1-3)] assms)

lemma loop_inv_updates [simp]:
  "loop_inv (d\<lparr>dr_shutdown := l\<rparr>) \<longleftrightarrow> loop_inv d" "loop_inv (d\<lparr>dr_out_open := b\<rparr>) \<longleftrightarrow> loop_inv d"
  "loop_inv (d\<lparr>dr_cluster_rx := b\<rparr>) \<longleftrightarrow> loop_inv d" "loop_inv (d\<lparr>dr_taken := n\<rparr>) \<longleftrightarrow> loop_inv d"
  by (rule loop_inv_cong; simp)+

lemma loop_inv_step:
  assumes order: "grant_order_ok E" and inv: "loop_inv d" and "drv_step E d d'"
  shows "loop_inv d'"
  using assms(3)
proof cases
  case enter
  then show ?thesis using inv by (auto simp: select_enter_def loop_inv_def)
next
  case shutdown
  then show ?thesis using inv by (auto simp: loop_inv_def)
next
  case leave
  then show ?thesis using inv by (auto simp: leave_branch_def loop_inv_def send_out_inv)
next
  case (heartbeat b now)
  then show ?thesis using inv by (auto simp: loop_inv_def)
next
  case part
  have "drv_inv d" using inv by (simp add: loop_inv_def)
  with part show ?thesis by (simp add: part_branch_def break_loop_inv [OF order] send_out_inv)
next
  case (beat now)
  show ?thesis
  proof (cases "dr_out_open d")
    case True
    then show ?thesis
      using inv beat by (auto simp: heartbeat_branch_def send_out_def loop_inv_def)
  next
    case False
    then show ?thesis
      using inv beat break_loop_inv [OF order, of d]
      by (simp add: heartbeat_branch_def send_out_def loop_inv_def)
  qed
next
  case (inbound b now i)
  then show ?thesis using inbound_inv [OF order inv] by simp
next
  case (send a k)
  then show ?thesis
    using inv loop_inv_cong [of "snd (send_out (signal_message k (gc_pb (dr_cells d ! a))) d)" d]
    by (simp add: watcher_send_def on_cell_loop_inv)
qed (use inv in \<open>simp_all add: on_cell_loop_inv\<close>)

interpretation driver_system: invariant_system "drv_start E" "drv_step E" "\<lambda>d. grant_order_ok E \<longrightarrow> loop_inv d"
  for E
  by unfold_locales (auto intro: loop_inv_start loop_inv_step)

lemma driver_reach_inv: "grant_order_ok E \<Longrightarrow> reach (drv_start E) (drv_step E) d \<Longrightarrow> loop_inv d"
  using driver_system.reach_inv by blast

section \<open>The table, its events and its ownerships\<close>

text \<open>
  C19. The broadcast tells the dispatcher the truth: in every reachable state, replaying all grant events
  sent so far yields exactly the driver's table, each id with the ownership it has there;
  in particular a re-assigned grant is announced as removed before it is announced again.
\<close>

theorem events_replay_table:
  assumes "grant_order_ok E" and "reach (drv_start E) (drv_step E) d"
  shows "replay (dr_events d) Map.empty = (\<lambda>gid. map_option ag_ownership (dr_grants d gid))"
proof -
  have "drv_inv d" using driver_reach_inv [OF assms] by (simp add: loop_inv_def)
  from drv_invD(4) [OF this] show ?thesis by (simp add: grant_addresses_def)
qed

text \<open>
  C11. Every ownership the driver ever handed out is either in the table, under the id it was assigned
  with and with a revoked flag that agrees with its revoked latch, or it has been expired and
  its helper tasks aborted; no two entries share one. So a user that only watches the
  latches never keeps working on a grant that was removed or re-assigned.
\<close>

theorem ownerships_tracked:
  assumes "grant_order_ok E" and "reach (drv_start E) (drv_step E) d" and "a < length (dr_cells d)"
  shows "(\<exists>!gid. map_option ag_ownership (dr_grants d gid) = Some a)
      \<and> (\<forall>gid e. dr_grants d gid = Some e \<longrightarrow> ag_ownership e = a \<longrightarrow>
           gid = GrantId (pbg_id (gc_pb (dr_cells d ! a)))
           \<and> (ag_revoked e \<longleftrightarrow> is_closed (ow_revoked (gc_own (dr_cells d ! a)))))
    \<or> (\<nexists>gid. map_option ag_ownership (dr_grants d gid) = Some a)
      \<and> gc_aborted (dr_cells d ! a) \<and> is_closed (ow_expired (gc_own (dr_cells d ! a)))"
proof -
  have inv: "drv_inv d" using driver_reach_inv [OF assms(1,2)] by (simp add: loop_inv_def)
  show ?thesis
  proof (cases "\<exists>gid e. dr_grants d gid = Some e \<and> ag_ownership e = a")
    case True
    then obtain gid e where e: "dr_grants d gid = Some e" "ag_ownership e = a" by blast
    have ok: "entry_ok d i x" if "dr_grants d i = Some x" for i x by (rule drv_invD(2) [OF inv that])
    have "\<exists>!gid. map_option ag_ownership (dr_grants d gid) = Some a"
      using e addresses_distinct [OF inv] by (intro ex1I [of _ gid]) auto
    moreover have "i = GrantId (pbg_id (gc_pb (dr_cells d ! a)))
        \<and> (ag_revoked x \<longleftrightarrow> is_closed (ow_revoked (gc_own (dr_cells d ! a))))"
      if "dr_grants d i = Some x" "ag_ownership x = a" for i x
      using ok [OF that(1)] that(2) by (simp add: entry_ok_def)
    ultimately show ?thesis by blast
  next
    case False
    then have "\<nexists>gid. map_option ag_ownership (dr_grants d gid) = Some a" by auto
    with False drv_invD(3) [OF inv assms(3)] show ?thesis by (auto simp: cell_ok_def)
  qed
qed

section \<open>The end of the driver\<close>

text \<open>
  When the driver finishes through its clean-up, by shutdown, a failed stream or a failed send,
  nothing is left behind: the table is empty, its closed latch is closed, and every ownership it
  ever handed out is expired with its helpers aborted.
\<close>

theorem finish_cleans_up:
  assumes "grant_order_ok E" and "reach (drv_start E) (drv_step E) d" and "dr_pc d = Finish r"
  shows "dr_grants d = Map.empty \<and> is_closed (dr_closed d)
    \<and> list_all (\<lambda>c. gc_aborted c \<and> is_closed (ow_expired (gc_own c))) (dr_cells d)"
proof -
  have inv: "loop_inv d" by (rule driver_reach_inv [OF assms(1,2)])
  then have "dr_grants d = Map.empty" and "is_closed (dr_closed d)" and "drv_inv d"
    using assms(3) by (auto simp: loop_inv_def)
  with drv_invD(3) [OF \<open>drv_inv d\<close>] show ?thesis
    by (auto simp: list_all_length cell_ok_def)
qed

text \<open>Once the driver has left its loop, no step of another task touches the table or the latch.\<close>

definition loop_left :: "driver_pc \<Rightarrow> bool" where
  "loop_left c \<longleftrightarrow> (\<exists>r e. c = Finish r \<or> c = EarlyReturn e \<or> c = Panicked)"

lemma loop_left_simps:
  "loop_left (Finish r)" "loop_left (EarlyReturn e)" "loop_left Panicked"
  "\<not> loop_left LoopTop" "\<not> loop_left (Selecting b)"
  "\<not> loop_left (Beating now)" "\<not> loop_left Leaving" "\<not> loop_left Parting"
  by (auto simp: loop_left_def)

lemma loop_left_frozen:
  assumes "(drv_step E)\<^sup>*\<^sup>* d d'" and "loop_left (dr_pc d)"
  shows "dr_pc d' = dr_pc d \<and> dr_grants d' = dr_grants d \<and> dr_closed d' = dr_closed d"
  using assms(1)
proof (induction rule: rtranclp_induct)
  case (step u v)
  from step(2) step(3) assms(2) show ?case
    by cases (auto simp: watcher_send_def loop_left_def)
qed simp

text \<open>
  C28. A close by the server skips the clean-up: the error leaves the loop through \<open>?\<close>, and from then on
  the table keeps all its grants, the closed latch never closes, and nothing but a lease's own
  timer expires an ownership. So whoever waits for \<open>closed()\<close> waits for ever.
\<close>

theorem server_close_skips_cleanup:
  assumes "dr_pc d = Selecting b" and "\<not> is_closed (dr_closed d)"
    and "msg = session_wrap (session_Request.Closed \<lparr>cl_error = error\<rparr>)"
    and "(drv_step E)\<^sup>*\<^sup>* (inbound_branch E now (Item msg) d) d'"
  shows "dr_pc d' = EarlyReturn (SessionClosed error) \<and> dr_grants d' = dr_grants d
    \<and> \<not> is_closed (dr_closed d')"
proof -
  have "inbound_branch E now (Item msg) d = d\<lparr>dr_pc := EarlyReturn (SessionClosed error)\<rparr>"
    by (simp add: inbound_branch_def handle_inbound_def assms(3) session_wrap_def classify_def)
  with loop_left_frozen [OF assms(4)] assms(2) show ?thesis by (simp add: loop_left_simps)
qed

section \<open>Shutdown\<close>

lemma break_loop_fields [simp]:
  "dr_pc (break_loop E r d) = Finish r" "dr_outbound (break_loop E r d) = dr_outbound d"
  "dr_shutdown (break_loop E r d) = dr_shutdown d" "dr_taken (break_loop E r d) = dr_taken d"
  "dr_out_open (break_loop E r d) = dr_out_open d" "is_closed (dr_closed (break_loop E r d))"
proof -
  have "dr_outbound (fold remove_grant gids c) = dr_outbound c
      \<and> dr_shutdown (fold remove_grant gids c) = dr_shutdown c
      \<and> dr_taken (fold remove_grant gids c) = dr_taken c
      \<and> dr_out_open (fold remove_grant gids c) = dr_out_open c" for gids c
    by (induction gids arbitrary: c) (simp_all add: remove_grant_fields)
  then show "dr_pc (break_loop E r d) = Finish r" "dr_outbound (break_loop E r d) = dr_outbound d"
    "dr_shutdown (break_loop E r d) = dr_shutdown d" "dr_taken (break_loop E r d) = dr_taken d"
    "dr_out_open (break_loop E r d) = dr_out_open d" "is_closed (dr_closed (break_loop E r d))"
    by (simp_all add: break_loop_def clean_up_def Let_def)
qed

lemma inbound_branch_fields:
  "dr_outbound (inbound_branch E now i d) = dr_outbound d"
  "dr_taken (inbound_branch E now i d) = dr_taken d"
  "dr_out_open (inbound_branch E now i d) = dr_out_open d"
  "dr_shutdown (inbound_branch E now i d) = dr_shutdown d"
  "dr_pc (inbound_branch E now i d) \<noteq> Selecting b"
  "dr_pc (inbound_branch E now i d) \<noteq> Finish None"
proof -
  have same: "same_loop d (snd (handle_inbound E now msg d))" for msg by (rule handle_inbound_same_loop)
  show "dr_outbound (inbound_branch E now i d) = dr_outbound d"
    "dr_taken (inbound_branch E now i d) = dr_taken d"
    "dr_out_open (inbound_branch E now i d) = dr_out_open d"
    "dr_shutdown (inbound_branch E now i d) = dr_shutdown d"
    "dr_pc (inbound_branch E now i d) \<noteq> Selecting b"
    "dr_pc (inbound_branch E now i d) \<noteq> Finish None"
    using same
    by (auto simp: inbound_branch_def same_loop_def
        split: inbound.split prod.split sum.split fault.split option.split) (metis snd_conv)+
qed

lemma message_distinct:
  "signal_message k g \<noteq> wrap_client Deregister" "heartbeat_frame now \<noteq> wrap_client Deregister"
  "closed_frame e \<noteq> wrap_client Deregister"
  by (cases k; simp add: update_message_def revoke_message_def wrap_client_def heartbeat_frame_def
      closed_frame_def session_wrap_def)+

text \<open>A driver that will not notice a shutdown request any more.\<close>

definition noticed :: "driver_pc \<Rightarrow> bool" where
  "noticed c \<longleftrightarrow> c \<in> {Selecting True, Leaving, Parting, Finish None}"

definition deaf :: "driver \<Rightarrow> bool" where
  "deaf d \<longleftrightarrow> is_closed (dr_shutdown d) \<and> \<not> noticed (dr_pc d)"

lemma noticed_simps [simp]:
  "noticed Leaving" "noticed Parting" "\<not> noticed LoopTop" "\<not> noticed (Beating now)" "\<not> noticed (EarlyReturn e)"
  "\<not> noticed Panicked" "noticed (Selecting b) \<longleftrightarrow> b" "noticed (Finish r) \<longleftrightarrow> r = None"
  by (auto simp: noticed_def)

lemma inbound_unnoticed: "\<not> noticed (dr_pc (inbound_branch E now i d))"
  using inbound_branch_fields [of E now i d]
  by (auto simp: inbound_branch_def split: inbound.split prod.split sum.split fault.split option.split)

lemma deaf_step:
  assumes "drv_step E d d'" and "deaf d"
  shows "deaf d' \<and> (wrap_client Deregister \<in> set (dr_outbound d') \<longleftrightarrow> wrap_client Deregister \<in> set (dr_outbound d))"
  using assms(1)
proof cases
  case (beat now)
  then show ?thesis
    using assms(2) by (auto simp: deaf_def heartbeat_branch_def send_out_def message_distinct message_distinct [symmetric])
next
  case (inbound b now i)
  then show ?thesis
    using assms(2) by (simp add: deaf_def inbound_branch_fields inbound_unnoticed)
next
  case (send a k)
  then show ?thesis
    using assms(2) by (auto simp: deaf_def watcher_send_def send_out_def message_distinct message_distinct [symmetric])
qed (use assms(2) in \<open>simp_all add: deaf_def select_enter_def\<close>)

lemma deaf_steps:
  assumes "(drv_step E)\<^sup>*\<^sup>* d d'" and "deaf d"
  shows "deaf d' \<and> (wrap_client Deregister \<in> set (dr_outbound d') \<longleftrightarrow> wrap_client Deregister \<in> set (dr_outbound d))"
  using assms by (induction rule: rtranclp_induct) (auto dest: deaf_step)

text \<open>
  C29. A shutdown request that arrives while the driver is not waiting for one is lost: between two
  turns of its loop, while it sends a heartbeat, or after an earlier request was lost. The guard of
  the next \<open>select!\<close> disables the branch for good, so the driver never deregisters and never
  finishes because of the request; it only ends when the stream ends, fails, or panics.
\<close>

theorem shutdown_lost:
  assumes "dr_pc d = LoopTop \<or> dr_pc d = Beating now \<or> dr_pc d = Selecting False"
    and "is_closed (dr_shutdown d)" and "(drv_step E)\<^sup>*\<^sup>* d d'"
  shows "dr_pc d' \<noteq> Finish None
    \<and> (wrap_client Deregister \<in> set (dr_outbound d') \<longleftrightarrow> wrap_client Deregister \<in> set (dr_outbound d))"
proof -
  have "deaf d" using assms(1,2) by (auto simp: deaf_def)
  from deaf_steps [OF assms(3) this] show ?thesis by (auto simp: deaf_def)
qed

end
