(* ===== verification/ConsumerTasks.thy ===== *)
theory ConsumerTasks
  imports ConsumerLaws ClusterLaws
begin

text \<open>
  The helper tasks of a grant: the signal watchers report what the user did, at most once; an
  extension moves exactly the leases it should; the timer expires a lapsed lease.
\<close>

section \<open>Reported signals\<close>

definition reported :: "signal \<Rightarrow> pb_Grant \<Rightarrow> driver \<Rightarrow> nat set" where
  "reported k g d =
     {a. a < length (dr_cells d) \<and> signal_message k (gc_pb (dr_cells d ! a)) = signal_message k g
       \<and> watcher_of k (dr_cells d ! a) = Finished \<and> is_closed (signal_latch k (gc_own (dr_cells d ! a)))}"

lemma finite_reported [simp]: "finite (reported k g d)"
  by (rule finite_subset [of _ "{..< length (dr_cells d)}"]) (auto simp: reported_def)

definition watch_inv :: "driver \<Rightarrow> bool" where
  "watch_inv d \<longleftrightarrow>
     (\<forall>k g. count_list (dr_outbound d) (signal_message k g) \<le> card (reported k g d))
     \<and> (\<forall>k a. a < length (dr_cells d) \<longrightarrow> watcher_of k (dr_cells d ! a) = Sending \<longrightarrow>
          is_closed (signal_latch k (gc_own (dr_cells d ! a))))"

lemma watch_invD:
  assumes "watch_inv d"
  shows "count_list (dr_outbound d) (signal_message k g) \<le> card (reported k g d)"
    and "a < length (dr_cells d) \<Longrightarrow> watcher_of k (dr_cells d ! a) = Sending \<Longrightarrow>
      is_closed (signal_latch k (gc_own (dr_cells d ! a)))"
  using assms by (simp_all add: watch_inv_def)

lemma watch_inv_updates [simp]:
  "watch_inv (d\<lparr>dr_pc := c\<rparr>) \<longleftrightarrow> watch_inv d" "watch_inv (d\<lparr>dr_cluster := cm\<rparr>) \<longleftrightarrow> watch_inv d"
  "watch_inv (d\<lparr>dr_heartbeat := h\<rparr>) \<longleftrightarrow> watch_inv d" "watch_inv (d\<lparr>dr_closed := l\<rparr>) \<longleftrightarrow> watch_inv d"
  "watch_inv (d\<lparr>dr_shutdown := l\<rparr>) \<longleftrightarrow> watch_inv d" "watch_inv (d\<lparr>dr_out_open := b\<rparr>) \<longleftrightarrow> watch_inv d"
  "watch_inv (d\<lparr>dr_taken := n\<rparr>) \<longleftrightarrow> watch_inv d"
  "watch_inv (d\<lparr>dr_cluster_rx := b\<rparr>) \<longleftrightarrow> watch_inv d" "watch_inv (d\<lparr>dr_grants := m\<rparr>) \<longleftrightarrow> watch_inv d"
  "watch_inv (emit e d) \<longleftrightarrow> watch_inv d"
  by (simp_all add: watch_inv_def reported_def emit_def)

text \<open>More cells may have reported, no more messages were sent.\<close>

lemma watch_inv_mono:
  assumes "watch_inv d" and "dr_outbound d' = dr_outbound d"
    and "\<And>k g. reported k g d \<subseteq> reported k g d'"
    and "\<And>k a. a < length (dr_cells d') \<Longrightarrow> watcher_of k (dr_cells d' ! a) = Sending \<Longrightarrow>
      is_closed (signal_latch k (gc_own (dr_cells d' ! a)))"
  shows "watch_inv d'"
proof -
  have "count_list (dr_outbound d') (signal_message k g) \<le> card (reported k g d')" for k g
    using watch_invD(1) [OF assms(1), of k g] card_mono [OF finite_reported assms(3), of k g] assms(2) by simp
  then show ?thesis using assms(4) by (simp add: watch_inv_def)
qed

definition quiet :: "(cell \<Rightarrow> cell) \<Rightarrow> bool" where
  "quiet f \<longleftrightarrow> (\<forall>c k. gc_pb (f c) = gc_pb c \<and> watcher_of k (f c) = watcher_of k c
     \<and> (is_closed (signal_latch k (gc_own c)) \<longrightarrow> is_closed (signal_latch k (gc_own (f c)))))"

lemma watcher_of_other [simp]:
  "watcher_of k (on_own f c) = watcher_of k c" "watcher_of k (set_expiration_cell e c) = watcher_of k c"
  "watcher_of k (c\<lparr>gc_timer := t\<rparr>) = watcher_of k c" "watcher_of k (c\<lparr>gc_aborted := b\<rparr>) = watcher_of k c"
  "watcher_of k (timer_step t c) = watcher_of k c"
  by (cases k; simp add: on_own_def set_expiration_cell_def timer_step_def split: timer.split)+

lemma signal_kept:
  "is_closed (signal_latch k w) \<Longrightarrow> is_closed (signal_latch k (own_apply x w))"
  using own_leD [OF own_apply_le [of w x]] by (cases k) auto

lemma quiet_own_apply: "quiet (on_own (own_apply x))"
  by (simp add: quiet_def signal_kept)

lemma own_apply_fun:
  "own_apply own_op.Activate = activate" "own_apply own_op.CounterpartLoaded = counterpart_loaded"
  "own_apply own_op.CounterpartUnloaded = counterpart_unloaded" "own_apply own_op.Expire = expire"
  "own_apply own_op.Revoke = revoke"
  by (simp_all add: fun_eq_iff)

lemma quiet_simps [simp]:
  "quiet (on_own activate)" "quiet (on_own counterpart_loaded)" "quiet (on_own counterpart_unloaded)"
  "quiet (on_own expire)" "quiet (on_own revoke)" "quiet (on_own (own_apply x))"
  "quiet (set_expiration_cell e)" "quiet (\<lambda>c. c\<lparr>gc_timer := TDone\<rparr>)"
  "quiet (\<lambda>c. c\<lparr>gc_aborted := True\<rparr>)" "quiet (timer_step t)"
proof -
  show "quiet (on_own (own_apply x))" by (rule quiet_own_apply)
  show "quiet (on_own activate)" using quiet_own_apply [of own_op.Activate] by (simp only: own_apply_fun)
  show "quiet (on_own counterpart_loaded)" using quiet_own_apply [of own_op.CounterpartLoaded] by (simp only: own_apply_fun)
  show "quiet (on_own counterpart_unloaded)" using quiet_own_apply [of own_op.CounterpartUnloaded] by (simp only: own_apply_fun)
  show expire: "quiet (on_own expire)" using quiet_own_apply [of own_op.Expire] by (simp only: own_apply_fun)
  show "quiet (on_own revoke)" using quiet_own_apply [of own_op.Revoke] by (simp only: own_apply_fun)
  show "quiet (set_expiration_cell e)"
    using signal_kept [of _ _ "own_op.SetExpiration e"] by (simp add: quiet_def)
  show "quiet (\<lambda>c. c\<lparr>gc_timer := TDone\<rparr>)" "quiet (\<lambda>c. c\<lparr>gc_aborted := True\<rparr>)"
    by (simp_all add: quiet_def)
  show "quiet (timer_step t)"
    using expire by (auto simp: quiet_def timer_step_def split: timer.split)
qed

lemma on_cell_watch_inv:
  assumes "watch_inv d" and "quiet f"
  shows "watch_inv (on_cell a f d)"
proof (rule watch_inv_mono [OF assms(1)])
  have cell: "gc_pb (dr_cells (on_cell a f d) ! i) = gc_pb (dr_cells d ! i)
      \<and> watcher_of k (dr_cells (on_cell a f d) ! i) = watcher_of k (dr_cells d ! i)
      \<and> (is_closed (signal_latch k (gc_own (dr_cells d ! i))) \<longrightarrow>
          is_closed (signal_latch k (gc_own (dr_cells (on_cell a f d) ! i))))"
    if "i < length (dr_cells d)" for i k
    using assms(2) that by (simp add: on_cell_nth quiet_def)
  then show "reported k g d \<subseteq> reported k g (on_cell a f d)" for k g
    by (auto simp: reported_def)
  fix k i assume "i < length (dr_cells (on_cell a f d))" and "watcher_of k (dr_cells (on_cell a f d) ! i) = Sending"
  with cell show "is_closed (signal_latch k (gc_own (dr_cells (on_cell a f d) ! i)))"
    using watch_invD(2) [OF assms(1)] by simp
qed simp

lemma remove_grant_watch_inv: "watch_inv d \<Longrightarrow> watch_inv (remove_grant gid d)"
  by (auto simp: remove_grant_def Let_def on_cell_watch_inv split: option.split)

lemma add_grant_watch_inv:
  assumes "watch_inv d"
  shows "watch_inv (add_grant gid shard g w rvk d)"
proof (rule watch_inv_mono [OF assms])
  have cells: "dr_cells (add_grant gid shard g w rvk d) = dr_cells d @ [cell_new w g]"
    by (simp add: add_grant_def)
  then show "reported k h d \<subseteq> reported k h (add_grant gid shard g w rvk d)" for k h
    by (auto simp: reported_def nth_append)
  have new: "watcher_of k (cell_new w g) = Watching" for k by (cases k) (simp_all add: cell_new_def)
  fix k a assume "a < length (dr_cells (add_grant gid shard g w rvk d))"
    and "watcher_of k (dr_cells (add_grant gid shard g w rvk d) ! a) = Sending"
  then show "is_closed (signal_latch k (gc_own (dr_cells (add_grant gid shard g w rvk d) ! a)))"
    using watch_invD(2) [OF assms] new by (auto simp: cells nth_append split: if_splits)
qed (simp add: add_grant_def)

lemma handle_inbound_watch_inv: "watch_inv d \<Longrightarrow> watch_inv (snd (handle_inbound E now msg d))"
proof (rule handle_inbound_keeps [where P = watch_inv])
  fix now g d assume inv: "watch_inv d"
  show "watch_inv (snd (on_assign now g d))"
    by (cases rule: on_assign_cases [of now g d])
      (simp_all add: inv add_grant_watch_inv remove_grant_watch_inv)
next
  fix g d assume inv: "watch_inv d"
  show "watch_inv (snd (on_promote g d))"
    by (simp add: on_promote_def Let_def on_cell_watch_inv inv split: option.split)
  show "watch_inv (snd (on_revoke g d))"
    by (auto simp: on_revoke_def Let_def on_cell_watch_inv inv split: option.split sum.split)
next
  fix n d assume "watch_inv d"
  then show "watch_inv (on_notify n d)"
    by (simp add: on_notify_def on_cell_watch_inv split: option.split GrantState.split)
next
  fix e d assume inv: "watch_inv d"
  have "watch_inv d \<Longrightarrow> watch_inv (fold (extend_one l) gids d)" for l gids d
    by (induction gids arbitrary: d) (auto simp: extend_one_def on_cell_watch_inv split: option.split)
  then show "watch_inv (snd (on_extend E e d))"
    using inv by (simp add: on_extend_def split: option.split sum.split)
qed simp_all

text \<open>The driver's own messages are not signal reports.\<close>

lemma own_messages:
  "signal_message k g \<noteq> wrap_client Deregister" "signal_message k g \<noteq> closed_frame e"
  "signal_message k g \<noteq> heartbeat_frame now" "signal_message k g \<noteq> establish_frame i s"
  "signal_message k g \<noteq> build_register U c svc opts"
  by (cases k; simp add: update_message_def revoke_message_def wrap_client_def closed_frame_def
      heartbeat_frame_def establish_frame_def session_wrap_def build_register_def)+

lemma signal_message_inj: "signal_message k g = signal_message k' g' \<Longrightarrow> k = k'"
  by (cases k; cases k') (auto simp: update_message_def revoke_message_def wrap_client_def
      dest: arg_cong [where f = pbg_state])

lemma send_own_watch_inv:
  assumes "watch_inv d" and "\<And>k g. m \<noteq> signal_message k g"
  shows "watch_inv (snd (send_out m d))"
  using assms(1) assms(2) [symmetric] by (auto simp: watch_inv_def reported_def send_out_def)

lemma break_loop_watch_inv:
  assumes "watch_inv d"
  shows "watch_inv (break_loop E r d)"
proof -
  have "watch_inv d \<Longrightarrow> watch_inv (fold remove_grant gids d)" for gids d
    by (induction gids arbitrary: d) (auto intro: remove_grant_watch_inv)
  then show ?thesis by (simp add: break_loop_def clean_up_def Let_def assms)
qed

lemma watcher_of_set [simp]:
  "watcher_of k (set_watcher k' t c) = (if k = k' then t else watcher_of k c)"
  by (cases k; cases k') simp_all

text \<open>A watcher that has not finished may move on; \<open>Sending\<close> needs its signal.\<close>

lemma set_watcher_watch_inv:
  assumes "watch_inv d" and "a < length (dr_cells d)"
    and "t = Sending \<Longrightarrow> is_closed (signal_latch k (gc_own (dr_cells d ! a)))"
    and "watcher_of k (dr_cells d ! a) = Finished \<Longrightarrow> t = Finished"
  shows "watch_inv (on_cell a (set_watcher k t) d)"
proof (rule watch_inv_mono [OF assms(1)])
  show "reported k' g d \<subseteq> reported k' g (on_cell a (set_watcher k t) d)" for k' g
    using assms(4) by (auto simp: reported_def on_cell_nth)
  fix k' i assume "i < length (dr_cells (on_cell a (set_watcher k t) d))"
    and "watcher_of k' (dr_cells (on_cell a (set_watcher k t) d) ! i) = Sending"
  then show "is_closed (signal_latch k' (gc_own (dr_cells (on_cell a (set_watcher k t) d) ! i)))"
    using watch_invD(2) [OF assms(1)] assms(3) by (auto simp: on_cell_nth split: if_splits)
qed simp

lemma watcher_send_watch_inv:
  assumes inv: "watch_inv d" and a: "a < length (dr_cells d)" and "watcher_of k (dr_cells d ! a) = Sending"
  shows "watch_inv (watcher_send k a d)"
proof -
  let ?m = "signal_message k (gc_pb (dr_cells d ! a))"
  let ?q = "on_cell a (set_watcher k Finished) d"
  have q: "watch_inv ?q" by (rule set_watcher_watch_inv [OF inv a]) simp_all
  have send: "watcher_send k a d =
      (if dr_out_open d then ?q\<lparr>dr_outbound := dr_outbound d @ [?m]\<rparr> else ?q)"
    by (simp add: watcher_send_def send_out_def on_cell_def)
  have sig: "is_closed (signal_latch k (gc_own (dr_cells d ! a)))" by (rule watch_invD(2) [OF inv a assms(3)])
  have "count_list (dr_outbound d @ [?m]) (signal_message k' g) \<le> card (reported k' g ?q)" for k' g
  proof (cases "?m = signal_message k' g")
    case True
    then have k: "k' = k" using signal_message_inj by metis
    have "a \<notin> reported k g d" using assms(3) by (simp add: reported_def)
    moreover have "insert a (reported k g d) \<subseteq> reported k g ?q"
      using a sig True k by (auto simp: reported_def on_cell_nth)
    then have "card (insert a (reported k g d)) \<le> card (reported k g ?q)"
      by (intro card_mono finite_reported)
    ultimately show ?thesis using watch_invD(1) [OF inv, of k g] True k by simp
  next
    case False
    then show ?thesis using watch_invD(1) [OF q, of k' g] by simp
  qed
  then have "watch_inv (?q\<lparr>dr_outbound := dr_outbound d @ [?m]\<rparr>)"
    using watch_invD(2) [OF q] by (simp add: watch_inv_def reported_def)
  with q show ?thesis by (simp add: send)
qed

lemma watch_inv_start: "drv_start E d \<Longrightarrow> watch_inv d"
  by (auto simp: drv_start_def join_def driver_new_def watch_inv_def own_messages own_messages [symmetric])

lemma watch_inv_step:
  assumes "watch_inv d" and "drv_step E d d'"
  shows "watch_inv d'"
  using assms(2)
proof cases
  case enter
  then show ?thesis using assms(1) by (simp add: select_enter_def)
next
  case leave
  then show ?thesis using assms(1) by (simp add: leave_branch_def send_own_watch_inv own_messages [symmetric])
next
  case part
  then show ?thesis
    using assms(1) by (simp add: part_branch_def break_loop_watch_inv send_own_watch_inv own_messages [symmetric])
next
  case (beat now)
  have sent: "watch_inv (snd (send_out (heartbeat_frame now) d))"
    by (rule send_own_watch_inv [OF assms(1)]) (simp add: own_messages [symmetric])
  then show ?thesis
    using beat assms(1)
    by (auto simp: heartbeat_branch_def send_out_def break_loop_watch_inv split: if_splits)
next
  case (inbound b now i)
  show ?thesis
  proof (cases i)
    case (Item msg)
    obtain r q where h: "handle_inbound E now msg d = (r, q)" by force
    then have "watch_inv q" using handle_inbound_watch_inv [OF assms(1), of E now msg] by simp
    then show ?thesis
      using inbound by (auto simp: inbound_branch_def Item h split: sum.split fault.split option.split)
  qed (use inbound assms(1) in \<open>simp_all add: inbound_branch_def break_loop_watch_inv\<close>)
next
  case (watch a k t)
  then show ?thesis
    using assms(1) by (auto simp: watcher_select_def intro!: set_watcher_watch_inv split: if_splits)
next
  case (send a k)
  then show ?thesis using watcher_send_watch_inv [OF assms(1)] by simp
next
  case (stop a k)
  then show ?thesis using assms(1) by (auto intro!: set_watcher_watch_inv)
qed (use assms(1) in \<open>simp_all add: on_cell_watch_inv\<close>)

interpretation watcher_system: invariant_system "drv_start E" "drv_step E" watch_inv for E
  by unfold_locales (rule watch_inv_start, assumption, rule watch_inv_step)

text \<open>
  C21. What the coordinator is told is what the user did: the number of \<open>Update\<close> (loaded, unloaded) and
  \<open>Revoke\<close> messages sent for a grant never exceeds the number of its assignments whose user
  raised that very signal; so each assignment reports each signal at most once, and never
  before it was raised.
\<close>

theorem signals_reported_once:
  assumes "reach (drv_start E) (drv_step E) d"
  shows "count_list (dr_outbound d) (signal_message k g)
    \<le> card {a. a < length (dr_cells d) \<and> signal_message k (gc_pb (dr_cells d ! a)) = signal_message k g
        \<and> is_closed (signal_latch k (gc_own (dr_cells d ! a)))}"
proof -
  have "watch_inv d" by (rule watcher_system.reach_inv [OF assms])
  then have "count_list (dr_outbound d) (signal_message k g) \<le> card (reported k g d)"
    by (rule watch_invD(1))
  also have "\<dots> \<le> card {a. a < length (dr_cells d) \<and> signal_message k (gc_pb (dr_cells d ! a)) = signal_message k g
        \<and> is_closed (signal_latch k (gc_own (dr_cells d ! a)))}"
    by (rule card_mono) (auto simp: reported_def)
  finally show ?thesis .
qed

section \<open>Extending leases\<close>

lemma set_expiration_cell_twice: "set_expiration_cell e (set_expiration_cell e c) = set_expiration_cell e c"
  by (simp add: set_expiration_cell_def set_expiration_def split: timer.split)

lemma fold_extend:
  assumes "a < length (dr_cells d)"
  shows "dr_grants (fold (extend_one l) gids d) = dr_grants d
    \<and> length (dr_cells (fold (extend_one l) gids d)) = length (dr_cells d)
    \<and> dr_cells (fold (extend_one l) gids d) ! a =
       (if \<exists>gid \<in> set gids. \<exists>e. dr_grants d gid = Some e \<and> ag_ownership e = a \<and> \<not> ag_revoked e
        then set_expiration_cell l (dr_cells d ! a) else dr_cells d ! a)"
  using assms
proof (induction gids arbitrary: d)
  case (Cons gid gids)
  let ?d = "extend_one l gid d"
  have d: "dr_grants ?d = dr_grants d" "length (dr_cells ?d) = length (dr_cells d)"
    and cell: "dr_cells ?d ! a =
      (if \<exists>e. dr_grants d gid = Some e \<and> ag_ownership e = a \<and> \<not> ag_revoked e
       then set_expiration_cell l (dr_cells d ! a) else dr_cells d ! a)"
    using Cons.prems by (auto simp: extend_one_def on_cell_nth split: option.split)
  have "a < length (dr_cells ?d)" using Cons.prems d by simp
  from Cons.IH [OF this] show ?case by (auto simp: d cell set_expiration_cell_twice)
qed simp

text \<open>
  An extension moves the expiration of exactly the grants of the table that are not revoked to the
  new lease, in whatever order the table is iterated; the lease of a revoked grant and of every
  ownership that has left the table stays as it was, and no latch, no entry and no event is
  touched.
\<close>

theorem extend_exact:
  assumes "grant_order_ok E" and "reach (drv_start E) (drv_step E) d"
    and "ex_lease x = Some t" and "timestamp_to_system_time t = Inr lease" and "a < length (dr_cells d)"
  shows "fst (on_extend E x d) = Inr ()
    \<and> dr_grants (snd (on_extend E x d)) = dr_grants d
    \<and> own_latches (gc_own (dr_cells (snd (on_extend E x d)) ! a)) = own_latches (gc_own (dr_cells d ! a))
    \<and> ow_expiration (gc_own (dr_cells (snd (on_extend E x d)) ! a)) =
       (if \<exists>gid e. dr_grants d gid = Some e \<and> ag_ownership e = a \<and> \<not> ag_revoked e
        then lease else ow_expiration (gc_own (dr_cells d ! a)))"
proof -
  let ?gids = "en_grant_order E (dr_grants d)"
  have "finite (dom (dr_grants d))"
    using driver_reach_inv [OF assms(1,2)] by (simp add: loop_inv_def drv_inv_def)
  then have gids: "set ?gids = dom (dr_grants d)"
    using assms(1) by (simp add: grant_order_ok_def enumerates_def)
  have ext: "on_extend E x d = (Inr (), fold (extend_one lease) ?gids d)"
    by (simp add: on_extend_def assms(3,4))
  note folded = fold_extend [OF assms(5), of lease ?gids]
  have "(\<exists>gid \<in> set ?gids. \<exists>e. dr_grants d gid = Some e \<and> ag_ownership e = a \<and> \<not> ag_revoked e)
      \<longleftrightarrow> (\<exists>gid e. dr_grants d gid = Some e \<and> ag_ownership e = a \<and> \<not> ag_revoked e)"
    by (auto simp: gids)
  with folded show ?thesis
    by (auto simp: ext own_latches_def set_expiration_def)
qed

section \<open>The expiration timer\<close>

definition timer_inv :: "driver \<Rightarrow> bool" where
  "timer_inv d \<longleftrightarrow> list_all (\<lambda>c. (gc_aborted c \<or> gc_timer c = TDone) \<longrightarrow> is_closed (ow_expired (gc_own c))) (dr_cells d)"

lemma on_cell_timer_inv:
  assumes "timer_inv d"
    and "a < length (dr_cells d) \<Longrightarrow> (gc_aborted (f (dr_cells d ! a)) \<or> gc_timer (f (dr_cells d ! a)) = TDone) \<Longrightarrow>
      is_closed (ow_expired (gc_own (f (dr_cells d ! a))))"
  shows "timer_inv (on_cell a f d)"
  using assms by (auto simp: timer_inv_def list_all_length on_cell_nth)

lemma timer_invD:
  "timer_inv d \<Longrightarrow> a < length (dr_cells d) \<Longrightarrow> gc_aborted (dr_cells d ! a) \<or> gc_timer (dr_cells d ! a) = TDone \<Longrightarrow>
   is_closed (ow_expired (gc_own (dr_cells d ! a)))"
  by (auto simp: timer_inv_def list_all_length)

lemma timer_inv_updates [simp]:
  "timer_inv (d\<lparr>dr_pc := c\<rparr>) \<longleftrightarrow> timer_inv d" "timer_inv (d\<lparr>dr_cluster := cm\<rparr>) \<longleftrightarrow> timer_inv d"
  "timer_inv (d\<lparr>dr_heartbeat := h\<rparr>) \<longleftrightarrow> timer_inv d" "timer_inv (d\<lparr>dr_closed := l\<rparr>) \<longleftrightarrow> timer_inv d"
  "timer_inv (d\<lparr>dr_shutdown := l\<rparr>) \<longleftrightarrow> timer_inv d" "timer_inv (d\<lparr>dr_out_open := b\<rparr>) \<longleftrightarrow> timer_inv d"
  "timer_inv (d\<lparr>dr_taken := n\<rparr>) \<longleftrightarrow> timer_inv d"
  "timer_inv (d\<lparr>dr_cluster_rx := b\<rparr>) \<longleftrightarrow> timer_inv d" "timer_inv (d\<lparr>dr_grants := m\<rparr>) \<longleftrightarrow> timer_inv d"
  "timer_inv (d\<lparr>dr_outbound := ms\<rparr>) \<longleftrightarrow> timer_inv d" "timer_inv (emit e d) \<longleftrightarrow> timer_inv d" "timer_inv (snd (send_out msg d)) \<longleftrightarrow> timer_inv d"
  by (simp_all add: timer_inv_def)

lemma on_own_timer_inv:
  assumes "timer_inv d" and "\<And>w. is_closed (ow_expired w) \<Longrightarrow> is_closed (ow_expired (f w))"
  shows "timer_inv (on_cell a (on_own f) d)"
  by (rule on_cell_timer_inv [OF assms(1)]) (use timer_invD [OF assms(1)] assms(2) in \<open>auto simp: on_own_def\<close>)

lemma set_expiration_timer_inv: "timer_inv d \<Longrightarrow> timer_inv (on_cell a (set_expiration_cell e) d)"
  by (rule on_cell_timer_inv)
    (use timer_invD in \<open>auto simp: set_expiration_cell_def set_expiration_def split: timer.splits\<close>)

lemma remove_grant_timer_inv: "timer_inv d \<Longrightarrow> timer_inv (remove_grant gid d)"
  by (auto simp: remove_grant_def Let_def on_cell_nth expire_def
      intro!: on_cell_timer_inv on_own_timer_inv split: option.split)

lemma add_grant_timer_inv: "timer_inv d \<Longrightarrow> timer_inv (add_grant gid shard g w rvk d)"
  by (simp add: add_grant_def timer_inv_def cell_new_def)

lemma handle_inbound_timer_inv: "timer_inv d \<Longrightarrow> timer_inv (snd (handle_inbound E now msg d))"
proof (rule handle_inbound_keeps [where P = timer_inv])
  fix now g d assume inv: "timer_inv d"
  show "timer_inv (snd (on_assign now g d))"
    by (cases rule: on_assign_cases [of now g d])
      (simp_all add: inv add_grant_timer_inv remove_grant_timer_inv)
next
  fix g d assume inv: "timer_inv d"
  show "timer_inv (snd (on_promote g d))"
    by (auto simp: on_promote_def Let_def inv activate_def intro!: on_own_timer_inv split: option.split)
  show "timer_inv (snd (on_revoke g d))"
    by (auto simp: on_revoke_def Let_def inv revoke_def intro!: on_own_timer_inv set_expiration_timer_inv
        split: option.split sum.split)
next
  fix n d assume "timer_inv d"
  then show "timer_inv (on_notify n d)"
    by (auto simp: on_notify_def counterpart_loaded_def counterpart_unloaded_def intro!: on_own_timer_inv
        split: option.split GrantState.split)
next
  fix e d assume inv: "timer_inv d"
  have "timer_inv d \<Longrightarrow> timer_inv (fold (extend_one l) gids d)" for l gids d
    by (induction gids arbitrary: d) (auto simp: extend_one_def set_expiration_timer_inv split: option.split)
  then show "timer_inv (snd (on_extend E e d))"
    using inv by (simp add: on_extend_def split: option.split sum.split)
qed simp_all

lemma break_loop_timer_inv:
  assumes "timer_inv d"
  shows "timer_inv (break_loop E r d)"
proof -
  have "timer_inv d \<Longrightarrow> timer_inv (fold remove_grant gids d)" for gids d
    by (induction gids arbitrary: d) (auto intro: remove_grant_timer_inv)
  then show ?thesis by (simp add: break_loop_def clean_up_def Let_def assms)
qed

lemma set_watcher_timer [simp]: "gc_timer (set_watcher k t c) = gc_timer c"
  by (cases k) simp_all

lemma timer_inv_step:
  assumes "timer_inv d" and "drv_step E d d'"
  shows "timer_inv d'"
  using assms(2)
proof cases
  case enter
  then show ?thesis using assms(1) by (simp add: select_enter_def)
next
  case leave
  then show ?thesis using assms(1) by (simp add: leave_branch_def)
next
  case part
  then show ?thesis using assms(1) by (simp add: part_branch_def break_loop_timer_inv)
next
  case (beat now)
  then show ?thesis
    using assms(1) by (auto simp: heartbeat_branch_def send_out_def break_loop_timer_inv)
next
  case (inbound b now i)
  show ?thesis
  proof (cases i)
    case (Item msg)
    obtain r q where h: "handle_inbound E now msg d = (r, q)" by force
    then have "timer_inv q" using handle_inbound_timer_inv [OF assms(1), of E now msg] by simp
    then show ?thesis
      using inbound by (auto simp: inbound_branch_def Item h split: sum.split fault.split option.split)
  qed (use inbound assms(1) in \<open>simp_all add: inbound_branch_def break_loop_timer_inv\<close>)
next
  case (user a x)
  then show ?thesis using assms(1) by (auto intro!: on_own_timer_inv own_leD(3) [OF own_apply_le])
next
  case (send a k)
  then show ?thesis
    using assms(1) timer_invD [OF assms(1)] by (auto simp: watcher_send_def intro!: on_cell_timer_inv)
next
  case (tick a t now)
  have "is_closed (ow_expired (gc_own (timer_step t (dr_cells d ! a))))"
    if "gc_aborted (timer_step t (dr_cells d ! a)) \<or> gc_timer (timer_step t (dr_cells d ! a)) = TDone"
    using tick timer_invD [OF assms(1), of a] that
    by (cases "gc_timer (dr_cells d ! a)")
      (auto simp: timer_step_def expire_def on_own_def split: if_splits)
  with tick show ?thesis using on_cell_timer_inv [OF assms(1)] by blast
qed (use assms(1) timer_invD [OF assms(1)] in \<open>auto intro!: on_cell_timer_inv\<close>)

lemma timer_inv_start: "drv_start E d \<Longrightarrow> timer_inv d"
  by (auto simp: drv_start_def join_def driver_new_def timer_inv_def)

interpretation timer_system: invariant_system "drv_start E" "drv_step E" timer_inv for E
  by unfold_locales (rule timer_inv_start, assumption, rule timer_inv_step)

text \<open>The time a timer waits for, if it waits.\<close>

fun wake_time :: "timer \<Rightarrow> SystemTime option" where
  "wake_time (TArmed w) = Some w"
| "wake_time (TSleep w) = Some w"
| "wake_time (TWoken w) = Some w"
| "wake_time _ = None"

definition due :: "SystemTime \<Rightarrow> timer \<Rightarrow> bool" where
  "due now t \<longleftrightarrow> (case wake_time t of None \<Rightarrow> True | Some w \<Rightarrow> w \<le> now)"

text \<open>Each turn of a due timer of a lapsed lease brings it nearer to \<open>expire\<close>.\<close>

fun timer_rank :: "timer \<Rightarrow> nat" where
  "timer_rank TDone = 0" | "timer_rank TFire = 1" | "timer_rank TCheck = 2" | "timer_rank TTop = 3"
| "timer_rank (TWoken w) = 4" | "timer_rank (TSleep w) = 4" | "timer_rank (TArmed w) = 5"

fun timer_next :: "timer \<Rightarrow> timer" where
  "timer_next TTop = TFire" | "timer_next (TArmed w) = TSleep w" | "timer_next (TSleep w) = TCheck"
| "timer_next (TWoken w) = TTop" | "timer_next TCheck = TFire" | "timer_next TFire = TDone"
| "timer_next TDone = TDone"

lemma timer_next_move:
  assumes "\<not> is_closed (ow_expired w)" and "t \<noteq> TDone" and "ow_expiration w \<le> now" and "due now t"
  shows "timer_next t \<in> set (timer_moves now w t)" and "timer_rank (timer_next t) < timer_rank t"
    and "due now (timer_next t)"
  using assms by (cases t; simp add: time_left_zero due_def)+

lemma lapsed_timer_steps:
  assumes "timer_inv d" and "a < length (dr_cells d)"
    and "ow_expiration (gc_own (dr_cells d ! a)) \<le> now" and "due now (gc_timer (dr_cells d ! a))"
  shows "\<exists>d'. (drv_step E)\<^sup>*\<^sup>* d d' \<and> is_closed (ow_expired (gc_own (dr_cells d' ! a)))"
  using assms
proof (induction "timer_rank (gc_timer (dr_cells d ! a))" arbitrary: d rule: less_induct)
  case less
  let ?c = "dr_cells d ! a"
  show ?case
  proof (cases "is_closed (ow_expired (gc_own ?c))")
    case open': False
    then have "gc_timer ?c \<noteq> TDone" using timer_invD [OF less.prems(1,2)] by blast
    note nxt = timer_next_move [OF open' this less.prems(3,4)]
    let ?d = "on_cell a (timer_step (timer_next (gc_timer ?c))) d"
    have step: "drv_step E d ?d" by (rule drv_step.tick [OF less.prems(2) nxt(1)])
    have cell: "gc_timer (dr_cells ?d ! a) = timer_next (gc_timer ?c)" "ow_expiration (gc_own (dr_cells ?d ! a)) = ow_expiration (gc_own ?c)"
      using less.prems(2) by (auto simp: on_cell_nth timer_step_def on_own_def expire_def split: timer.split)
    have "\<exists>d'. (drv_step E)\<^sup>*\<^sup>* ?d d' \<and> is_closed (ow_expired (gc_own (dr_cells d' ! a)))"
      by (rule less.hyps)
        (use nxt less.prems cell timer_inv_step [OF less.prems(1) step] in simp_all)
    with step show ?thesis by (meson converse_rtranclp_into_rtranclp)
  qed blast
qed

text \<open>
  A lapsed lease expires: whenever the expiration of an ownership has passed, and the time its
  timer waits for too, the timer's own steps expire it, without help from the driver, the user or the
  server.
\<close>

theorem lapsed_lease_expires:
  assumes "reach (drv_start E) (drv_step E) d" and "a < length (dr_cells d)"
    and "ow_expiration (gc_own (dr_cells d ! a)) \<le> now" and "due now (gc_timer (dr_cells d ! a))"
  shows "\<exists>d'. (drv_step E)\<^sup>*\<^sup>* d d' \<and> is_closed (ow_expired (gc_own (dr_cells d' ! a)))"
  using lapsed_timer_steps [OF timer_system.reach_inv [OF assms(1)] assms(2-4)] .

end
