(* ===== verification/ConsumerSpec.thy ===== *)
theory ConsumerSpec
  imports ConsumerLaws
begin

text \<open>
  An abstract specification of the stream driver and its refinement. Abstractly, a stream is a map
  from grant ids to ownerships: there are no addresses, no revoked flags and no helper tasks, and
  a message of the coordinator is a pure function on the map. The driver implements it with a
  table, a store of shared cells and a flag per entry.
\<close>

section \<open>The abstract lease table\<close>

type_synonym lease_table = "GrantId \<rightharpoonup> Ownership"

definition at_grant :: "GrantId \<Rightarrow> (Ownership \<Rightarrow> Ownership) \<Rightarrow> lease_table \<Rightarrow> lease_table" where
  "at_grant gid f m = m(gid := map_option f (m gid))"

definition spec_assign :: "SystemTime \<Rightarrow> pb_Grant \<Rightarrow> lease_table \<Rightarrow> (fault + unit) \<times> lease_table" where
  "spec_assign now g m =
     (case assign_shard g of
        None \<Rightarrow> (Inr (), m)
      | Some shard \<Rightarrow>
          (case assign_expiration now g of
             Inl p \<Rightarrow> (Inl p, m)
           | Inr expiration \<Rightarrow>
               (Inr (), m(GrantId (pbg_id g) \<mapsto>
                  ownership_new (grant_state_from_i32 (pbg_state g)) expiration now))))"

definition spec_promote :: "pb_Grant \<Rightarrow> lease_table \<Rightarrow> (fault + unit) \<times> lease_table" where
  "spec_promote g m = (Inr (), at_grant (GrantId (pbg_id g)) activate m)"

definition spec_revoke :: "pb_Grant \<Rightarrow> lease_table \<Rightarrow> (fault + unit) \<times> lease_table" where
  "spec_revoke g m =
     (case pbg_lease g of
        None \<Rightarrow> (Inr (), at_grant (GrantId (pbg_id g)) revoke m)
      | Some t \<Rightarrow>
          (case timestamp_to_system_time t of
             Inl p \<Rightarrow> (Inl p, m)
           | Inr e \<Rightarrow> (Inr (), at_grant (GrantId (pbg_id g)) (revoke \<circ> set_expiration e) m)))"

definition spec_notify :: "pb_Notify \<Rightarrow> lease_table \<Rightarrow> lease_table" where
  "spec_notify n m =
     (case (no_target n, no_update n) of
        (Some target, Some update) \<Rightarrow>
          (case grant_state_from_i32 (pbg_state update) of
             GrantState.AllocatedLoaded \<Rightarrow> at_grant (GrantId (pbg_id target)) counterpart_loaded m
           | GrantState.RevokedUnloaded \<Rightarrow> at_grant (GrantId (pbg_id target)) counterpart_unloaded m
           | _ \<Rightarrow> m)
      | _ \<Rightarrow> m)"

definition extend_lease :: "SystemTime \<Rightarrow> Ownership \<Rightarrow> Ownership" where
  "extend_lease t w = (if is_closed (ow_revoked w) then w else set_expiration t w)"

definition spec_extend :: "pb_Extend \<Rightarrow> lease_table \<Rightarrow> (fault + unit) \<times> lease_table" where
  "spec_extend e m =
     (case ex_lease e of
        None \<Rightarrow> (Inr (), m)
      | Some t \<Rightarrow>
          (case timestamp_to_system_time t of
             Inl p \<Rightarrow> (Inl p, m)
           | Inr lease \<Rightarrow> (Inr (), \<lambda>gid. map_option (extend_lease lease) (m gid))))"

definition spec_message :: "SystemTime \<Rightarrow> pb_ClientMessage \<Rightarrow> lease_table \<Rightarrow> (fault + unit) \<times> lease_table" where
  "spec_message now msg m =
     (case clm_msg msg of
        Some (Assign gs) \<Rightarrow> for_each (spec_assign now) gs m
      | Some (Promote gs) \<Rightarrow> for_each spec_promote gs m
      | Some (client_Msg.Revoke gs) \<Rightarrow> for_each spec_revoke gs m
      | Some (Notify n) \<Rightarrow> (Inr (), spec_notify n m)
      | Some (Extend e) \<Rightarrow> spec_extend e m
      | _ \<Rightarrow> (Inr (), m))"

section \<open>Abstraction\<close>

definition leases :: "driver \<Rightarrow> lease_table" where
  "leases d = (\<lambda>gid. map_option (\<lambda>e. gc_own (dr_cells d ! ag_ownership e)) (dr_grants d gid))"

lemma leases_cong: "dr_grants d' = dr_grants d \<Longrightarrow> dr_cells d' = dr_cells d \<Longrightarrow> leases d' = leases d"
  by (simp add: leases_def)

lemma leases_updates [simp]:
  "leases (d\<lparr>dr_pc := c\<rparr>) = leases d" "leases (d\<lparr>dr_cluster := cm\<rparr>) = leases d"
  "leases (d\<lparr>dr_heartbeat := h\<rparr>) = leases d" "leases (d\<lparr>dr_closed := l\<rparr>) = leases d"
  "leases (d\<lparr>dr_shutdown := l\<rparr>) = leases d" "leases (d\<lparr>dr_out_open := b\<rparr>) = leases d"
  "leases (d\<lparr>dr_taken := n\<rparr>) = leases d"
  "leases (d\<lparr>dr_cluster_rx := b\<rparr>) = leases d" "leases (snd (send_out m d)) = leases d"
  by (simp_all add: leases_def)

text \<open>An update of the cell of an entry is an update of that entry, since no two entries share a cell.\<close>

lemma leases_on_cell:
  assumes inv: "drv_inv d" and e: "dr_grants d gid = Some e" and f: "\<And>c. gc_own (f c) = h (gc_own c)"
  shows "leases (on_cell (ag_ownership e) f d) = at_grant gid h (leases d)"
proof
  fix g
  have ok: "ag_ownership x < length (dr_cells d)" if "dr_grants d i = Some x" for i x
    using drv_invD(2) [OF inv that] by (simp add: entry_ok_def)
  show "leases (on_cell (ag_ownership e) f d) g = at_grant gid h (leases d) g"
  proof (cases "g = gid")
    case True
    then show ?thesis using ok [OF e] e f by (simp add: leases_def at_grant_def on_cell_nth)
  next
    case False
    then have "ag_ownership x \<noteq> ag_ownership e" if "dr_grants d g = Some x" for x
      using addresses_distinct [OF inv that e] by auto
    with ok [of g] False show ?thesis
      by (cases "dr_grants d g") (simp_all add: leases_def at_grant_def on_cell_nth)
  qed
qed

lemma leases_orphan:
  assumes "\<nexists>gid e. dr_grants d gid = Some e \<and> ag_ownership e = a"
  shows "leases (on_cell a f d) = leases d"
proof
  fix g
  have "ag_ownership x \<noteq> a" if "dr_grants d g = Some x" for x using assms that by blast
  then show "leases (on_cell a f d) g = leases d g"
    by (cases "dr_grants d g") (simp_all add: leases_def on_cell_def)
qed

lemma leases_untouched:
  assumes "\<And>c. gc_own (f c) = gc_own c"
  shows "leases (on_cell a f d) = leases d"
proof -
  have "gc_own ((dr_cells d)[a := f (dr_cells d ! a)] ! i) = gc_own (dr_cells d ! i)" for i
    using assms by (cases "a < length (dr_cells d)"; cases "i = a") (simp_all add: list_update_beyond)
  then show ?thesis by (simp add: leases_def on_cell_def)
qed

lemma leases_remove:
  assumes "drv_inv d"
  shows "leases (remove_grant gid d) = (leases d)(gid := None)"
proof
  fix g
  show "leases (remove_grant gid d) g = ((leases d)(gid := None)) g"
  proof (cases "g = gid")
    case False
    have "ag_ownership x < length (dr_cells d)
        \<and> map_option ag_ownership (dr_grants d gid) \<noteq> Some (ag_ownership x)" if "dr_grants d g = Some x" for x
      using drv_invD(2) [OF assms that] addresses_distinct [OF assms that] False by (auto simp: entry_ok_def)
    with False show ?thesis
      by (cases "dr_grants d g") (auto simp add: leases_def remove_grant_fields remove_grant_cell)
  qed (simp add: leases_def remove_grant_fields)
qed

lemma leases_add:
  assumes "drv_inv d"
  shows "leases (add_grant gid shard g w rvk d) = (leases d)(gid \<mapsto> w)"
proof
  fix i
  have "ag_ownership x < length (dr_cells d)" if "dr_grants d i = Some x" for x
    using drv_invD(2) [OF assms that] by (simp add: entry_ok_def)
  then show "leases (add_grant gid shard g w rvk d) i = ((leases d)(gid \<mapsto> w)) i"
    by (cases "dr_grants d i") (auto simp: leases_def add_grant_def cell_new_def nth_append emit_def)
qed

lemma leases_entry_update [simp]:
  assumes "dr_grants d gid = Some e" and "ag_ownership e' = ag_ownership e"
  shows "leases (d\<lparr>dr_grants := (dr_grants d)(gid \<mapsto> e')\<rparr>) = leases d"
  using assms by (auto simp: leases_def fun_eq_iff)

section \<open>Handlers\<close>

definition refines :: "(driver \<Rightarrow> (fault + unit) \<times> driver) \<Rightarrow> (lease_table \<Rightarrow> (fault + unit) \<times> lease_table) \<Rightarrow> bool" where
  "refines f h \<longleftrightarrow> (\<forall>d. drv_inv d \<longrightarrow> map_prod id leases (f d) = h (leases d) \<and> drv_inv (snd (f d)))"

lemma refinesI:
  assumes "\<And>d. drv_inv d \<Longrightarrow> map_prod id leases (f d) = h (leases d)" and "\<And>d. drv_inv d \<Longrightarrow> drv_inv (snd (f d))"
  shows "refines f h"
  using assms by (simp add: refines_def)

lemma refinesD:
  assumes "refines f h" and "drv_inv d"
  shows "map_prod id leases (f d) = h (leases d)" and "drv_inv (snd (f d))"
  using assms by (simp_all add: refines_def)

lemma for_each_refines:
  assumes "\<And>g. refines (f g) (h g)"
  shows "refines (for_each f gs) (for_each h gs)"
proof (induction gs)
  case Nil
  then show ?case by (simp add: refines_def)
next
  case (Cons g gs)
  show ?case
  proof (rule refinesI)
    fix d assume inv: "drv_inv d"
    obtain r d' where f: "f g d = (r, d')" by force
    with refinesD [OF assms inv, of g] have h: "h g (leases d) = (r, leases d')" and inv': "drv_inv d'"
      by (auto simp: map_prod_def)
    have "map_prod id leases (for_each f (g # gs) d) = for_each h (g # gs) (leases d)
        \<and> drv_inv (snd (for_each f (g # gs) d))"
      using f h inv' refinesD [OF Cons.IH inv'] by (cases r) simp_all
    then show "map_prod id leases (for_each f (g # gs) d) = for_each h (g # gs) (leases d)"
      and "drv_inv (snd (for_each f (g # gs) d))" by simp_all
  qed
qed

lemma on_assign_added:
  assumes "assign_shard g = Some shard" and "assign_expiration now g = Inr expiration"
  shows "on_assign now g d = (Inr (), add_grant (GrantId (pbg_id g)) shard g
         (ownership_new (grant_state_from_i32 (pbg_state g)) expiration now)
         (grant_state_from_i32 (pbg_state g) \<in> {GrantState.Revoked, GrantState.RevokedUnloaded})
         (remove_grant (GrantId (pbg_id g)) d))"
proof -
  have "remove_grant (GrantId (pbg_id g)) d = d" if "dr_grants d (GrantId (pbg_id g)) = None"
    using that by (simp add: remove_grant_def)
  with assms show ?thesis by (simp add: on_assign_def Let_def add_grant_def)
qed

lemma assign_refines: "refines (on_assign now g) (spec_assign now g)"
proof (rule refinesI)
  fix d assume inv: "drv_inv d"
  show "map_prod id leases (on_assign now g d) = spec_assign now g (leases d)"
  proof (cases "assign_shard g")
    case None
    then show ?thesis by (simp add: on_assign_def spec_assign_def)
  next
    case shard: (Some shard)
    show ?thesis
    proof (cases "assign_expiration now g")
      case (Inl p)
      then show ?thesis by (simp add: on_assign_def spec_assign_def shard)
    next
      case (Inr expiration)
      show ?thesis
        by (simp add: on_assign_added [OF shard Inr] spec_assign_def shard Inr leases_add remove_grant_inv [OF inv]
            leases_remove [OF inv])
    qed
  qed
qed (rule on_assign_inv)


lemma promote_refines: "refines (on_promote g) (spec_promote g)"
proof (rule refinesI)
  fix d assume inv: "drv_inv d"
  let ?gid = "GrantId (pbg_id g)"
  show "map_prod id leases (on_promote g d) = spec_promote g (leases d)"
  proof (cases "dr_grants d ?gid")
    case None
    then have "at_grant ?gid activate (leases d) = leases d"
      by (auto simp: at_grant_def leases_def fun_eq_iff)
    with None show ?thesis by (simp add: on_promote_def spec_promote_def)
  next
    case (Some e)
    let ?e = "e\<lparr>ag_pb := g\<rparr>"
    let ?c = "\<lambda>d. d\<lparr>dr_grants := (dr_grants d)(?gid \<mapsto> ?e)\<rparr>"
    have "leases (on_cell (ag_ownership e) (on_own activate) (?c d)) = leases (?c (on_cell (ag_ownership e) (on_own activate) d))"
      by (rule leases_cong) (simp_all add: on_cell_def)
    also have "\<dots> = leases (on_cell (ag_ownership e) (on_own activate) d)"
      by (rule leases_entry_update) (simp_all add: Some)
    also have "\<dots> = at_grant ?gid activate (leases d)"
      by (rule leases_on_cell [OF inv Some]) simp
    finally show ?thesis by (simp add: on_promote_def spec_promote_def Some)
  qed
qed (rule on_promote_inv)

lemma revoke_refines: "refines (on_revoke g) (spec_revoke g)"
proof (rule refinesI)
  fix d assume inv: "drv_inv d"
  let ?gid = "GrantId (pbg_id g)"
  show "map_prod id leases (on_revoke g d) = spec_revoke g (leases d)"
  proof (cases "dr_grants d ?gid")
    case None
    then have "at_grant ?gid h (leases d) = leases d" for h
      by (auto simp: at_grant_def leases_def fun_eq_iff)
    with None show ?thesis
      by (simp add: on_revoke_def spec_revoke_def Let_def split: option.split sum.split)
  next
    case (Some e)
    let ?e = "e\<lparr>ag_revoked := True, ag_pb := g\<rparr>"
    let ?c = "\<lambda>d. d\<lparr>dr_grants := (dr_grants d)(?gid \<mapsto> ?e)\<rparr>"
    have one: "leases (on_cell (ag_ownership e) f (?c d)) = at_grant ?gid h (leases d)"
      if "\<And>c. gc_own (f c) = h (gc_own c)" for f h
    proof -
      have "leases (on_cell (ag_ownership e) f (?c d)) = leases (?c (on_cell (ag_ownership e) f d))"
        by (rule leases_cong) (simp_all add: on_cell_def)
      also have "\<dots> = leases (on_cell (ag_ownership e) f d)"
        by (rule leases_entry_update) (simp_all add: Some)
      also have "\<dots> = at_grant ?gid h (leases d)" by (rule leases_on_cell [OF inv Some]) (rule that)
      finally show ?thesis .
    qed
    have "ag_ownership e < length (dr_cells d)" using drv_invD(2) [OF inv Some] by (simp add: entry_ok_def)
    then have two: "on_cell (ag_ownership e) f (on_cell (ag_ownership e) f' (?c d)) = on_cell (ag_ownership e) (f \<circ> f') (?c d)"
      for f f' by (simp add: on_cell_def)
    have "leases (on_cell (ag_ownership e) (on_own revoke) (on_cell (ag_ownership e) (set_expiration_cell t) (?c d)))
        = at_grant ?gid (revoke \<circ> set_expiration t) (leases d)" for t
      unfolding two by (rule one) simp
    moreover have "leases (on_cell (ag_ownership e) (on_own revoke) (?c d)) = at_grant ?gid revoke (leases d)"
      by (rule one) simp
    ultimately show ?thesis
      by (simp add: on_revoke_def spec_revoke_def Let_def Some split: option.split sum.split)
  qed
qed (rule on_revoke_inv)

lemma notify_refines: "refines (\<lambda>d. (Inr (), on_notify n d)) (\<lambda>m. (Inr (), spec_notify n m))"
proof (rule refinesI)
  fix d assume inv: "drv_inv d"
  have miss: "at_grant gid h (leases d) = leases d" if "dr_grants d gid = None" for gid h
    using that by (auto simp: at_grant_def leases_def fun_eq_iff)
  have hit: "leases (on_cell (ag_ownership e) (on_own h) d) = at_grant gid h (leases d)"
    if "dr_grants d gid = Some e" for gid e h
    by (rule leases_on_cell [OF inv that]) simp
  show "map_prod id leases (Inr (), on_notify n d) = (Inr (), spec_notify n (leases d))"
    by (auto simp: on_notify_def spec_notify_def miss hit split: option.split GrantState.split)
qed (simp add: on_notify_inv)

lemma extend_one_leases:
  assumes inv: "drv_inv d"
  shows "leases (extend_one t gid d) = at_grant gid (extend_lease t) (leases d)"
proof (cases "dr_grants d gid")
  case None
  then show ?thesis by (auto simp: extend_one_def at_grant_def leases_def fun_eq_iff)
next
  case (Some e)
  then have flag: "ag_revoked e \<longleftrightarrow> is_closed (ow_revoked (gc_own (dr_cells d ! ag_ownership e)))"
    using drv_invD(2) [OF inv] by (simp add: entry_ok_def)
  have at: "leases d gid = Some (gc_own (dr_cells d ! ag_ownership e))" by (simp add: leases_def Some)
  show ?thesis
  proof (cases "ag_revoked e")
    case True
    with flag at have "at_grant gid (extend_lease t) (leases d) = leases d"
      by (auto simp: at_grant_def extend_lease_def fun_eq_iff)
    with Some True show ?thesis by (simp add: extend_one_def)
  next
    case False
    with flag at have "at_grant gid (extend_lease t) (leases d) = at_grant gid (set_expiration t) (leases d)"
      by (simp add: at_grant_def extend_lease_def)
    with leases_on_cell [OF inv Some, of "set_expiration_cell t" "set_expiration t"] Some False
    show ?thesis by (simp add: extend_one_def)
  qed
qed

lemma extend_lease_twice: "extend_lease t (extend_lease t w) = extend_lease t w"
  by (simp add: extend_lease_def set_expiration_def)

lemma fold_extend_leases:
  assumes "drv_inv d"
  shows "leases (fold (extend_one t) gids d) =
    (\<lambda>gid. if gid \<in> set gids then map_option (extend_lease t) (leases d gid) else leases d gid)"
  using assms
proof (induction gids arbitrary: d)
  case (Cons g gids)
  have "drv_inv (extend_one t g d)" by (rule extend_one_inv [OF Cons.prems])
  from Cons.IH [OF this] show ?case
    by (auto simp: extend_one_leases [OF Cons.prems] at_grant_def fun_eq_iff option.map_comp o_def extend_lease_twice)
qed simp

lemma extend_refines:
  assumes "grant_order_ok E"
  shows "refines (on_extend E e) (spec_extend e)"
proof (rule refinesI)
  fix d assume inv: "drv_inv d"
  have "set (en_grant_order E (dr_grants d)) = dom (dr_grants d)"
    using assms drv_invD(1) [OF inv] by (simp add: grant_order_ok_def enumerates_def)
  then have "leases (fold (extend_one t) (en_grant_order E (dr_grants d)) d) =
      (\<lambda>gid. map_option (extend_lease t) (leases d gid))" for t
    unfolding fold_extend_leases [OF inv] by (auto simp: leases_def fun_eq_iff)
  then show "map_prod id leases (on_extend E e d) = spec_extend e (leases d)"
    by (simp add: on_extend_def spec_extend_def split: option.split sum.split)
qed (rule on_extend_inv)

lemma message_refines:
  assumes "grant_order_ok E"
  shows "refines (handle_client_message E now msg) (spec_message now msg)"
proof -
  have same: "refines (Pair (Inr ())) (Pair (Inr ()))" by (simp add: refines_def)
  show ?thesis
  proof (cases "clm_msg msg")
    case None
    with same show ?thesis by (simp add: refines_def handle_client_message_def spec_message_def)
  next
    case (Some m)
    have "refines (for_each (on_assign now) gs) (for_each (spec_assign now) gs)"
      "refines (for_each on_promote gs) (for_each spec_promote gs)"
      "refines (for_each on_revoke gs) (for_each spec_revoke gs)" for gs
      by (rule for_each_refines, rule assign_refines promote_refines revoke_refines)+
    note parts = this notify_refines extend_refines [OF assms] same
    show ?thesis
      by (cases m) (use parts in \<open>simp_all add: refines_def handle_client_message_def spec_message_def Some\<close>)
  qed
qed

section \<open>Refinement\<close>

text \<open>
  C4. Every message of the coordinator has exactly its abstract effect: on the map from grants to
  ownerships that the driver represents, the handler computes the same result as the
  specification, and it panics exactly where the specification does, although the driver works on
  shared cells, caches the revoked flag and iterates over its table in an arbitrary order.
\<close>

theorem messages_refine_lease_table:
  assumes "grant_order_ok E" and "reach (drv_start E) (drv_step E) d"
  shows "map_prod id leases (handle_client_message E now msg d) = spec_message now msg (leases d)"
proof -
  have "drv_inv d" using driver_reach_inv [OF assms] by (simp add: loop_inv_def)
  then show ?thesis by (rule refinesD(1) [OF message_refines [OF assms(1)]])
qed

lemma leases_clean_up:
  assumes "grant_order_ok E" and "drv_inv d"
  shows "leases (clean_up E d) = Map.empty"
  using clean_up_empty [OF assms] by (simp add: leases_def fun_eq_iff)

lemma leases_break:
  assumes "grant_order_ok E" and "drv_inv d"
  shows "leases (break_loop E r d) = Map.empty"
  using leases_clean_up [OF assms] by (simp add: break_loop_def)

end
