(* ===== verification/ConsumerActions.thy ===== *)
theory ConsumerActions
  imports ConsumerSpec
begin

text \<open>
  Whole executions of the driver against the lease table of \<open>ConsumerSpec\<close>. The steps of the driver are
  given names, actions, with the states in which they are possible and what they do; each of them is
  one event of the lease table.
\<close>

section \<open>Events of the lease table\<close>

text \<open>
  What can happen to the leases. A lease is due once the clock has been read behind its deadline, and
  stays so even if it is extended after that; only a lease that is due lapses. A new lease for the
  same grant is not due.
\<close>

datatype lease_event =
    Message SystemTime pb_ClientMessage    \<comment> \<open>the coordinator's message, handled at that time\<close>
  | Signal GrantId own_op                  \<comment> \<open>the user's\<close>
  | Due GrantId SystemTime                 \<comment> \<open>the clock was read behind the deadline\<close>
  | Lapse GrantId
  | StreamEnd
  | Silent

record lease_state =
  ls_table :: lease_table
  ls_due :: "GrantId set"

fun assigned_ids :: "SystemTime \<Rightarrow> pb_Grant list \<Rightarrow> GrantId set" where
  "assigned_ids now [] = {}"
| "assigned_ids now (g # gs) =
     (case assign_shard g of
        None \<Rightarrow> assigned_ids now gs
      | Some shard \<Rightarrow>
          (case assign_expiration now g of
             Inl p \<Rightarrow> {}
           | Inr expiration \<Rightarrow> insert (GrantId (pbg_id g)) (assigned_ids now gs)))"

definition new_leases :: "SystemTime \<Rightarrow> pb_ClientMessage \<Rightarrow> GrantId set" where
  "new_leases now msg = (case clm_msg msg of Some (Assign gs) \<Rightarrow> assigned_ids now gs | _ \<Rightarrow> {})"

fun lease_can :: "lease_event \<Rightarrow> lease_state \<Rightarrow> bool" where
  "lease_can (Signal gid x) l \<longleftrightarrow> ls_table l gid \<noteq> None \<and> user_op x"
| "lease_can (Due gid now) l \<longleftrightarrow> (case ls_table l gid of None \<Rightarrow> False | Some w \<Rightarrow> ow_expiration w \<le> now)"
| "lease_can (Lapse gid) l \<longleftrightarrow> gid \<in> ls_due l"
| "lease_can _ l \<longleftrightarrow> True"

fun lease_do :: "lease_event \<Rightarrow> lease_state \<Rightarrow> lease_state" where
  "lease_do (Message now msg) l =
     \<lparr>ls_table = snd (spec_message now msg (ls_table l)), ls_due = ls_due l - new_leases now msg\<rparr>"
| "lease_do (Signal gid x) l = l\<lparr>ls_table := at_grant gid (own_apply x) (ls_table l)\<rparr>"
| "lease_do (Due gid now) l = l\<lparr>ls_due := insert gid (ls_due l)\<rparr>"
| "lease_do (Lapse gid) l = \<lparr>ls_table = at_grant gid expire (ls_table l), ls_due = ls_due l - {gid}\<rparr>"
| "lease_do StreamEnd l = \<lparr>ls_table = Map.empty, ls_due = {}\<rparr>"
| "lease_do Silent l = l"

definition lease_step :: "lease_state \<Rightarrow> lease_state \<Rightarrow> bool" where
  "lease_step l l' \<longleftrightarrow> (\<exists>ev. lease_can ev l \<and> l' = lease_do ev l)"

section \<open>Actions of the driver\<close>

text \<open>The steps of the driver, the user, the helper tasks and the outside, by name.\<close>

datatype drv_action =
    Enter
  | TakeShutdown
  | SendDeregister
  | SendClose
  | TakeHeartbeat SystemTime
  | SendHeartbeat
  | TakeInbound SystemTime inbound
  | RequestShutdown
  | TransportTakes
  | TransportGone
  | ClusterUnread
  | UserOp nat own_op
  | WatcherSelects nat signal watcher
  | WatcherSends nat signal
  | WatcherStops nat signal
  | TimerMoves nat timer SystemTime
  | TimerStops nat

fun drv_can :: "drv_action \<Rightarrow> driver \<Rightarrow> bool" where
  "drv_can Enter d \<longleftrightarrow> dr_pc d = LoopTop"
| "drv_can TakeShutdown d \<longleftrightarrow> dr_pc d = Selecting True \<and> is_closed (dr_shutdown d)"
| "drv_can SendDeregister d \<longleftrightarrow> dr_pc d = Leaving \<and> out_ready d"
| "drv_can SendClose d \<longleftrightarrow> dr_pc d = Parting \<and> out_ready d"
| "drv_can (TakeHeartbeat now) d \<longleftrightarrow> (case dr_pc d of Selecting b \<Rightarrow> True | _ \<Rightarrow> False)"
| "drv_can SendHeartbeat d \<longleftrightarrow> (case dr_pc d of Beating now \<Rightarrow> True | _ \<Rightarrow> False) \<and> out_ready d"
| "drv_can (TakeInbound now i) d \<longleftrightarrow> (case dr_pc d of Selecting b \<Rightarrow> True | _ \<Rightarrow> False)"
| "drv_can RequestShutdown d \<longleftrightarrow> True"
| "drv_can TransportTakes d \<longleftrightarrow> dr_out_open d \<and> dr_taken d < length (dr_outbound d)"
| "drv_can TransportGone d \<longleftrightarrow> True"
| "drv_can ClusterUnread d \<longleftrightarrow> True"
| "drv_can (UserOp a x) d \<longleftrightarrow> a < length (dr_cells d) \<and> user_op x"
| "drv_can (WatcherSelects a k t) d \<longleftrightarrow> a < length (dr_cells d) \<and> watcher_of k (dr_cells d ! a) = Watching
     \<and> t \<in> set (watcher_select k (dr_cells d ! a))"
| "drv_can (WatcherSends a k) d \<longleftrightarrow> a < length (dr_cells d) \<and> watcher_of k (dr_cells d ! a) = Sending \<and> out_ready d"
| "drv_can (WatcherStops a k) d \<longleftrightarrow> a < length (dr_cells d) \<and> gc_aborted (dr_cells d ! a)"
| "drv_can (TimerMoves a t now) d \<longleftrightarrow> a < length (dr_cells d)
     \<and> t \<in> set (timer_moves now (gc_own (dr_cells d ! a)) (gc_timer (dr_cells d ! a)))"
| "drv_can (TimerStops a) d \<longleftrightarrow> a < length (dr_cells d) \<and> gc_aborted (dr_cells d ! a)"

fun drv_do :: "consumer_env \<Rightarrow> drv_action \<Rightarrow> driver \<Rightarrow> driver" where
  "drv_do E Enter d = select_enter d"
| "drv_do E TakeShutdown d = d\<lparr>dr_pc := Leaving\<rparr>"
| "drv_do E SendDeregister d = leave_branch d"
| "drv_do E SendClose d = part_branch E d"
| "drv_do E (TakeHeartbeat now) d = d\<lparr>dr_pc := Beating now\<rparr>"
| "drv_do E SendHeartbeat d = (case dr_pc d of Beating now \<Rightarrow> heartbeat_branch E now d | _ \<Rightarrow> d)"
| "drv_do E (TakeInbound now i) d = inbound_branch E now i d"
| "drv_do E RequestShutdown d = d\<lparr>dr_shutdown := close_latch (dr_shutdown d)\<rparr>"
| "drv_do E TransportTakes d = d\<lparr>dr_taken := dr_taken d + 1\<rparr>"
| "drv_do E TransportGone d = d\<lparr>dr_out_open := False\<rparr>"
| "drv_do E ClusterUnread d = d\<lparr>dr_cluster_rx := False\<rparr>"
| "drv_do E (UserOp a x) d = on_cell a (on_own (own_apply x)) d"
| "drv_do E (WatcherSelects a k t) d = on_cell a (set_watcher k t) d"
| "drv_do E (WatcherSends a k) d = watcher_send k a d"
| "drv_do E (WatcherStops a k) d = on_cell a (set_watcher k Finished) d"
| "drv_do E (TimerMoves a t now) d = on_cell a (timer_step t) d"
| "drv_do E (TimerStops a) d = on_cell a (\<lambda>c. c\<lparr>gc_timer := TDone\<rparr>) d"

lemma drv_step_iff: "drv_step E d d' \<longleftrightarrow> (\<exists>x. drv_can x d \<and> d' = drv_do E x d)"
proof
  assume "drv_step E d d'"
  then show "\<exists>x. drv_can x d \<and> d' = drv_do E x d"
  proof cases
    case enter then show ?thesis by (intro exI [of _ Enter]) simp
  next
    case shutdown then show ?thesis by (intro exI [of _ TakeShutdown]) simp
  next
    case leave then show ?thesis by (intro exI [of _ SendDeregister]) simp
  next
    case part then show ?thesis by (intro exI [of _ SendClose]) simp
  next
    case (heartbeat b now) then show ?thesis by (intro exI [of _ "TakeHeartbeat now"]) simp
  next
    case (beat now) then show ?thesis by (intro exI [of _ SendHeartbeat]) simp
  next
    case (inbound b now i) then show ?thesis by (intro exI [of _ "TakeInbound now i"]) simp
  next
    case request_shutdown then show ?thesis by (intro exI [of _ RequestShutdown]) simp
  next
    case taken then show ?thesis by (intro exI [of _ TransportTakes]) simp
  next
    case outbound_gone then show ?thesis by (intro exI [of _ TransportGone]) simp
  next
    case cluster_unread then show ?thesis by (intro exI [of _ ClusterUnread]) simp
  next
    case (user a x) then show ?thesis by (intro exI [of _ "UserOp a x"]) simp
  next
    case (watch a k t) then show ?thesis by (intro exI [of _ "WatcherSelects a k t"]) simp
  next
    case (send a k) then show ?thesis by (intro exI [of _ "WatcherSends a k"]) simp
  next
    case (stop a k) then show ?thesis by (intro exI [of _ "WatcherStops a k"]) simp
  next
    case (tick a t now) then show ?thesis by (intro exI [of _ "TimerMoves a t now"]) simp
  next
    case (stop_timer a) then show ?thesis by (intro exI [of _ "TimerStops a"]) simp
  qed
next
  assume "\<exists>x. drv_can x d \<and> d' = drv_do E x d"
  then obtain x where "drv_can x d" "d' = drv_do E x d" by blast
  then show "drv_step E d d'"
    by (cases x) (auto intro: drv_step.intros drv_step.taken [simplified] split: driver_pc.splits)
qed

text \<open>What an action is to the leases.\<close>

definition client_message :: "pb_JoinMessage \<Rightarrow> pb_ClientMessage option" where
  "client_message msg =
     (case jm_msg msg of
        Some (Consumer c) \<Rightarrow> (case com_msg c of Some (Client m) \<Rightarrow> Some m | _ \<Rightarrow> None)
      | _ \<Rightarrow> None)"

text \<open>The grant whose ownership has an address, if that ownership is still in the table.\<close>

definition grant_at :: "driver \<Rightarrow> nat \<Rightarrow> GrantId option" where
  "grant_at d a =
     (let gid = GrantId (pbg_id (gc_pb (dr_cells d ! a)))
      in case dr_grants d gid of
           None \<Rightarrow> None
         | Some e \<Rightarrow> if ag_ownership e = a then Some gid else None)"

fun event_of :: "driver \<Rightarrow> drv_action \<Rightarrow> lease_event" where
  "event_of d SendClose = StreamEnd"
| "event_of d SendHeartbeat = (if dr_out_open d then Silent else StreamEnd)"
| "event_of d (TakeInbound now i) =
     (case i of
        Item msg \<Rightarrow> (case client_message msg of Some m \<Rightarrow> Message now m | None \<Rightarrow> Silent)
      | _ \<Rightarrow> StreamEnd)"
| "event_of d (UserOp a x) = (case grant_at d a of Some gid \<Rightarrow> Signal gid x | None \<Rightarrow> Silent)"
| "event_of d (TimerMoves a t now) =
     (case grant_at d a of
        None \<Rightarrow> Silent
      | Some gid \<Rightarrow> if gc_timer (dr_cells d ! a) = TFire then Lapse gid
                    else if t = TFire then Due gid now else Silent)"
| "event_of d _ = Silent"

lemma grant_at_Some:
  assumes "drv_inv d"
  shows "grant_at d a = Some gid \<longleftrightarrow> (\<exists>e. dr_grants d gid = Some e \<and> ag_ownership e = a)"
proof
  assume "grant_at d a = Some gid"
  then show "\<exists>e. dr_grants d gid = Some e \<and> ag_ownership e = a"
    by (simp add: grant_at_def Let_def split: option.splits if_splits)
next
  assume "\<exists>e. dr_grants d gid = Some e \<and> ag_ownership e = a"
  then obtain e where e: "dr_grants d gid = Some e" "ag_ownership e = a" by blast
  then have "GrantId (pbg_id (gc_pb (dr_cells d ! a))) = gid"
    using drv_invD(2) [OF assms e(1)] by (simp add: entry_ok_def)
  with e show "grant_at d a = Some gid" by (simp add: grant_at_def)
qed

lemma grant_at_None:
  assumes "drv_inv d" and "grant_at d a = None"
  shows "\<nexists>gid e. dr_grants d gid = Some e \<and> ag_ownership e = a"
proof
  assume "\<exists>gid e. dr_grants d gid = Some e \<and> ag_ownership e = a"
  then obtain gid e where "dr_grants d gid = Some e" "ag_ownership e = a" by blast
  then have "grant_at d a = Some gid" using grant_at_Some [OF assms(1)] by blast
  with assms(2) show False by simp
qed

section \<open>Leases that are due\<close>

text \<open>The timer of a lease that is due has decided to fire.\<close>

definition due_grants :: "driver \<Rightarrow> GrantId set" where
  "due_grants d = {gid. \<exists>e. dr_grants d gid = Some e \<and> gc_timer (dr_cells d ! ag_ownership e) = TFire}"

lemma due_cong: "dr_grants d' = dr_grants d \<Longrightarrow> dr_cells d' = dr_cells d \<Longrightarrow> due_grants d' = due_grants d"
  by (simp add: due_grants_def)

lemma due_updates [simp]:
  "due_grants (d\<lparr>dr_pc := c\<rparr>) = due_grants d" "due_grants (d\<lparr>dr_cluster := cm\<rparr>) = due_grants d"
  "due_grants (d\<lparr>dr_heartbeat := h\<rparr>) = due_grants d" "due_grants (d\<lparr>dr_shutdown := l\<rparr>) = due_grants d"
  "due_grants (d\<lparr>dr_out_open := b\<rparr>) = due_grants d" "due_grants (d\<lparr>dr_taken := n\<rparr>) = due_grants d"
  "due_grants (d\<lparr>dr_cluster_rx := b\<rparr>) = due_grants d" "due_grants (snd (send_out m d)) = due_grants d"
  by (simp_all add: due_grants_def)

lemma due_on_cell:
  assumes "\<And>c. gc_timer (f c) = TFire \<longleftrightarrow> gc_timer c = TFire"
  shows "due_grants (on_cell a f d) = due_grants d"
proof -
  have "gc_timer ((dr_cells d)[a := f (dr_cells d ! a)] ! i) = TFire \<longleftrightarrow> gc_timer (dr_cells d ! i) = TFire" for i
    using assms by (cases "a < length (dr_cells d)"; cases "i = a") (simp_all add: list_update_beyond)
  then show ?thesis by (simp add: due_grants_def on_cell_def)
qed

lemma due_orphan:
  assumes "\<nexists>gid e. dr_grants d gid = Some e \<and> ag_ownership e = a"
  shows "due_grants (on_cell a f d) = due_grants d"
proof -
  have "dr_cells (on_cell a f d) ! ag_ownership e = dr_cells d ! ag_ownership e" if "dr_grants d gid = Some e" for gid e
  proof -
    have "ag_ownership e \<noteq> a" using assms that by blast
    then show ?thesis by (simp add: on_cell_def)
  qed
  then show ?thesis by (auto simp: due_grants_def)
qed

lemma due_on_cell_simps [simp]:
  "due_grants (on_cell a (on_own f) d) = due_grants d"
  "due_grants (on_cell a (set_expiration_cell t) d) = due_grants d"
  "due_grants (on_cell a (set_watcher k s) d) = due_grants d"
  "due_grants (on_cell a (\<lambda>c. c\<lparr>gc_aborted := b\<rparr>) d) = due_grants d"
proof -
  have "gc_timer (set_watcher k s c) = gc_timer c" for c by (cases k) simp_all
  then show "due_grants (on_cell a (set_watcher k s) d) = due_grants d" by (intro due_on_cell) simp
  show "due_grants (on_cell a (on_own f) d) = due_grants d" by (rule due_on_cell) (simp add: on_own_def)
  show "due_grants (on_cell a (set_expiration_cell t) d) = due_grants d"
    by (rule due_on_cell) (simp add: set_expiration_cell_def split: timer.split)
qed (rule due_on_cell, simp)

lemma due_entry_update [simp]:
  assumes "dr_grants d gid = Some e" and "ag_ownership e' = ag_ownership e"
  shows "due_grants (d\<lparr>dr_grants := (dr_grants d)(gid \<mapsto> e')\<rparr>) = due_grants d"
  using assms by (auto simp: due_grants_def)

lemma due_remove: "due_grants (remove_grant gid d) = due_grants d - {gid}"
proof (cases "dr_grants d gid")
  case None
  then show ?thesis by (auto simp: remove_grant_def due_grants_def)
next
  case (Some e)
  let ?d = "d\<lparr>dr_grants := (dr_grants d)(gid := None)\<rparr>"
  have "due_grants (remove_grant gid d) = due_grants (on_cell (ag_ownership e) (\<lambda>c. c\<lparr>gc_aborted := True\<rparr>)
      (on_cell (ag_ownership e) (on_own expire) ?d))"
    by (rule due_cong) (simp_all add: remove_grant_def Let_def Some emit_def)
  also have "\<dots> = due_grants ?d" by simp
  also have "\<dots> = due_grants d - {gid}" by (auto simp: due_grants_def)
  finally show ?thesis .
qed

lemma due_add:
  assumes "drv_inv d"
  shows "due_grants (add_grant gid shard g w rvk d) = due_grants d - {gid}"
proof -
  have "ag_ownership x < length (dr_cells d)" if "dr_grants d i = Some x" for i x
    using drv_invD(2) [OF assms that] by (simp add: entry_ok_def)
  then show ?thesis
    by (auto simp: due_grants_def add_grant_def cell_new_def nth_append emit_def split: if_splits)
qed

lemma due_assign:
  assumes "drv_inv d"
  shows "due_grants (snd (on_assign now g d)) = due_grants d - assigned_ids now [g]"
proof (cases "assign_shard g")
  case None
  then show ?thesis by (simp add: on_assign_def)
next
  case shard: (Some shard)
  show ?thesis
  proof (cases "assign_expiration now g")
    case (Inl p)
    then show ?thesis by (simp add: on_assign_def shard)
  next
    case (Inr expiration)
    then show ?thesis
      by (simp add: on_assign_added [OF shard Inr] due_add [OF remove_grant_inv [OF assms]] due_remove shard)
  qed
qed

lemma due_assigns:
  assumes "drv_inv d"
  shows "due_grants (snd (for_each (on_assign now) gs d)) = due_grants d - assigned_ids now gs"
  using assms
proof (induction gs arbitrary: d)
  case (Cons g gs)
  obtain r d' where h: "on_assign now g d = (r, d')" by force
  have d': "drv_inv d'" "due_grants d' = due_grants d - assigned_ids now [g]"
    using on_assign_inv [OF Cons.prems, of now g] due_assign [OF Cons.prems, of now g] by (simp_all add: h)
  have r: "r = (case assign_shard g of None \<Rightarrow> Inr () | Some s \<Rightarrow> map_sum id (\<lambda>_. ()) (assign_expiration now g))"
    using h by (auto simp: on_assign_def Let_def split: option.splits sum.splits)
  show ?case
    using Cons.IH [OF d'(1)] d'(2) r by (auto simp: h split: option.splits sum.splits)
qed simp

lemma for_each_due:
  assumes "\<And>g d. due_grants (snd (f g d)) = due_grants d"
  shows "due_grants (snd (for_each f gs d)) = due_grants d"
  by (rule for_each_keeps [where P = "\<lambda>c. due_grants c = due_grants d"]) (simp_all add: assms)

lemma due_promote: "due_grants (snd (on_promote g d)) = due_grants d"
  by (simp add: on_promote_def Let_def split: option.split)

lemma due_revoke: "due_grants (snd (on_revoke g d)) = due_grants d"
  by (simp add: on_revoke_def Let_def split: option.split sum.split)

lemma due_notify: "due_grants (on_notify n d) = due_grants d"
  by (simp add: on_notify_def split: option.split GrantState.split)

lemma due_extend: "due_grants (snd (on_extend E e d)) = due_grants d"
proof -
  have "due_grants (fold (extend_one l) gids d) = due_grants d" for l gids
    by (induction gids arbitrary: d) (simp_all add: extend_one_def split: option.split)
  then show ?thesis by (simp add: on_extend_def split: option.split sum.split)
qed

lemma due_message:
  assumes "drv_inv d"
  shows "due_grants (snd (handle_client_message E now msg d)) = due_grants d - new_leases now msg"
proof -
  note each = due_assigns [OF assms] for_each_due [of on_promote, OF due_promote] for_each_due [of on_revoke, OF due_revoke]
  show ?thesis
    by (simp add: handle_client_message_def new_leases_def each due_notify due_extend
        split: option.split client_Msg.split)
qed

section \<open>Refinement of whole executions\<close>

definition lease_view :: "driver \<Rightarrow> lease_state" where
  "lease_view d = \<lparr>ls_table = leases d, ls_due = due_grants d\<rparr>"

lemma lease_view_eq: "leases d' = leases d \<Longrightarrow> due_grants d' = due_grants d \<Longrightarrow> lease_view d' = lease_view d"
  by (simp add: lease_view_def)

lemma view_break:
  assumes "grant_order_ok E" and "drv_inv d"
  shows "lease_view (break_loop E r d) = \<lparr>ls_table = Map.empty, ls_due = {}\<rparr>"
  using clean_up_empty(1) [OF assms] leases_break [OF assms]
  by (simp add: lease_view_def due_grants_def break_loop_def)

lemma inbound_view:
  assumes order: "grant_order_ok E" and inv: "drv_inv d"
  shows "lease_view (inbound_branch E now i d) = lease_do (event_of d (TakeInbound now i)) (lease_view d)"
proof (cases i)
  case (Item msg)
  obtain r d' where h: "handle_inbound E now msg d = (r, d')" by force
  have "lease_view (inbound_branch E now i d) = lease_view d'"
    by (rule lease_view_eq)
      (simp_all add: inbound_branch_def Item h split: sum.split fault.split option.split)
  also have "d' = snd (handle_inbound E now msg d)" by (simp add: h)
  also have "lease_view \<dots> = lease_do (event_of d (TakeInbound now i)) (lease_view d)"
  proof -
    have "leases (snd (handle_client_message E now m d)) = snd (spec_message now m (leases d))" for m
      using arg_cong [OF refinesD(1) [OF message_refines [OF order] inv], of snd now m] by simp
    moreover have "lease_view (snd (handle_cluster E cm d)) = lease_view d" for cm
      by (rule lease_view_eq) (simp_all add: handle_cluster_def split: sum.split fault.split)
    ultimately show ?thesis
      by (simp add: handle_inbound_state client_message_def Item due_message [OF inv]
          lease_view_def split: option.split join_Msg.split consumer_Msg.split)
  qed
  finally show ?thesis .
qed (simp_all add: inbound_branch_def view_break [OF order inv])

lemma user_view:
  assumes inv: "drv_inv d" and "user_op x"
  shows "lease_can (event_of d (UserOp a x)) (lease_view d)
    \<and> lease_view (on_cell a (on_own (own_apply x)) d) = lease_do (event_of d (UserOp a x)) (lease_view d)"
proof (cases "grant_at d a")
  case None
  then show ?thesis using leases_orphan [OF grant_at_None [OF inv None]] by (simp add: lease_view_def)
next
  case (Some gid)
  then obtain e where e: "dr_grants d gid = Some e" "ag_ownership e = a" using grant_at_Some [OF inv] by blast
  have "leases (on_cell a (on_own (own_apply x)) d) = at_grant gid (own_apply x) (leases d)"
    using leases_on_cell [OF inv e(1), of "on_own (own_apply x)" "own_apply x"] by (simp add: e(2))
  with assms(2) e show ?thesis by (simp add: lease_view_def Some leases_def)
qed

text \<open>A timer that decides to fire, fires, or does neither.\<close>

lemma timer_moves_fire:
  "t \<in> set (timer_moves now w c) \<Longrightarrow> t = TFire \<Longrightarrow> c \<noteq> TFire \<and> ow_expiration w \<le> now"
  "t \<in> set (timer_moves now w TFire) \<Longrightarrow> t = TDone"
  by (cases c; auto simp: time_left_zero split: if_splits) simp

lemma timer_view:
  assumes inv: "drv_inv d" and can: "drv_can (TimerMoves a t now) d"
  shows "lease_can (event_of d (TimerMoves a t now)) (lease_view d)
    \<and> lease_view (on_cell a (timer_step t) d) = lease_do (event_of d (TimerMoves a t now)) (lease_view d)"
proof -
  let ?c = "dr_cells d ! a"
  have a: "a < length (dr_cells d)" and t: "t \<in> set (timer_moves now (gc_own ?c) (gc_timer ?c))" using can by simp_all
  have cell: "dr_cells (on_cell a (timer_step t) d) ! i = (if i = a then timer_step t ?c else dr_cells d ! i)"
    if "i < length (dr_cells d)" for i using that by (simp add: on_cell_nth)
  have len: "ag_ownership e < length (dr_cells d)" if "dr_grants d g = Some e" for g e
    using drv_invD(2) [OF inv that] by (simp add: entry_ok_def)
  have table: "leases (on_cell a (timer_step t) d) =
      (if gc_timer ?c = TFire then leases (on_cell a (\<lambda>c. (on_own expire c)\<lparr>gc_timer := t\<rparr>) d) else leases d)"
  proof (cases "gc_timer ?c = TFire")
    case True
    then have "on_cell a (timer_step t) d = on_cell a (\<lambda>c. (on_own expire c)\<lparr>gc_timer := t\<rparr>) d"
      by (simp add: on_cell_def timer_step_def)
    with True show ?thesis by simp
  next
    case False
    then have "on_cell a (timer_step t) d = on_cell a (\<lambda>c. c\<lparr>gc_timer := t\<rparr>) d"
      by (simp add: on_cell_def timer_step_def split: timer.split)
    with False show ?thesis by (simp add: leases_untouched)
  qed
  have due: "due_grants (on_cell a (timer_step t) d) =
      {gid. \<exists>e. dr_grants d gid = Some e \<and> (if ag_ownership e = a then t = TFire else gc_timer (dr_cells d ! ag_ownership e) = TFire)}"
    using len cell by (auto simp: due_grants_def timer_step_def split: timer.splits if_splits)
  show ?thesis
  proof (cases "grant_at d a")
    case None
    note none = grant_at_None [OF inv None]
    have "leases (on_cell a (\<lambda>c. (on_own expire c)\<lparr>gc_timer := t\<rparr>) d) = leases d" by (rule leases_orphan [OF none])
    then have "leases (on_cell a (timer_step t) d) = leases d" by (simp add: table)
    moreover have "due_grants (on_cell a (timer_step t) d) = due_grants d"
      by (rule due_orphan [OF none])
    ultimately show ?thesis by (simp add: lease_view_def None)
  next
    case (Some gid)
    then obtain e where e: "dr_grants d gid = Some e" "ag_ownership e = a" using grant_at_Some [OF inv] by blast
    have only: "g = gid" if "dr_grants d g = Some e'" "ag_ownership e' = a" for g e'
      using addresses_distinct [OF inv that(1) e(1)] that(2) e(2) by simp
    have here: "gid \<in> due_grants d \<longleftrightarrow> gc_timer ?c = TFire" by (simp add: due_grants_def e)
    have rest: "due_grants (on_cell a (timer_step t) d) = (due_grants d - {gid}) \<union> (if t = TFire then {gid} else {})"
    proof (rule set_eqI)
      fix g
      show "g \<in> due_grants (on_cell a (timer_step t) d) \<longleftrightarrow> g \<in> (due_grants d - {gid}) \<union> (if t = TFire then {gid} else {})"
      proof (cases "g = gid")
        case True
        then show ?thesis by (simp add: due e)
      next
        case False
        then have "ag_ownership e' \<noteq> a" if "dr_grants d g = Some e'" for e' using only that by blast
        then have "g \<in> due_grants (on_cell a (timer_step t) d) \<longleftrightarrow> g \<in> due_grants d"
          unfolding due unfolding due_grants_def by (cases "dr_grants d g") simp_all
        with False show ?thesis by simp
      qed
    qed
    have "leases (on_cell a (\<lambda>c. (on_own expire c)\<lparr>gc_timer := t\<rparr>) d) = at_grant gid expire (leases d)"
      using leases_on_cell [OF inv e(1), of "\<lambda>c. (on_own expire c)\<lparr>gc_timer := t\<rparr>" expire] by (simp add: e(2))
    then have table: "leases (on_cell a (timer_step t) d) = (if gc_timer ?c = TFire then at_grant gid expire (leases d) else leases d)"
      by (simp add: table)
    have w: "leases d gid = Some (gc_own ?c)" by (simp add: leases_def e)
    show ?thesis
    proof (cases "gc_timer ?c = TFire")
      case True
      then have "t \<noteq> TFire" using timer_moves_fire(2) [of t now "gc_own ?c"] t by auto
      then show ?thesis by (simp add: lease_view_def Some True table rest here)
    next
      case False
      then have gone: "due_grants d - {gid} = due_grants d" using here by simp
      show ?thesis
      proof (cases "t = TFire")
        case True
        then show ?thesis
          using timer_moves_fire(1) [OF t] False w
          by (simp add: lease_view_def Some table [unfolded True] rest [unfolded True] gone)
      next
        case no: False
        show ?thesis using False by (simp add: lease_view_def Some no table rest gone)
      qed
    qed
  qed
qed

lemma action_view:
  assumes order: "grant_order_ok E" and loop: "loop_inv d" and can: "drv_can x d"
  shows "lease_can (event_of d x) (lease_view d) \<and> lease_view (drv_do E x d) = lease_do (event_of d x) (lease_view d)"
proof -
  have inv: "drv_inv d" using loop by (simp add: loop_inv_def)
  show ?thesis
  proof (cases x)
    case SendClose
    then show ?thesis by (simp add: part_branch_def view_break [OF order] send_out_inv inv)
  next
    case SendHeartbeat
    then show ?thesis
      using can view_break [OF order inv]
      by (auto simp: heartbeat_branch_def send_out_def split: driver_pc.splits intro!: lease_view_eq)
        (simp_all add: leases_def due_grants_def)
  next
    case (TakeInbound now i)
    then show ?thesis using inbound_view [OF order inv, of now i] by (simp split: inbound.split option.split)
  next
    case (UserOp a y)
    then show ?thesis using can user_view [OF inv, of y a] by simp
  next
    case (TimerMoves a t now)
    then show ?thesis using can timer_view [OF inv, of a t now] by simp
  next
    case (TimerStops a)
    have "grant_at d a = None"
      using can TimerStops drv_invD(2) [OF inv] grant_at_Some [OF inv]
      by (cases "grant_at d a") (auto simp: entry_ok_def)
    note none = grant_at_None [OF inv this]
    have "due_grants (on_cell a (\<lambda>c. c\<lparr>gc_timer := TDone\<rparr>) d) = due_grants d"
      by (rule due_orphan [OF none])
    with TimerStops show ?thesis by (simp add: lease_view_def leases_untouched)
  next
    case (WatcherSends a k)
    have "leases (watcher_send k a d) = leases (snd (send_out (signal_message k (gc_pb (dr_cells d ! a))) d))"
      unfolding watcher_send_def by (rule leases_untouched) simp
    with WatcherSends show ?thesis by (simp add: lease_view_def watcher_send_def)
  qed (simp_all add: lease_view_def select_enter_def leave_branch_def leases_untouched)
qed

lemma lease_view_start: "drv_start E d \<Longrightarrow> lease_view d = \<lparr>ls_table = Map.empty, ls_due = {}\<rparr>"
  by (auto simp: drv_start_def join_def driver_new_def lease_view_def leases_def due_grants_def)

interpretation lease_refinement: system_refinement "\<lambda>d. grant_order_ok E \<and> drv_start E d" "drv_step E"
    "\<lambda>d. grant_order_ok E \<and> loop_inv d" "\<lambda>l. l = \<lparr>ls_table = Map.empty, ls_due = {}\<rparr>" lease_step lease_view for E
proof unfold_locales
  fix c assume "grant_order_ok E \<and> drv_start E c"
  then show "(grant_order_ok E \<and> loop_inv c) \<and> lease_view c = \<lparr>ls_table = Map.empty, ls_due = {}\<rparr>"
    by (blast intro: loop_inv_start lease_view_start)
next
  fix c c' assume inv: "grant_order_ok E \<and> loop_inv c" and step: "drv_step E c c'"
  then obtain x where "drv_can x c" "c' = drv_do E x c" by (auto simp: drv_step_iff)
  with inv action_view [of E c x] have "lease_step (lease_view c) (lease_view c')" by (auto simp: lease_step_def)
  with inv loop_inv_step [OF _ _ step]
  show "(grant_order_ok E \<and> loop_inv c') \<and> lease_step\<^sup>*\<^sup>* (lease_view c) (lease_view c')"
    by (blast intro: r_into_rtranclp)
qed

text \<open>So whole executions are executions of the lease table.\<close>

lemma lease_executions:
  assumes "grant_order_ok E" and "reach (drv_start E) (drv_step E) d"
  shows "reach (\<lambda>l. l = \<lparr>ls_table = Map.empty, ls_due = {}\<rparr>) lease_step (lease_view d)"
proof -
  have "reach (\<lambda>d. grant_order_ok E \<and> drv_start E d) (drv_step E) d"
    using assms(2) by (induction rule: reach.induct) (auto intro: reach.intros assms(1))
  then show ?thesis using lease_refinement.refine_reach by blast
qed

text \<open>
  C5. Step by step, the driver implements the lease table. Its steps, whatever the interleaving of its
  loop with the user and the helper tasks, are the actions \<open>drv_can\<close> allows, and each of them is, on the
  leases it represents, exactly one event that depends on the action only: a message of the
  coordinator has the effect the specification gives to that message, a signal of the user sets
  the latch of that grant, an expiration timer marks a lease as due only when the clock is behind
  the deadline and expires it only when it is due, the end of the stream empties the table, and
  everything else, cluster and session messages included, leaves the leases alone. The event is
  always one that the lease table allows.
\<close>

theorem driver_refines_lease_system:
  assumes "grant_order_ok E" and "reach (drv_start E) (drv_step E) d"
  shows "(\<forall>d'. drv_step E d d' \<longleftrightarrow> (\<exists>x. drv_can x d \<and> d' = drv_do E x d))
    \<and> (\<forall>x. drv_can x d \<longrightarrow>
         lease_can (event_of d x) (lease_view d)
         \<and> lease_view (drv_do E x d) = lease_do (event_of d x) (lease_view d))"
  using drv_step_iff action_view [OF assms(1) driver_reach_inv [OF assms]] by blast

end
