(* ===== verification/ConsumerFrames.thy ===== *)
theory ConsumerFrames
  imports ConsumerLaws "HOL-Library.Sublist"
begin

text \<open>
  The protocol type of what the client sends: which messages may stand where on the outbound
  stream, and which grants they name.
\<close>

text \<open>The grants of a stream, as they were assigned; they are never forgotten.\<close>

definition assigned_pbs :: "driver \<Rightarrow> pb_Grant list" where
  "assigned_pbs d = map gc_pb (dr_cells d)"

text \<open>Frames that may follow the opening ones.\<close>

definition client_payload :: "pb_Grant list \<Rightarrow> client_Msg \<Rightarrow> bool" where
  "client_payload gs m \<longleftrightarrow>
     (case m of
        Deregister \<Rightarrow> True
      | client_Msg.Update (Some g) \<Rightarrow>
          list_ex (\<lambda>h. g = h\<lparr>pbg_state := pb_grant_state_as_i32 pb_GrantState.AllocatedLoaded\<rparr>
            \<or> g = h\<lparr>pbg_state := pb_grant_state_as_i32 pb_GrantState.RevokedUnloaded\<rparr>) gs
      | client_Msg.Revoke [g] \<Rightarrow> list_ex (\<lambda>h. g = h) gs
      | _ \<Rightarrow> False)"

definition session_payload :: "session_Request \<Rightarrow> bool" where
  "session_payload r \<longleftrightarrow>
     (case r of session_Request.Heartbeat h \<Rightarrow> hb_now h \<noteq> None | session_Request.Closed c \<Rightarrow> True | _ \<Rightarrow> False)"

definition frame_ok :: "pb_Grant list \<Rightarrow> pb_JoinMessage \<Rightarrow> bool" where
  "frame_ok gs msg \<longleftrightarrow>
     (case jm_msg msg of
        Some (Session s) \<Rightarrow> (case se_request s of Some r \<Rightarrow> session_payload r | None \<Rightarrow> False)
      | Some (Consumer c) \<Rightarrow>
          (case com_msg c of
             Some (Client m) \<Rightarrow> (case clm_msg m of Some p \<Rightarrow> client_payload gs p | None \<Rightarrow> False)
           | _ \<Rightarrow> False)
      | None \<Rightarrow> False)"

lemma frame_ok_frames [simp]:
  "frame_ok gs (wrap_client Deregister)" "frame_ok gs (closed_frame e)" "frame_ok gs (heartbeat_frame now)"
  by (simp_all add: frame_ok_def wrap_client_def closed_frame_def heartbeat_frame_def session_wrap_def
      client_payload_def session_payload_def)

lemma frame_ok_signal: "g \<in> set gs \<Longrightarrow> frame_ok gs (signal_message k g)"
  by (cases k) (auto simp: frame_ok_def update_message_def revoke_message_def wrap_client_def
      client_payload_def list_ex_iff)

lemma client_payload_mono: "client_payload gs m \<Longrightarrow> set gs \<subseteq> set gs' \<Longrightarrow> client_payload gs' m"
  by (cases m) (auto simp: client_payload_def list_ex_iff split: option.splits list.splits)

lemma frame_ok_mono:
  assumes "frame_ok gs m" and "set gs \<subseteq> set gs'"
  shows "frame_ok gs' m"
proof (cases "\<exists>c cm p. jm_msg m = Some (Consumer c) \<and> com_msg c = Some (Client cm) \<and> clm_msg cm = Some p")
  case True
  then show ?thesis using assms client_payload_mono by (auto simp: frame_ok_def)
next
  case False
  then have "frame_ok gs' m \<longleftrightarrow> frame_ok gs m"
    by (auto simp: frame_ok_def split: option.split join_Msg.split consumer_Msg.split)
  with assms(1) show ?thesis by simp
qed

text \<open>What a state may have sent.\<close>

definition frames_inv :: "driver \<Rightarrow> bool" where
  "frames_inv d \<longleftrightarrow>
     (\<exists>client session_id reg rest. rg_active reg = []
        \<and> dr_outbound d = establish_frame client session_id # wrap_client (Register reg) # rest
        \<and> list_all (frame_ok (assigned_pbs d)) rest)"

lemma frames_inv_grow:
  assumes "frames_inv d" and "dr_outbound d' = dr_outbound d @ ms"
    and "prefix (assigned_pbs d) (assigned_pbs d')" and "list_all (frame_ok (assigned_pbs d')) ms"
  shows "frames_inv d'"
proof -
  obtain client session_id reg rest where out: "rg_active reg = []"
      "dr_outbound d = establish_frame client session_id # wrap_client (Register reg) # rest"
      "list_all (frame_ok (assigned_pbs d)) rest"
    using assms(1) unfolding frames_inv_def by blast
  have "set (assigned_pbs d) \<subseteq> set (assigned_pbs d')" by (rule set_mono_prefix [OF assms(3)])
  then have "list_all (frame_ok (assigned_pbs d')) rest"
    using out(3) frame_ok_mono by (auto simp: list_all_iff)
  with out(1,2) assms(2,4) show ?thesis unfolding frames_inv_def
    by (intro exI [of _ client] exI [of _ session_id] exI [of _ reg] exI [of _ "rest @ ms"]) simp
qed

text \<open>Handlers only add grants.\<close>

lemma assigned_pbs_on_cell [simp]:
  assumes "\<And>c. gc_pb (f c) = gc_pb c"
  shows "assigned_pbs (on_cell a f d) = assigned_pbs d"
  using assms
  by (cases "a < length (dr_cells d)") (simp_all add: assigned_pbs_def on_cell_def map_update list_update_beyond
      list_update_same_conv)

lemma assigned_pbs_same [simp]:
  "assigned_pbs (d\<lparr>dr_pc := c\<rparr>) = assigned_pbs d" "assigned_pbs (d\<lparr>dr_cluster := cm\<rparr>) = assigned_pbs d"
  "assigned_pbs (d\<lparr>dr_heartbeat := h\<rparr>) = assigned_pbs d" "assigned_pbs (d\<lparr>dr_closed := l\<rparr>) = assigned_pbs d"
  "assigned_pbs (d\<lparr>dr_shutdown := l\<rparr>) = assigned_pbs d" "assigned_pbs (d\<lparr>dr_out_open := b\<rparr>) = assigned_pbs d"
  "assigned_pbs (d\<lparr>dr_taken := n\<rparr>) = assigned_pbs d"
  "assigned_pbs (d\<lparr>dr_cluster_rx := b\<rparr>) = assigned_pbs d" "assigned_pbs (d\<lparr>dr_grants := m\<rparr>) = assigned_pbs d"
  "assigned_pbs (d\<lparr>dr_outbound := os\<rparr>) = assigned_pbs d" "assigned_pbs (emit e d) = assigned_pbs d"
  "assigned_pbs (snd (send_out msg d)) = assigned_pbs d"
  by (simp_all add: assigned_pbs_def)

lemma assigned_pbs_remove [simp]: "assigned_pbs (remove_grant gid d) = assigned_pbs d"
  by (simp add: remove_grant_def Let_def split: option.split)

lemma assigned_pbs_handlers:
  "prefix (assigned_pbs d) (assigned_pbs (snd (on_assign now g d)))"
  "assigned_pbs (snd (on_promote g d)) = assigned_pbs d" "assigned_pbs (snd (on_revoke g d)) = assigned_pbs d"
  "assigned_pbs (on_notify n d) = assigned_pbs d" "assigned_pbs (snd (on_extend E e d)) = assigned_pbs d"
proof -
  show "prefix (assigned_pbs d) (assigned_pbs (snd (on_assign now g d)))"
  proof (cases rule: on_assign_cases [of now g d])
    case (added shard expiration)
    have "assigned_pbs (add_grant gid shard g w r c) = assigned_pbs c @ [g]" for gid w r c
      by (simp add: add_grant_def assigned_pbs_def cell_new_def)
    with added show ?thesis by simp
  qed simp
  show "assigned_pbs (snd (on_promote g d)) = assigned_pbs d"
    by (simp add: on_promote_def Let_def split: option.split)
  show "assigned_pbs (snd (on_revoke g d)) = assigned_pbs d"
    by (simp add: on_revoke_def Let_def split: option.split sum.split)
  show "assigned_pbs (on_notify n d) = assigned_pbs d"
    by (simp add: on_notify_def split: option.split GrantState.split)
  have "assigned_pbs (fold (extend_one l) gids d) = assigned_pbs d" for l gids
    by (induction gids arbitrary: d) (simp_all add: extend_one_def split: option.split)
  then show "assigned_pbs (snd (on_extend E e d)) = assigned_pbs d"
    by (simp add: on_extend_def split: option.split sum.split)
qed

lemma assigned_pbs_inbound: "prefix (assigned_pbs d) (assigned_pbs (inbound_branch E now i d))"
proof -
  have "prefix (assigned_pbs d) (assigned_pbs (snd (handle_inbound E now msg d)))" for msg
  proof (rule handle_inbound_keeps [where P = "\<lambda>c. prefix (assigned_pbs d) (assigned_pbs c)"])
    show "prefix (assigned_pbs d) (assigned_pbs (snd (on_assign now g c)))"
      if "prefix (assigned_pbs d) (assigned_pbs c)" for now g c
      by (rule prefix_order.trans [OF that assigned_pbs_handlers(1)])
  qed (simp_all add: assigned_pbs_handlers)
  moreover have "assigned_pbs (break_loop E r c) = assigned_pbs c" for r c
  proof -
    have "assigned_pbs (fold remove_grant gids c) = assigned_pbs c" for gids
      by (induction gids arbitrary: c) simp_all
    then show ?thesis by (simp add: break_loop_def clean_up_def Let_def)
  qed
  ultimately show ?thesis
    by (auto simp: inbound_branch_def split: inbound.split prod.split sum.split fault.split option.split)
      (metis snd_conv)+
qed

lemma assigned_pbs_break [simp]: "assigned_pbs (break_loop E r d) = assigned_pbs d"
proof -
  have "assigned_pbs (fold remove_grant gids d) = assigned_pbs d" for gids
    by (induction gids arbitrary: d) simp_all
  then show ?thesis by (simp add: break_loop_def clean_up_def Let_def)
qed

lemma send_out_outbound: "dr_outbound (snd (send_out m d)) = dr_outbound d @ (if dr_out_open d then [m] else [])"
  by (simp add: send_out_def)

lemma frames_inv_step:
  assumes inv: "frames_inv d" and "drv_step E d d'"
  shows "frames_inv d'"
  using assms(2)
proof cases
  case leave
  show ?thesis unfolding leave(1)
    by (rule frames_inv_grow [OF inv, of _ "if dr_out_open d then [wrap_client Deregister] else []"])
      (simp_all add: leave_branch_def send_out_outbound)
next
  case part
  show ?thesis unfolding part(1)
    by (rule frames_inv_grow [OF inv, of _ "if dr_out_open d then [closed_frame ''client shutdown''] else []"])
      (simp_all add: part_branch_def send_out_outbound)
next
  case (beat now)
  show ?thesis unfolding beat(1)
    by (rule frames_inv_grow [OF inv, of _ "if dr_out_open d then [heartbeat_frame now] else []"])
      (simp_all add: heartbeat_branch_def send_out_def)
next
  case (inbound b now i)
  show ?thesis unfolding inbound(1)
    by (rule frames_inv_grow [OF inv, of _ "[]"]) (simp_all add: inbound_branch_fields assigned_pbs_inbound)
next
  case (send a k)
  have "gc_pb (dr_cells d ! a) \<in> set (assigned_pbs d)" using send(2) by (simp add: assigned_pbs_def)
  then show ?thesis unfolding send(1) watcher_send_def
    by (intro frames_inv_grow [OF inv, of _ "if dr_out_open d then [signal_message k (gc_pb (dr_cells d ! a))] else []"])
      (simp_all add: send_out_outbound frame_ok_signal)
qed (use inv in \<open>simp_all add: frames_inv_def select_enter_def timer_step_def split: timer.splits\<close>)

lemma frames_inv_start:
  assumes "drv_start E d"
  shows "frames_inv d"
proof -
  obtain session_id consumer service opts where d: "d = join E session_id consumer service opts"
    using assms unfolding drv_start_def by blast
  show ?thesis unfolding frames_inv_def d join_def driver_new_def build_register_def
    by (intro exI [of _ "loc_instance_into (en_uuid E) consumer"] exI [of _ session_id]
        exI [of _ "\<lparr>rg_consumer = Some (instance_into (en_uuid E) consumer), rg_service = Some (qsn_into service),
          rg_domains = [], rg_active = [],
          rg_options = Some \<lparr>ro_names = map domain_key_name_into (co_key_names opts),
                             ro_capacity_limit = co_capacity_limit opts\<rparr>\<rparr>"] exI [of _ "[]"]) simp
qed

interpretation frame_system: invariant_system "drv_start E" "drv_step E" frames_inv for E
  by unfold_locales (rule frames_inv_start, assumption, rule frames_inv_step)

text \<open>
  C20. Everything the client sends has the type the protocol gives to that place: the stream opens with
  \<open>Establish\<close> and then \<open>Register\<close>, each sent once, and whatever follows is a heartbeat with a time,
  a close, a deregistration, or a report on a grant that was assigned on this very stream, with
  the state \<open>ALLOCATED_LOADED\<close> or \<open>REVOKED_UNLOADED\<close> if it is an update; never a message that
  only the coordinator may send.
\<close>

theorem outbound_well_typed:
  assumes "reach (drv_start E) (drv_step E) d"
  shows "\<exists>client session_id reg rest. rg_active reg = []
    \<and> dr_outbound d = establish_frame client session_id # wrap_client (Register reg) # rest
    \<and> list_all (frame_ok (assigned_pbs d)) rest"
  using frame_system.reach_inv [OF assms] by (simp add: frames_inv_def)

end
