(* ===== verification/ConsumerFlow.thy ===== *)
theory ConsumerFlow
  imports ConsumerLaws
begin

text \<open>
  Flow control of the outbound channel. Every message of the client goes through a channel of 64
  places that the transport empties; the driver waits inside its loop while the channel is full.
\<close>

section \<open>What is queued\<close>

definition flow_inv :: "driver \<Rightarrow> bool" where
  "flow_inv d \<longleftrightarrow> dr_taken d \<le> length (dr_outbound d)
     \<and> length (dr_outbound d) \<le> dr_taken d + outbound_capacity"

lemma flow_inv_cong:
  "dr_taken d' = dr_taken d \<Longrightarrow> dr_outbound d' = dr_outbound d \<Longrightarrow> flow_inv d' \<longleftrightarrow> flow_inv d"
  by (simp add: flow_inv_def)

lemma flow_inv_send: "flow_inv d \<Longrightarrow> out_ready d \<Longrightarrow> flow_inv (snd (send_out m d))"
  by (auto simp: flow_inv_def out_ready_def send_out_def)

lemma sent_fields [simp]:
  "dr_outbound (leave_branch d) = dr_outbound (snd (send_out (wrap_client Deregister) d))"
  "dr_taken (leave_branch d) = dr_taken d" "dr_out_open (leave_branch d) = dr_out_open d"
  "dr_outbound (part_branch E d) = dr_outbound (snd (send_out (closed_frame ''client shutdown'') d))"
  "dr_taken (part_branch E d) = dr_taken d" "dr_out_open (part_branch E d) = dr_out_open d"
  "dr_outbound (heartbeat_branch E now d) = dr_outbound (snd (send_out (heartbeat_frame now) d))"
  "dr_taken (heartbeat_branch E now d) = dr_taken d" "dr_out_open (heartbeat_branch E now d) = dr_out_open d"
  "dr_outbound (watcher_send k a d) = dr_outbound (snd (send_out (signal_message k (gc_pb (dr_cells d ! a))) d))"
  "dr_taken (watcher_send k a d) = dr_taken d" "dr_out_open (watcher_send k a d) = dr_out_open d"
  by (simp_all add: leave_branch_def part_branch_def heartbeat_branch_def watcher_send_def send_out_def)

lemma flow_inv_step:
  assumes "flow_inv d" and "drv_step E d d'"
  shows "flow_inv d'"
  using assms(2)
  by cases (use assms(1) flow_inv_send [OF assms(1)] in
    \<open>auto simp: flow_inv_def select_enter_def inbound_branch_fields\<close>)

lemma flow_inv_start: "drv_start E d \<Longrightarrow> flow_inv d"
  by (auto simp: drv_start_def join_def driver_new_def flow_inv_def outbound_capacity_def)

interpretation flow_system: invariant_system "drv_start E" "drv_step E" flow_inv for E
  by unfold_locales (rule flow_inv_start, assumption, rule flow_inv_step)

section \<open>Waiting for room\<close>

text \<open>The transport can make room, and nothing else changes.\<close>

lemma make_room:
  assumes "flow_inv d"
  shows "\<exists>n. (drv_step E)\<^sup>*\<^sup>* d (d\<lparr>dr_taken := n\<rparr>) \<and> flow_inv (d\<lparr>dr_taken := n\<rparr>) \<and> out_ready (d\<lparr>dr_taken := n\<rparr>)"
proof (cases "out_ready d")
  case True
  with assms show ?thesis by (intro exI [of _ "dr_taken d"]) simp
next
  case False
  then have full: "dr_out_open d" "length (dr_outbound d) = dr_taken d + outbound_capacity"
    using assms by (auto simp: out_ready_def flow_inv_def)
  then have "drv_step E d (d\<lparr>dr_taken := dr_taken d + 1\<rparr>)"
    by (intro drv_step.taken) (simp_all add: outbound_capacity_def)
  with full show ?thesis
    by (intro exI [of _ "dr_taken d + 1"]) (simp add: r_into_rtranclp flow_inv_def out_ready_def outbound_capacity_def)
qed

text \<open>The transport only takes, and once the receiving half has gone it stays away.\<close>

lemma taken_grows:
  assumes "drv_step E d d'"
  shows "dr_taken d \<le> dr_taken d' \<and> (dr_out_open d' \<longrightarrow> dr_out_open d)"
  using assms by cases (simp_all add: select_enter_def inbound_branch_fields)

lemma taken_grows_steps: "(drv_step E)\<^sup>*\<^sup>* d d' \<Longrightarrow> dr_taken d \<le> dr_taken d' \<and> (dr_out_open d' \<longrightarrow> dr_out_open d)"
  by (induction rule: rtranclp_induct) (use taken_grows in \<open>fastforce+\<close>)

text \<open>Where the driver waits for room.\<close>

definition sending :: "driver_pc \<Rightarrow> bool" where
  "sending c \<longleftrightarrow> c = Leaving \<or> c = Parting \<or> (\<exists>now. c = Beating now)"

lemma full_driver_step:
  assumes "drv_step E d d'" and "sending (dr_pc d)" and "\<not> out_ready d" and "dr_taken d' = dr_taken d"
    and "dr_out_open d'"
  shows "dr_pc d' = dr_pc d \<and> dr_outbound d' = dr_outbound d \<and> dr_grants d' = dr_grants d
    \<and> dr_cluster d' = dr_cluster d \<and> dr_events d' = dr_events d"
  using assms by cases (auto simp: sending_def)

lemma full_driver_steps:
  assumes "(drv_step E)\<^sup>*\<^sup>* d d'" and "sending (dr_pc d)" and "\<not> out_ready d" and "dr_taken d' = dr_taken d"
    and "dr_out_open d'"
  shows "dr_pc d' = dr_pc d \<and> dr_outbound d' = dr_outbound d \<and> dr_grants d' = dr_grants d
    \<and> dr_cluster d' = dr_cluster d \<and> dr_events d' = dr_events d"
  using assms(1,4,5)
proof (induction rule: rtranclp_induct)
  case base
  then show ?case by simp
next
  case (step u v)
  have u: "dr_taken u = dr_taken d" "dr_out_open u"
    using taken_grows [OF step.hyps(2)] taken_grows_steps [OF step.hyps(1)] step.prems by auto
  note same = step.IH [OF u]
  have "\<not> out_ready u" using assms(3) same u by (simp add: out_ready_def)
  with full_driver_step [OF step.hyps(2)] same assms(2) step.prems u show ?case by simp
qed

section \<open>Properties\<close>

text \<open>
  C33. Flow control: the client never has more than 64 messages queued, whatever the transport does,
  and the transport has taken only messages that were accepted. The price is that a driver with a
  full channel is stuck in its send: until the transport takes a message or goes away, it handles
  no message of the coordinator, announces nothing, and notices no request for shutdown.
\<close>

theorem outbound_flow_control:
  assumes "reach (drv_start E) (drv_step E) d"
  shows "dr_taken d \<le> length (dr_outbound d) \<and> length (dr_outbound d) \<le> dr_taken d + 64
    \<and> (length (dr_outbound d) = dr_taken d + 64 \<longrightarrow> sending (dr_pc d) \<longrightarrow> (drv_step E)\<^sup>*\<^sup>* d d' \<longrightarrow>
        dr_taken d' = dr_taken d \<longrightarrow> dr_out_open d' \<longrightarrow>
        dr_pc d' = dr_pc d \<and> dr_outbound d' = dr_outbound d \<and> dr_grants d' = dr_grants d
        \<and> dr_cluster d' = dr_cluster d \<and> dr_events d' = dr_events d)"
proof -
  have "flow_inv d" by (rule flow_system.reach_inv [OF assms])
  moreover have "\<not> out_ready d" if "length (dr_outbound d) = dr_taken d + 64" "(drv_step E)\<^sup>*\<^sup>* d d'" "dr_out_open d'"
    using taken_grows_steps [OF that(2)] that(1,3) by (simp add: out_ready_def outbound_capacity_def)
  ultimately show ?thesis
    using full_driver_steps [of E d d'] by (auto simp: flow_inv_def outbound_capacity_def)
qed

text \<open>
  A request for shutdown that finds the driver waiting can be honoured however full the channel
  is: there is a run in which the transport makes room, and the driver sends \<open>Deregister\<close> and
  then the close of the session, cleans up, and finishes without an error.
\<close>

theorem shutdown_honoured:
  assumes "reach (drv_start E) (drv_step E) d" and "dr_pc d = Selecting True" and "is_closed (dr_shutdown d)"
    and "dr_out_open d"
  shows "\<exists>d'. (drv_step E)\<^sup>*\<^sup>* d d' \<and> dr_pc d' = Finish None \<and> is_closed (dr_closed d')
    \<and> dr_outbound d' = dr_outbound d @ [wrap_client Deregister, closed_frame ''client shutdown'']"
proof -
  let ?step = "drv_step E"
  let ?l = "d\<lparr>dr_pc := Leaving\<rparr>"
  have 1: "?step\<^sup>*\<^sup>* d ?l" by (rule r_into_rtranclp, rule drv_step.shutdown [OF assms(2,3)])
  have "flow_inv ?l" using flow_system.reach_inv [OF assms(1)] by (simp add: flow_inv_def)
  from make_room [OF this] obtain n where n: "?step\<^sup>*\<^sup>* ?l (?l\<lparr>dr_taken := n\<rparr>)" "flow_inv (?l\<lparr>dr_taken := n\<rparr>)"
    "out_ready (?l\<lparr>dr_taken := n\<rparr>)" by blast
  let ?p = "leave_branch (?l\<lparr>dr_taken := n\<rparr>)"
  have 2: "?step (?l\<lparr>dr_taken := n\<rparr>) ?p" by (rule drv_step.leave) (use n(3) in simp_all)
  from make_room [OF flow_inv_step [OF n(2) 2]] obtain m where m: "?step\<^sup>*\<^sup>* ?p (?p\<lparr>dr_taken := m\<rparr>)"
    "out_ready (?p\<lparr>dr_taken := m\<rparr>)" by blast
  let ?f = "part_branch E (?p\<lparr>dr_taken := m\<rparr>)"
  have 3: "?step (?p\<lparr>dr_taken := m\<rparr>) ?f" by (rule drv_step.part) (use m(2) in \<open>simp_all add: leave_branch_def\<close>)
  have "?step\<^sup>*\<^sup>* d ?f"
    using rtranclp_trans [OF 1 n(1)] 2 m(1) 3
    by (meson rtranclp.rtrancl_into_rtrancl rtranclp_trans)
  moreover have "dr_outbound ?f = dr_outbound d @ [wrap_client Deregister, closed_frame ''client shutdown'']"
    using assms(4) by (simp add: send_out_def)
  ultimately show ?thesis by (intro exI [of _ ?f]) (simp add: part_branch_def)
qed

end
