(* ===== verification/ConsumerRuns.thy ===== *)
theory ConsumerRuns
  imports ConsumerFlow ConsumerTasks ConsumerActions ConsumerFrames
begin

text \<open>
  Concrete executions of the driver, which witness the properties of \<open>ConsumerLaws\<close>, \<open>ConsumerSpec\<close>, \<open>ConsumerActions\<close>,
  \<open>ConsumerFrames\<close> and \<open>ConsumerTasks\<close>, and one in which the expiration timer misses a shortened lease.
\<close>

section \<open>A concrete driver\<close>

text \<open>Grant ids are ordered as strings, so a table can be iterated in the order of its ids.\<close>

instantiation GrantId :: linorder
begin

definition less_eq_GrantId :: "GrantId \<Rightarrow> GrantId \<Rightarrow> bool" where
  "less_eq_GrantId x y \<longleftrightarrow> grant_id_str x \<le> grant_id_str y"

definition less_GrantId :: "GrantId \<Rightarrow> GrantId \<Rightarrow> bool" where
  "less_GrantId x y \<longleftrightarrow> grant_id_str x < grant_id_str y"

instance
  by intro_classes (auto simp: less_eq_GrantId_def less_GrantId_def GrantId.expand)

end

definition demo_consumer_env :: consumer_env where
  "demo_consumer_env =
     \<lparr>en_uuid = unary_uuid_lib,
      en_cluster_order = (\<lambda>cm. sorted_list_of_set (dom (cmap_grants cm))),
      en_grant_order = (\<lambda>m. sorted_list_of_set (dom m))\<rparr>"

lemma demo_order_ok: "grant_order_ok demo_consumer_env"
  by (simp add: grant_order_ok_def demo_consumer_env_def enumerates_def)

definition demo_joined :: driver where
  "demo_joined = join demo_consumer_env ''s'' (demo_instance 1 ''h1:1'') (qsn_new ''acme'' ''widgets'') options_default"

text \<open>An assignment of grant \<open>g\<close> with a lease until second 100, and its revocation with a shorter one.\<close>

definition demo_pb_grant :: "nat \<Rightarrow> pb_Grant" where
  "demo_pb_grant secs =
     \<lparr>pbg_id = ''g'', pbg_shard = Some (shard_into (demo_shard ''a'' ''m'')),
      pbg_state = pb_grant_state_as_i32 pb_GrantState.Allocated,
      pbg_lease = Some (system_time_to_timestamp (int (from_secs secs))), pbg_assigned = None\<rparr>"

definition demo_assigned :: driver where
  "demo_assigned = inbound_branch demo_consumer_env 0
     (Item (wrap_client (Assign [demo_pb_grant 100]))) (select_enter demo_joined)"

definition demo_ownership :: Ownership where
  "demo_ownership = ownership_new GrantState.Allocated (int (from_secs 100)) 0"

lemma demo_lease: "timestamp_to_system_time (system_time_to_timestamp (int (from_secs 100))) = Inr (int (from_secs 100))"
  by (rule timestamp_decode_encode) (simp_all add: system_time_valid_def from_secs_def)

lemma demo_state: "grant_state_from_i32 2 = GrantState.Allocated"
  by (simp add: grant_state_from_i32_def pb_grant_state_try_from_def)

lemma demo_assigned_eq:
  "demo_assigned = demo_joined
     \<lparr>dr_events := [Assigned (GrantId ''g'') (demo_shard ''a'' ''m'') 0],
      dr_grants := [GrantId ''g'' \<mapsto> \<lparr>ag_pb = demo_pb_grant 100, ag_ownership = 0, ag_revoked = False\<rparr>],
      dr_cells := [cell_new demo_ownership (demo_pb_grant 100)]\<rparr>"
  by (simp add: demo_assigned_def inbound_branch_def handle_inbound_def wrap_client_def
      handle_client_message_def on_assign_def assign_shard_def assign_expiration_def demo_pb_grant_def
      demo_lease demo_joined_def join_def driver_new_def select_enter_def emit_def Let_def demo_ownership_def
      demo_state)

lemma demo_joined_reach: "reach (drv_start demo_consumer_env) (drv_step demo_consumer_env) demo_joined"
  by (rule reach_start) (auto simp: drv_start_def demo_joined_def)

lemma demo_joined_pc: "dr_pc demo_joined = LoopTop" "dr_shutdown demo_joined = fresh_latch"
  "dr_closed demo_joined = fresh_latch" "dr_out_open demo_joined" "dr_cells demo_joined = []"
  by (simp_all add: demo_joined_def join_def driver_new_def)

lemma demo_selecting: "dr_pc (select_enter demo_joined) = Selecting True"
  by (simp add: select_enter_def demo_joined_pc)

lemma demo_selecting_reach:
  "reach (drv_start demo_consumer_env) (drv_step demo_consumer_env) (select_enter demo_joined)"
  by (rule reach_step [OF demo_joined_reach drv_step.enter [OF demo_joined_pc(1)]])

lemma demo_assigned_reach: "reach (drv_start demo_consumer_env) (drv_step demo_consumer_env) demo_assigned"
  unfolding demo_assigned_def by (rule reach_step [OF demo_selecting_reach drv_step.inbound [OF demo_selecting]])

theorem events_replay_table_witness:
  "replay (dr_events demo_assigned) Map.empty (GrantId ''g'') = Some 0"
  by (subst events_replay_table [OF demo_order_ok demo_assigned_reach]) (simp add: demo_assigned_eq)

theorem ownerships_tracked_witness:
  "\<exists>!gid. map_option ag_ownership (dr_grants demo_assigned gid) = Some 0"
  using ownerships_tracked [OF demo_order_ok demo_assigned_reach, of 0]
  by (auto simp: demo_assigned_eq cell_new_def)

theorem messages_refine_lease_table_witness:
  "map_prod id leases (handle_client_message demo_consumer_env 0 \<lparr>clm_msg = Some (Assign [demo_pb_grant 100])\<rparr> demo_joined)
   = (Inr (), [GrantId ''g'' \<mapsto> demo_ownership])"
  unfolding messages_refine_lease_table [OF demo_order_ok demo_joined_reach]
  by (simp add: spec_message_def spec_assign_def assign_shard_def assign_expiration_def demo_pb_grant_def demo_lease
      demo_ownership_def demo_state leases_def demo_joined_def join_def driver_new_def)

theorem driver_refines_lease_system_witness:
  "lease_view (drv_do demo_consumer_env (UserOp 0 own_op.RequestRevoke) demo_assigned)
     = lease_do (Signal (GrantId ''g'') own_op.RequestRevoke) (lease_view demo_assigned)"
proof -
  have "drv_can (UserOp 0 own_op.RequestRevoke) demo_assigned" by (simp add: demo_assigned_eq user_op_def)
  moreover have "event_of demo_assigned (UserOp 0 own_op.RequestRevoke) = Signal (GrantId ''g'') own_op.RequestRevoke"
    by (simp add: demo_assigned_eq grant_at_def cell_new_def demo_pb_grant_def)
  ultimately show ?thesis using driver_refines_lease_system [OF demo_order_ok demo_assigned_reach] by metis
qed

theorem outbound_well_typed_witness:
  "\<exists>client session_id reg. dr_outbound demo_joined = [establish_frame client session_id, wrap_client (Register reg)]"
  using outbound_well_typed [OF demo_joined_reach]
  by (auto simp: demo_joined_def join_def driver_new_def build_register_def)

definition demo_finished :: driver where
  "demo_finished = inbound_branch demo_consumer_env 0 Ended (select_enter demo_joined)"

lemma demo_finished_reach: "reach (drv_start demo_consumer_env) (drv_step demo_consumer_env) demo_finished"
  unfolding demo_finished_def by (rule reach_step [OF demo_selecting_reach drv_step.inbound [OF demo_selecting]])

theorem finish_cleans_up_witness: "is_closed (dr_closed demo_finished)"
proof -
  have "dr_pc demo_finished = Finish (Some (SessionClosed ''stream ended''))"
    by (simp add: demo_finished_def inbound_branch_def)
  from finish_cleans_up [OF demo_order_ok demo_finished_reach this] show ?thesis by simp
qed

theorem server_close_skips_cleanup_witness:
  "\<not> is_closed (dr_closed (inbound_branch demo_consumer_env 0
     (Item (session_wrap (session_Request.Closed \<lparr>cl_error = ''bye''\<rparr>))) (select_enter demo_joined)))"
  using server_close_skips_cleanup [OF demo_selecting _ refl rtranclp.rtrancl_refl,
      where error = "''bye''" and E = demo_consumer_env and now = 0]
  by (simp add: select_enter_def demo_joined_pc)

lemma demo_asked_reach:
  "reach (drv_start demo_consumer_env) (drv_step demo_consumer_env)
     ((select_enter demo_joined)\<lparr>dr_shutdown := close_latch (dr_shutdown (select_enter demo_joined))\<rparr>)"
  by (rule reach_step [OF demo_selecting_reach drv_step.request_shutdown])

theorem shutdown_honoured_witness:
  "\<exists>d. reach (drv_start demo_consumer_env) (drv_step demo_consumer_env) d \<and> dr_pc d = Finish None
     \<and> is_closed (dr_closed d) \<and> length (dr_outbound d) = 4"
proof -
  have "length (dr_outbound demo_joined) = 2" by (simp add: demo_joined_def join_def driver_new_def)
  then show ?thesis
    using shutdown_honoured [OF demo_asked_reach] reach_steps [OF _ demo_asked_reach]
    by (fastforce simp: select_enter_def demo_joined_pc)
qed

text \<open>A driver that sends heartbeats that nobody takes.\<close>

lemma unread_heartbeats:
  "n \<le> 62 \<Longrightarrow> \<exists>d. reach (drv_start demo_consumer_env) (drv_step demo_consumer_env) d \<and> dr_pc d = LoopTop
     \<and> dr_out_open d \<and> dr_taken d = 0 \<and> length (dr_outbound d) = n + 2"
proof (induction n)
  case 0
  show ?case
    by (intro exI [of _ demo_joined]) (simp add: demo_joined_reach demo_joined_pc, simp add: demo_joined_def join_def driver_new_def)
next
  case (Suc n)
  then obtain d where d: "reach (drv_start demo_consumer_env) (drv_step demo_consumer_env) d" "dr_pc d = LoopTop"
    "dr_out_open d" "dr_taken d = 0" "length (dr_outbound d) = n + 2" by auto
  note 1 = reach_step [OF d(1) drv_step.enter [OF d(2)]]
  have "dr_pc (select_enter d) = Selecting (\<not> is_closed (dr_shutdown d))" by (simp add: select_enter_def)
  note 2 = reach_step [OF 1 drv_step.heartbeat [OF this, of _ 0]]
  let ?b = "(select_enter d)\<lparr>dr_pc := Beating 0\<rparr>"
  have "drv_step demo_consumer_env ?b (heartbeat_branch demo_consumer_env 0 ?b)"
    by (rule drv_step.beat) (use Suc.prems d in \<open>simp_all add: out_ready_def select_enter_def outbound_capacity_def\<close>)
  note 3 = reach_step [OF 2 this]
  show ?case
    by (intro exI [of _ "heartbeat_branch demo_consumer_env 0 ?b"] conjI 3)
      (use d in \<open>simp_all add: heartbeat_branch_def send_out_def select_enter_def\<close>)
qed

theorem outbound_flow_control_witness:
  "\<exists>d. reach (drv_start demo_consumer_env) (drv_step demo_consumer_env) d
     \<and> is_closed (dr_shutdown d) \<and> dr_pc d = Beating 0 \<and> length (dr_outbound d) = dr_taken d + 64"
proof -
  let ?R = "reach (drv_start demo_consumer_env) (drv_step demo_consumer_env)"
  obtain d where d: "?R d" "dr_pc d = LoopTop" "dr_out_open d" "dr_taken d = 0" "length (dr_outbound d) = 64"
    using unread_heartbeats [of 62] by auto
  have "dr_pc (select_enter d) = Selecting (\<not> is_closed (dr_shutdown d))" by (simp add: select_enter_def)
  note stuck = reach_step [OF reach_step [OF d(1) drv_step.enter [OF d(2)]] drv_step.heartbeat [OF this, of _ 0]]
  let ?b = "(select_enter d)\<lparr>dr_pc := Beating 0\<rparr>"
  let ?a = "?b\<lparr>dr_shutdown := close_latch (dr_shutdown ?b)\<rparr>"
  have asked: "drv_step demo_consumer_env ?b ?a" by (rule drv_step.request_shutdown)
  then have steps: "(drv_step demo_consumer_env)\<^sup>*\<^sup>* ?b ?a" by (rule r_into_rtranclp)
  have a: "?R ?a" by (rule reach_step [OF stuck asked])
  have "dr_pc ?a = Beating 0 \<and> dr_outbound ?a = dr_outbound ?b"
    using outbound_flow_control [OF stuck, of ?a] steps d
    by (simp add: select_enter_def sending_def)
  with a d show ?thesis by (intro exI [of _ ?a]) (simp add: select_enter_def)
qed

theorem shutdown_lost_witness:
  "dr_pc (select_enter (demo_joined\<lparr>dr_shutdown := close_latch fresh_latch\<rparr>)) \<noteq> Finish None"
proof -
  let ?d = "demo_joined\<lparr>dr_shutdown := close_latch fresh_latch\<rparr>"
  have "(drv_step demo_consumer_env)\<^sup>*\<^sup>* ?d (select_enter ?d)"
    by (rule r_into_rtranclp, rule drv_step.enter) (simp add: demo_joined_pc)
  from shutdown_lost [OF _ _ this] show ?thesis by (simp add: demo_joined_pc)
qed

theorem signals_reported_once_witness:
  "count_list (dr_outbound demo_joined) (signal_message LoadSignal (demo_pb_grant 100)) = 0"
  using signals_reported_once [OF demo_joined_reach, of LoadSignal "demo_pb_grant 100"]
  by (simp add: demo_joined_pc)

theorem extend_exact_witness:
  "ow_expiration (gc_own (dr_cells (snd (on_extend demo_consumer_env
      \<lparr>ex_lease = Some (system_time_to_timestamp (int (from_secs 100)))\<rparr> demo_assigned)) ! 0)) = int (from_secs 100)"
  using extend_exact [OF demo_order_ok demo_assigned_reach, of
      "\<lparr>ex_lease = Some (system_time_to_timestamp (int (from_secs 100)))\<rparr>" _ _ 0]
  by (simp add: demo_lease demo_assigned_eq)

theorem lapsed_lease_expires_witness:
  "\<exists>d'. (drv_step demo_consumer_env)\<^sup>*\<^sup>* demo_assigned d' \<and> is_closed (ow_expired (gc_own (dr_cells d' ! 0)))"
  using lapsed_lease_expires [OF demo_assigned_reach, of 0 "int (from_secs 100)"]
  by (simp add: demo_assigned_eq cell_new_def due_def demo_ownership_def)

section \<open>A shortened lease that the timer misses\<close>

definition demo_shortened :: driver where
  "demo_shortened = inbound_branch demo_consumer_env 0
     (Item (wrap_client (client_Msg.Revoke [demo_pb_grant 10])))
     (select_enter (on_cell 0 (timer_step (TArmed (int (from_secs 100)))) demo_assigned))"

lemma demo_short_lease: "timestamp_to_system_time (system_time_to_timestamp (int (from_secs 10))) = Inr (int (from_secs 10))"
  by (rule timestamp_decode_encode) (simp_all add: system_time_valid_def from_secs_def)

lemma demo_shortened_cells:
  "dr_cells demo_shortened =
     [(cell_new (revoke (set_expiration (int (from_secs 10)) demo_ownership)) (demo_pb_grant 100))
        \<lparr>gc_timer := TArmed (int (from_secs 100))\<rparr>]"
  by (simp add: demo_shortened_def inbound_branch_def handle_inbound_def wrap_client_def
      handle_client_message_def on_revoke_def Let_def demo_pb_grant_def demo_short_lease
      demo_assigned_eq select_enter_def on_cell_def on_own_def set_expiration_cell_def cell_new_def
      timer_step_def)

lemma demo_shortened_reach: "reach (drv_start demo_consumer_env) (drv_step demo_consumer_env) demo_shortened"
proof -
  let ?armed = "on_cell 0 (timer_step (TArmed (int (from_secs 100)))) demo_assigned"
  have "TArmed (int (from_secs 100)) \<in> set (timer_moves 0 (gc_own (dr_cells demo_assigned ! 0))
      (gc_timer (dr_cells demo_assigned ! 0)))"
    by (simp add: demo_assigned_eq cell_new_def demo_ownership_def time_left_eq from_secs_def)
  note 1 = reach_step [OF demo_assigned_reach drv_step.tick [OF _ this]]
  have "dr_pc ?armed = LoopTop" by (simp add: demo_assigned_eq demo_joined_pc)
  note 2 = reach_step [OF 1 drv_step.enter [OF this]]
  have "dr_pc (select_enter ?armed) = Selecting True"
    by (simp add: select_enter_def demo_assigned_eq demo_joined_pc)
  note 3 = reach_step [OF 2 drv_step.inbound [OF this]]
  show ?thesis unfolding demo_shortened_def by (rule 3) (simp add: demo_assigned_eq)
qed

text \<open>
  A lease that is shortened at the wrong moment outlives its deadline: the notification only wakes a
  timer that is already waiting, so between reading the old deadline and starting to wait it is
  lost. In the execution here a revocation moves the lease of a grant from second 100 to
  second 10, and its timer then sleeps until second 100 without being woken.
\<close>

theorem shortened_lease_missed:
  "\<exists>d. reach (drv_start demo_consumer_env) (drv_step demo_consumer_env) d
     \<and> length (dr_cells d) = 1 \<and> \<not> is_closed (ow_expired (gc_own (dr_cells d ! 0)))
     \<and> ow_expiration (gc_own (dr_cells d ! 0)) = int (from_secs 10)
     \<and> gc_timer (dr_cells d ! 0) = TSleep (int (from_secs 100))"
proof -
  let ?d = "on_cell 0 (timer_step (TSleep (int (from_secs 100)))) demo_shortened"
  have "reach (drv_start demo_consumer_env) (drv_step demo_consumer_env) ?d"
    by (rule reach_step [OF demo_shortened_reach drv_step.tick])
      (simp_all add: demo_shortened_cells cell_new_def)
  moreover have "dr_cells ?d =
     [(cell_new (revoke (set_expiration (int (from_secs 10)) demo_ownership)) (demo_pb_grant 100))
        \<lparr>gc_timer := TSleep (int (from_secs 100))\<rparr>]"
    by (simp add: on_cell_def demo_shortened_cells timer_step_def)
  ultimately show ?thesis
    by (intro exI [of _ ?d])
      (simp add: cell_new_def demo_ownership_def revoke_def set_expiration_def from_secs_def)
qed

end
