(* ===== verification/DispatcherModel.thy ===== *)
theory DispatcherModel
  imports ConsumerModel PoolModel
begin

text \<open>
  Models \<open>splitter-client/src/dispatcher.rs\<close> and \<open>JoinHandle\<close> of \<open>consumer.rs\<close>: the chain of filters
  a grant is offered to, the start-up order of \<open>build\<close>, the three background tasks, and the ways
  the dispatcher is shut down.

  Filters are the user's code: a filter is a pair of functions on the \<open>Ownership\<close> it is given and a
  world of type \<open>'u\<close>. The broadcast channel of tokio is the parameter \<open>broadcast_lib\<close>; the watch
  channel of snapshots is the driver's \<open>dr_cluster\<close> and a flag telling that the receiver has not
  seen the last value sent.
\<close>

section \<open>The chain of filters\<close>

type_synonym 'u grant_world = "Ownership \<times> 'u"

record 'u DispatchFilter =
  df_init :: "'u \<Rightarrow> 'u"
  df_try_handle :: "GrantId \<Rightarrow> Shard \<Rightarrow> 'u grant_world \<Rightarrow> bool \<times> 'u grant_world"

text \<open>The loop over the chain: whether a filter accepted, and the world.\<close>

fun offer :: "'u DispatchFilter list \<Rightarrow> GrantId \<Rightarrow> Shard \<Rightarrow> 'u grant_world \<Rightarrow> bool \<times> 'u grant_world" where
  "offer [] gid shard w = (False, w)"
| "offer (f # chain) gid shard w =
     (case df_try_handle f gid shard w of
        (True, w') \<Rightarrow> (True, w')
      | (False, w') \<Rightarrow> offer chain gid shard w')"

definition run_chain :: "'u DispatchFilter list \<Rightarrow> GrantId \<Rightarrow> Shard \<Rightarrow> 'u grant_world \<Rightarrow> 'u grant_world" where
  "run_chain chain gid shard w =
     (if is_closed (ow_expired (fst w)) then w
      else case offer chain gid shard w of
             (True, w') \<Rightarrow> w'
           | (False, w') \<Rightarrow> (request_revoke (fst w'), snd w'))"

section \<open>Handle of a stream\<close>

text \<open>What awaiting a spawned task gives, and \<open>JoinHandle::shutdown\<close> after the latch is closed.\<close>

datatype 'a joined = Returned 'a | Cancelled | JoinPanic string

definition shutdown_result :: "(ClientError + unit) joined option \<Rightarrow> ClientError + unit" where
  "shutdown_result task =
     (case task of
        Some (Returned res) \<Rightarrow> res
      | Some Cancelled \<Rightarrow> Inr ()
      | Some (JoinPanic e) \<Rightarrow> Inl (SessionClosed e)
      | None \<Rightarrow> Inr ())"

text \<open>The value of the driver's task once it has ended; tokio's text of a panic is \<open>t\<close>.\<close>

definition driver_outcome :: "string \<Rightarrow> driver_pc \<Rightarrow> (ClientError + unit) joined option" where
  "driver_outcome t pc =
     (case pc of
        Finish None \<Rightarrow> Some (Returned (Inr ()))
      | Finish (Some e) \<Rightarrow> Some (Returned (Inl e))
      | EarlyReturn e \<Rightarrow> Some (Returned (Inl e))
      | Panicked \<Rightarrow> Some (JoinPanic t)
      | _ \<Rightarrow> None)"

section \<open>Builder and dispatcher\<close>

record ('u, 'ch) DispatcherBuilder =
  db_service :: QualifiedServiceName
  db_instance :: Instance
  db_chain :: "'u DispatchFilter list"
  db_options :: ConsumerOptions
  db_pool :: "'ch ConnectionPool option"

definition builder_new :: "QualifiedServiceName \<Rightarrow> Instance \<Rightarrow> ('u, 'ch) DispatcherBuilder" where
  "builder_new service instance =
     \<lparr>db_service = service, db_instance = instance, db_chain = [], db_options = options_default, db_pool = None\<rparr>"

definition builder_filter :: "'u DispatchFilter \<Rightarrow> ('u, 'ch) DispatcherBuilder \<Rightarrow> ('u, 'ch) DispatcherBuilder" where
  "builder_filter f b = b\<lparr>db_chain := db_chain b @ [f]\<rparr>"

definition builder_options :: "ConsumerOptions \<Rightarrow> ('u, 'ch) DispatcherBuilder \<Rightarrow> ('u, 'ch) DispatcherBuilder" where
  "builder_options opts b = b\<lparr>db_options := opts\<rparr>"

definition builder_pool :: "'ch ConnectionPool \<Rightarrow> ('u, 'ch) DispatcherBuilder \<Rightarrow> ('u, 'ch) DispatcherBuilder" where
  "builder_pool pool b = b\<lparr>db_pool := Some pool\<rparr>"

text \<open>The pool of \<open>build\<close>; \<open>T\<close> is tonic's connector, used by the default pool.\<close>

definition build_pool :: "(string \<Rightarrow> string + 'ch) \<Rightarrow> ('u, 'ch) DispatcherBuilder \<Rightarrow> 'ch ConnectionPool" where
  "build_pool T b =
     (case db_pool b of Some pool \<Rightarrow> pool | None \<Rightarrow> pool_new T (inst_id (db_instance b)))"

text \<open>
  What \<open>Receiver::recv\<close> of the broadcast channel gives for a receiver at position \<open>p\<close> of the
  sequence of all values sent, and the new position; the flag tells that the sender is gone.
  \<open>None\<close>: the receiver is suspended.
\<close>

datatype received = Got GrantEvent | Lagged nat | ChannelClosed

type_synonym broadcast_lib = "nat \<Rightarrow> GrantEvent list \<Rightarrow> bool \<Rightarrow> (received \<times> nat) option"

record dispatcher_env =
  de_consumer :: consumer_env
  de_recv :: broadcast_lib
  de_order :: "ClusterMap \<Rightarrow> ConsumerId list"
  de_panic_text :: string

text \<open>Where \<open>build\<close> is, after \<open>join\<close> has returned; then where the dispatcher is.\<close>

datatype dispatcher_pc =
    SeedPool                         \<comment> \<open>before \<open>pool.apply_cluster\<close>\<close>
  | InitFilters nat                  \<comment> \<open>this many filters have been initialised\<close>
  | Running
  | Draining                         \<comment> \<open>in \<open>drain\<close>, waiting for the driver or the timeout\<close>
  | Drained "ClientError + unit"
  | Dropped

record ('u, 'ch) dispatcher =
  ds_pc :: dispatcher_pc
  ds_driver :: driver
  ds_user :: 'u
  ds_pool :: "'ch ConnectionPool"
  ds_unseen :: bool                  \<comment> \<open>the updater's receiver has a value it has not seen\<close>
  ds_snapshot :: "ClusterMap option" \<comment> \<open>read by the updater and not yet applied\<close>
  ds_start :: nat                    \<comment> \<open>position at which the router subscribed\<close>
  ds_read :: nat                     \<comment> \<open>position of the router's receiver\<close>
  ds_lost :: nat                     \<comment> \<open>events reported as dropped\<close>
  ds_dispatched :: "(GrantId \<times> Shard \<times> nat) list"  \<comment> \<open>spawned \<open>run_chain\<close> tasks\<close>
  ds_router :: bool                  \<comment> \<open>the three tasks, while they run\<close>
  ds_updater :: bool
  ds_watcher :: bool
  ds_closed :: latch

text \<open>The state of \<open>build\<close> right after \<open>join\<close>: the driver's task has been spawned.\<close>

definition build ::
  "dispatcher_env \<Rightarrow> (string \<Rightarrow> string + 'ch) \<Rightarrow> string \<Rightarrow> ('u, 'ch) DispatcherBuilder \<Rightarrow> 'u
   \<Rightarrow> ('u, 'ch) dispatcher" where
  "build E T session_id b u =
     \<lparr>ds_pc = SeedPool,
      ds_driver = join (de_consumer E) session_id (db_instance b) (db_service b) (db_options b),
      ds_user = u, ds_pool = build_pool T b, ds_unseen = False, ds_snapshot = None,
      ds_start = 0, ds_read = 0, ds_lost = 0, ds_dispatched = [],
      ds_router = False, ds_updater = False, ds_watcher = False, ds_closed = fresh_latch\<rparr>"

definition seed_pool :: "dispatcher_env \<Rightarrow> ('u, 'ch) dispatcher \<Rightarrow> ('u, 'ch) dispatcher" where
  "seed_pool E s =
     (let snap = dr_cluster (ds_driver s)
      in s\<lparr>ds_pool := apply_cluster (de_order E snap) snap (ds_pool s), ds_pc := InitFilters 0\<rparr>)"

definition init_filter :: "'u DispatchFilter \<Rightarrow> nat \<Rightarrow> ('u, 'ch) dispatcher \<Rightarrow> ('u, 'ch) dispatcher" where
  "init_filter f k s = s\<lparr>ds_user := df_init f (ds_user s), ds_pc := InitFilters (Suc k)\<rparr>"

text \<open>\<open>resubscribe\<close> starts at the end of what has been sent; then the three tasks are spawned.\<close>

definition start_tasks :: "('u, 'ch) dispatcher \<Rightarrow> ('u, 'ch) dispatcher" where
  "start_tasks s =
     (let tail = length (dr_events (ds_driver s))
      in s\<lparr>ds_start := tail, ds_read := tail, ds_router := True, ds_updater := True,
           ds_watcher := True, ds_pc := Running\<rparr>)"

section \<open>Background tasks\<close>

definition sender_gone :: "driver \<Rightarrow> bool" where
  "sender_gone d \<longleftrightarrow>
     (case dr_pc d of Finish r \<Rightarrow> True | EarlyReturn e \<Rightarrow> True | Panicked \<Rightarrow> True | _ \<Rightarrow> False)"

text \<open>One turn of the router's loop.\<close>

definition route :: "received \<Rightarrow> nat \<Rightarrow> ('u, 'ch) dispatcher \<Rightarrow> ('u, 'ch) dispatcher" where
  "route r p s =
     (case r of
        Got (Assigned gid shard a) \<Rightarrow>
          s\<lparr>ds_read := p, ds_dispatched := ds_dispatched s @ [(gid, shard, a)]\<rparr>
      | Got (Removed gid) \<Rightarrow> s\<lparr>ds_read := p\<rparr>
      | Lagged n \<Rightarrow> s\<lparr>ds_read := p, ds_lost := ds_lost s + n\<rparr>
      | ChannelClosed \<Rightarrow> s\<lparr>ds_read := p, ds_router := False\<rparr>)"

text \<open>The updater: \<open>changed\<close> and \<open>borrow_and_update\<close>, then \<open>apply_cluster\<close>.\<close>

definition updater_read :: "('u, 'ch) dispatcher \<Rightarrow> ('u, 'ch) dispatcher" where
  "updater_read s = s\<lparr>ds_unseen := False, ds_snapshot := Some (dr_cluster (ds_driver s))\<rparr>"

definition updater_apply :: "dispatcher_env \<Rightarrow> ClusterMap \<Rightarrow> ('u, 'ch) dispatcher \<Rightarrow> ('u, 'ch) dispatcher" where
  "updater_apply E snap s =
     s\<lparr>ds_pool := apply_cluster (de_order E snap) snap (ds_pool s), ds_snapshot := None\<rparr>"

definition watcher_close :: "('u, 'ch) dispatcher \<Rightarrow> ('u, 'ch) dispatcher" where
  "watcher_close s = s\<lparr>ds_closed := close_latch (ds_closed s), ds_watcher := False\<rparr>"

section \<open>Shutting down\<close>

text \<open>\<open>abort\<close> of the tasks and closing of the latch, at the end of \<open>drain\<close> and in \<open>drop\<close>.\<close>

definition stop_tasks :: "('u, 'ch) dispatcher \<Rightarrow> ('u, 'ch) dispatcher" where
  "stop_tasks s =
     s\<lparr>ds_router := False, ds_updater := False, ds_watcher := False, ds_closed := close_latch (ds_closed s)\<rparr>"

definition drain_start :: "('u, 'ch) dispatcher \<Rightarrow> ('u, 'ch) dispatcher" where
  "drain_start s =
     s\<lparr>ds_driver := (ds_driver s)\<lparr>dr_shutdown := close_latch (dr_shutdown (ds_driver s))\<rparr>, ds_pc := Draining\<rparr>"

text \<open>The end of \<open>drain\<close>: the driver has ended, or the timeout has elapsed (\<open>None\<close>).\<close>

definition drain_end :: "(ClientError + unit) option \<Rightarrow> ('u, 'ch) dispatcher \<Rightarrow> ('u, 'ch) dispatcher" where
  "drain_end outcome s =
     (stop_tasks s)\<lparr>ds_pc := Drained (case outcome of Some r \<Rightarrow> r | None \<Rightarrow> Inr ())\<rparr>"

definition drop_dispatcher :: "('u, 'ch) dispatcher \<Rightarrow> ('u, 'ch) dispatcher" where
  "drop_dispatcher s = (stop_tasks s)\<lparr>ds_pc := Dropped\<rparr>"

section \<open>The whole system\<close>

text \<open>
  \<open>driver\<close> is any step of the stream and its helper tasks; a snapshot that differs from the last
  one is unseen by the updater, and one that is equal may be sent as well (\<open>resent\<close>).
\<close>

inductive dsp_step ::
  "dispatcher_env \<Rightarrow> 'u DispatchFilter list \<Rightarrow> ('u, 'ch) dispatcher \<Rightarrow> ('u, 'ch) dispatcher \<Rightarrow> bool"
  for E :: dispatcher_env and chain :: "'u DispatchFilter list" where
  driver: "drv_step (de_consumer E) (ds_driver s) d' \<Longrightarrow>
     dsp_step E chain s (s\<lparr>ds_driver := d',
       ds_unseen := ds_unseen s \<or> dr_cluster d' \<noteq> dr_cluster (ds_driver s)\<rparr>)"
| resent: "\<not> sender_gone (ds_driver s) \<Longrightarrow> dsp_step E chain s (s\<lparr>ds_unseen := True\<rparr>)"
| seed: "ds_pc s = SeedPool \<Longrightarrow> dsp_step E chain s (seed_pool E s)"
| init: "ds_pc s = InitFilters k \<Longrightarrow> k < length chain \<Longrightarrow>
     dsp_step E chain s (init_filter (chain ! k) k s)"
| start: "ds_pc s = InitFilters (length chain) \<Longrightarrow> dsp_step E chain s (start_tasks s)"
| route: "ds_router s \<Longrightarrow>
     de_recv E (ds_read s) (dr_events (ds_driver s)) (sender_gone (ds_driver s)) = Some (r, p) \<Longrightarrow>
     dsp_step E chain s (route r p s)"
| update: "ds_updater s \<Longrightarrow> ds_snapshot s = None \<Longrightarrow> ds_unseen s \<Longrightarrow> dsp_step E chain s (updater_read s)"
| applied: "ds_updater s \<Longrightarrow> ds_snapshot s = Some snap \<Longrightarrow> dsp_step E chain s (updater_apply E snap s)"
| updater_end: "ds_updater s \<Longrightarrow> ds_snapshot s = None \<Longrightarrow> \<not> ds_unseen s \<Longrightarrow> sender_gone (ds_driver s) \<Longrightarrow>
     dsp_step E chain s (s\<lparr>ds_updater := False\<rparr>)"
| closed: "ds_watcher s \<Longrightarrow> is_closed (dr_closed (ds_driver s)) \<Longrightarrow> dsp_step E chain s (watcher_close s)"
| drain: "ds_pc s = Running \<Longrightarrow> dsp_step E chain s (drain_start s)"
| drained: "ds_pc s = Draining \<Longrightarrow> driver_outcome (de_panic_text E) (dr_pc (ds_driver s)) = Some res \<Longrightarrow>
     dsp_step E chain s (drain_end (Some (shutdown_result (Some res))) s)"
| timed_out: "ds_pc s = Draining \<Longrightarrow> dsp_step E chain s (drain_end None s)"
| dropped: "ds_pc s = Running \<or> ds_pc s = Draining \<Longrightarrow> dsp_step E chain s (drop_dispatcher s)"

definition dsp_start ::
  "dispatcher_env \<Rightarrow> 'u DispatchFilter list \<Rightarrow> 'u \<Rightarrow> ('u, 'ch) dispatcher \<Rightarrow> bool" where
  "dsp_start E chain u s \<longleftrightarrow> (\<exists>T session_id b. db_chain b = chain \<and> s = build E T session_id b u)"

end
