(* ===== verification/DispatcherLaws.thy ===== *)
theory DispatcherLaws
  imports DispatcherModel ConsumerLaws "HOL-Library.Sublist"
begin

text \<open>
  What the dispatcher does with the grants of a stream: how a chain of filters decides, which
  events of the broadcast reach a chain, that the pool follows the snapshots, and what the ways of
  shutting down leave behind.
\<close>

section \<open>How a chain decides\<close>

text \<open>The world after filters were asked in turn, and whether all of them declined.\<close>

definition asked :: "'u DispatchFilter list \<Rightarrow> GrantId \<Rightarrow> Shard \<Rightarrow> 'u grant_world \<Rightarrow> 'u grant_world" where
  "asked fs gid shard w = fold (\<lambda>f w. snd (df_try_handle f gid shard w)) fs w"

fun declines :: "'u DispatchFilter list \<Rightarrow> GrantId \<Rightarrow> Shard \<Rightarrow> 'u grant_world \<Rightarrow> bool" where
  "declines [] gid shard w \<longleftrightarrow> True"
| "declines (f # fs) gid shard w \<longleftrightarrow>
     \<not> fst (df_try_handle f gid shard w) \<and> declines fs gid shard (snd (df_try_handle f gid shard w))"

lemma asked_simps [simp]:
  "asked [] gid shard w = w" "asked (f # fs) gid shard w = asked fs gid shard (snd (df_try_handle f gid shard w))"
  by (simp_all add: asked_def)

lemma offer_Cons [simp]:
  "offer (f # chain) gid shard w =
     (if fst (df_try_handle f gid shard w) then (True, snd (df_try_handle f gid shard w))
      else offer chain gid shard (snd (df_try_handle f gid shard w)))"
  by (cases "df_try_handle f gid shard w") (simp split: bool.split)

declare offer.simps(2) [simp del]

lemma offer_cases:
  "offer chain gid shard w = (False, asked chain gid shard w) \<and> declines chain gid shard w
   \<or> (\<exists>pre f post. chain = pre @ f # post \<and> declines pre gid shard w
        \<and> fst (df_try_handle f gid shard (asked pre gid shard w))
        \<and> offer chain gid shard w = (True, asked (pre @ [f]) gid shard w))"
proof (induction chain arbitrary: w)
  case (Cons f chain)
  show ?case
  proof (cases "fst (df_try_handle f gid shard w)")
    case True
    then have "offer (f # chain) gid shard w = (True, asked ([] @ [f]) gid shard w)"
      by simp
    with True show ?thesis by (metis append_Nil asked_simps(1) declines.simps(1))
  next
    case False
    let ?w = "snd (df_try_handle f gid shard w)"
    have eq: "offer (f # chain) gid shard w = offer chain gid shard ?w"
      using False by simp
    from Cons.IH [of ?w] show ?thesis
    proof
      assume "offer chain gid shard ?w = (False, asked chain gid shard ?w) \<and> declines chain gid shard ?w"
      with False show ?thesis by (simp add: eq)
    next
      assume "\<exists>pre g post. chain = pre @ g # post \<and> declines pre gid shard ?w
        \<and> fst (df_try_handle g gid shard (asked pre gid shard ?w))
        \<and> offer chain gid shard ?w = (True, asked (pre @ [g]) gid shard ?w)"
      then obtain pre g post where "chain = pre @ g # post" "declines pre gid shard ?w"
        "fst (df_try_handle g gid shard (asked pre gid shard ?w))"
        "offer chain gid shard ?w = (True, asked (pre @ [g]) gid shard ?w)" by blast
      with False show ?thesis unfolding eq by (intro disjI2 exI [of _ "f # pre"] exI [of _ g] exI [of _ post]) simp
    qed
  qed
qed simp

text \<open>
  C24. A grant that has not expired is offered to the filters in order, each at most once: either all
  of them decline, and the grant is given back with a revocation request, or the first filter
  that accepts keeps it, the later filters are not asked, and no revocation is requested.
\<close>

theorem run_chain_outcome:
  assumes "\<not> is_closed (ow_expired (fst w))"
  shows "declines chain gid shard w
      \<and> run_chain chain gid shard w = apfst request_revoke (asked chain gid shard w)
    \<or> (\<exists>pre f post. chain = pre @ f # post \<and> declines pre gid shard w
        \<and> fst (df_try_handle f gid shard (asked pre gid shard w))
        \<and> run_chain chain gid shard w = asked (pre @ [f]) gid shard w)"
  using offer_cases [of chain gid shard w]
  by (elim disjE exE conjE) (auto simp: run_chain_def assms apfst_def map_prod_def split: prod.split)

text \<open>Two filters that look only at the grant id.\<close>

definition demo_filter :: "string \<Rightarrow> string list DispatchFilter" where
  "demo_filter name =
     \<lparr>df_init = (\<lambda>u. u @ [name]),
      df_try_handle = (\<lambda>gid shard (w, u). (gid = GrantId name, (w, u @ [name])))\<rparr>"

theorem run_chain_outcome_witness:
  "\<forall>shard. is_closed (ow_request_revoke (fst (run_chain [demo_filter ''a''] (GrantId ''g'') shard
     (ownership_new GrantState.Allocated 5 0, []))))"
proof
  fix shard
  show "is_closed (ow_request_revoke (fst (run_chain [demo_filter ''a''] (GrantId ''g'') shard
     (ownership_new GrantState.Allocated 5 0, []))))"
    using run_chain_outcome [of "(ownership_new GrantState.Allocated 5 0, [])" "[demo_filter ''a'']" "GrantId ''g''" shard]
    by (auto simp: ownership_new_def demo_filter_def request_revoke_def Let_def Cons_eq_append_conv)
qed

section \<open>Events of the stream\<close>

fun assigned_of :: "GrantEvent list \<Rightarrow> (GrantId \<times> Shard \<times> nat) list" where
  "assigned_of [] = []"
| "assigned_of (Assigned gid shard a # es) = (gid, shard, a) # assigned_of es"
| "assigned_of (Removed gid # es) = assigned_of es"

lemma assigned_of_append [simp]: "assigned_of (xs @ ys) = assigned_of xs @ assigned_of ys"
  by (induction xs rule: assigned_of.induct) simp_all

lemma assigned_of_length: "length (assigned_of es) \<le> length es"
  by (induction es rule: assigned_of.induct) simp_all

text \<open>The ownerships are announced one after the other, each exactly once.\<close>

definition addressed :: "driver \<Rightarrow> bool" where
  "addressed d \<longleftrightarrow> map (snd \<circ> snd) (assigned_of (dr_events d)) = [0 ..< length (dr_cells d)]"

lemma addressed_cong:
  "dr_events d' = dr_events d \<Longrightarrow> length (dr_cells d') = length (dr_cells d) \<Longrightarrow> addressed d' \<longleftrightarrow> addressed d"
  by (simp add: addressed_def)

lemma addressed_remove: "addressed (remove_grant gid d) \<longleftrightarrow> addressed d"
  by (simp add: addressed_def remove_grant_fields)

lemma addressed_assign: "addressed d \<Longrightarrow> addressed (snd (on_assign now g d))"
proof (cases rule: on_assign_cases [of now g d])
  case (added shard expiration)
  assume "addressed d"
  then have "addressed (remove_grant (GrantId (pbg_id g)) d)" by (simp add: addressed_remove)
  then show ?thesis by (simp add: added addressed_def add_grant_def)
qed simp

lemma handlers_keep_events:
  "dr_events (snd (on_promote g d)) = dr_events d" "length (dr_cells (snd (on_promote g d))) = length (dr_cells d)"
  "dr_events (snd (on_revoke g d)) = dr_events d" "length (dr_cells (snd (on_revoke g d))) = length (dr_cells d)"
  "dr_events (on_notify n d) = dr_events d" "length (dr_cells (on_notify n d)) = length (dr_cells d)"
  "dr_events (snd (on_extend E e d)) = dr_events d" "length (dr_cells (snd (on_extend E e d))) = length (dr_cells d)"
proof -
  show "dr_events (snd (on_promote g d)) = dr_events d" "length (dr_cells (snd (on_promote g d))) = length (dr_cells d)"
    by (simp_all add: on_promote_def Let_def split: option.split)
  show "dr_events (snd (on_revoke g d)) = dr_events d" "length (dr_cells (snd (on_revoke g d))) = length (dr_cells d)"
    by (simp_all add: on_revoke_def Let_def split: option.split sum.split)
  show "dr_events (on_notify n d) = dr_events d" "length (dr_cells (on_notify n d)) = length (dr_cells d)"
    by (simp_all add: on_notify_def split: option.split GrantState.split)
  have "dr_events (fold (extend_one l) gids d) = dr_events d
      \<and> length (dr_cells (fold (extend_one l) gids d)) = length (dr_cells d)" for l gids
    by (induction gids arbitrary: d) (simp_all add: extend_one_def split: option.split)
  then show "dr_events (snd (on_extend E e d)) = dr_events d"
    "length (dr_cells (snd (on_extend E e d))) = length (dr_cells d)"
    by (simp_all add: on_extend_def split: option.split sum.split)
qed

lemma addressed_inbound: "addressed d \<Longrightarrow> addressed (snd (handle_inbound E now msg d))"
  by (rule handle_inbound_keeps [where P = addressed])
    (simp_all add: addressed_assign, simp_all add: addressed_def handlers_keep_events)

lemma events_grow_inbound: "prefix (dr_events d) (dr_events (snd (handle_inbound E now msg d)))"
proof (rule handle_inbound_keeps [where P = "\<lambda>c. prefix (dr_events d) (dr_events c)"])
  fix now g and c :: driver assume "prefix (dr_events d) (dr_events c)"
  then show "prefix (dr_events d) (dr_events (snd (on_assign now g c)))"
    by (cases rule: on_assign_cases [of now g c])
      (auto simp: add_grant_def remove_grant_fields intro: prefix_order.trans)
qed (simp_all add: handlers_keep_events)

lemma fold_remove_events:
  "length (dr_cells (fold remove_grant gids d)) = length (dr_cells d)
   \<and> assigned_of (dr_events (fold remove_grant gids d)) = assigned_of (dr_events d)
   \<and> prefix (dr_events d) (dr_events (fold remove_grant gids d))"
proof (induction gids arbitrary: d)
  case (Cons gid gids)
  have "prefix (dr_events d) (dr_events (remove_grant gid d))" by (simp add: remove_grant_fields)
  from prefix_order.trans [OF this] Cons [of "remove_grant gid d"] show ?case
    by (simp add: remove_grant_fields(2)) (simp add: remove_grant_fields(7))
qed simp

lemma break_loop_events:
  "length (dr_cells (break_loop E r d)) = length (dr_cells d)"
  "assigned_of (dr_events (break_loop E r d)) = assigned_of (dr_events d)"
  "prefix (dr_events d) (dr_events (break_loop E r d))"
  using fold_remove_events [of "en_grant_order E (dr_grants d)" d]
  by (simp_all add: break_loop_def clean_up_def Let_def)

lemma addressed_break [simp]: "addressed (break_loop E r d) \<longleftrightarrow> addressed d"
  by (simp add: addressed_def break_loop_events)

lemma inbound_branch_events:
  "prefix (dr_events d) (dr_events (inbound_branch E now i d))"
  "addressed d \<Longrightarrow> addressed (inbound_branch E now i d)"
proof -
  have "prefix (dr_events d) (dr_events (inbound_branch E now i d))
      \<and> (addressed d \<longrightarrow> addressed (inbound_branch E now i d))"
  proof (cases i)
    case (Item msg)
    obtain r d' where h: "handle_inbound E now msg d = (r, d')" by force
    have "prefix (dr_events d) (dr_events d')" "addressed d \<Longrightarrow> addressed d'"
      using events_grow_inbound [of d E now msg] addressed_inbound [of d E now msg] h by simp_all
    then show ?thesis
      by (auto simp: inbound_branch_def Item h addressed_def split: sum.split fault.split option.split)
  qed (simp_all add: inbound_branch_def break_loop_events)
  then show "prefix (dr_events d) (dr_events (inbound_branch E now i d))"
    "addressed d \<Longrightarrow> addressed (inbound_branch E now i d)" by simp_all
qed

lemma heartbeat_branch_events:
  "prefix (dr_events d) (dr_events (heartbeat_branch E now d))"
  "addressed d \<Longrightarrow> addressed (heartbeat_branch E now d)"
  by (auto simp: heartbeat_branch_def send_out_def break_loop_events addressed_def)

lemma shutdown_branch_events:
  "dr_events (leave_branch d) = dr_events d" "addressed d \<Longrightarrow> addressed (leave_branch d)"
  "prefix (dr_events d) (dr_events (part_branch E d))"
  "addressed d \<Longrightarrow> addressed (part_branch E d)"
proof -
  let ?d = "snd (send_out (closed_frame ''client shutdown'') d)"
  show "dr_events (leave_branch d) = dr_events d" "addressed d \<Longrightarrow> addressed (leave_branch d)"
    by (simp_all add: leave_branch_def addressed_def)
  show "prefix (dr_events d) (dr_events (part_branch E d))"
    using break_loop_events(3) [of ?d E None] by (simp add: part_branch_def)
  show "addressed d \<Longrightarrow> addressed (part_branch E d)"
    by (simp add: part_branch_def addressed_def break_loop_events)
qed

text \<open>Events are only ever appended.\<close>

lemma events_grow:
  assumes "drv_step E d d'"
  shows "prefix (dr_events d) (dr_events d')"
  using assms
  by cases (simp_all add: select_enter_def shutdown_branch_events heartbeat_branch_events
      inbound_branch_events watcher_send_def)

lemma addressed_step:
  assumes "drv_step E d d'" and "addressed d"
  shows "addressed d'"
  using assms(1)
  by cases (use assms(2) in \<open>simp_all add: shutdown_branch_events heartbeat_branch_events
      inbound_branch_events\<close>, use assms(2) in \<open>simp_all add: addressed_def select_enter_def watcher_send_def\<close>)

end
