(* ===== verification/DispatcherSystem.thy ===== *)
theory DispatcherSystem
  imports DispatcherLaws
begin

text \<open>
  The dispatcher and its stream as one system: which grants reach a chain of filters, the pool and
  the snapshots, and what shutting down leaves behind. The laws of tokio's broadcast channel are
  the hypothesis \<open>broadcast_ok\<close>; its capacity is the 256 of \<open>consumer.rs\<close>.
\<close>

section \<open>The broadcast channel\<close>

text \<open>
  A receiver gets the value at its position; if more than 256 values wait for it, the oldest are
  skipped and counted; it is told of the end only behind the last value.
\<close>

definition broadcast_ok :: "broadcast_lib \<Rightarrow> bool" where
  "broadcast_ok recv \<longleftrightarrow>
     (\<forall>p sent gone. p \<le> length sent \<longrightarrow>
        (case recv p sent gone of
           Some (Got e, p') \<Rightarrow> p < length sent \<and> e = sent ! p \<and> p' = Suc p
         | Some (Lagged n, p') \<Rightarrow> 256 < length sent - p \<and> 0 < n \<and> p' = p + n \<and> p' \<le> length sent
         | Some (ChannelClosed, p') \<Rightarrow> gone \<and> p = length sent \<and> p' = p
         | None \<Rightarrow> \<not> gone \<and> p = length sent))"

lemma broadcast_okD:
  assumes "broadcast_ok recv" and "p \<le> length sent" and "recv p sent gone = Some (r, p')"
  shows "r = Got e \<Longrightarrow> p < length sent \<and> e = sent ! p \<and> p' = Suc p"
    and "r = Lagged n \<Longrightarrow> 256 < length sent - p \<and> 0 < n \<and> p' = p + n \<and> p' \<le> length sent"
    and "r = ChannelClosed \<Longrightarrow> gone \<and> p = length sent \<and> p' = p"
proof -
  have "case recv p sent gone of
           Some (Got e, p') \<Rightarrow> p < length sent \<and> e = sent ! p \<and> p' = Suc p
         | Some (Lagged n, p') \<Rightarrow> 256 < length sent - p \<and> 0 < n \<and> p' = p + n \<and> p' \<le> length sent
         | Some (ChannelClosed, p') \<Rightarrow> gone \<and> p = length sent \<and> p' = p
         | None \<Rightarrow> \<not> gone \<and> p = length sent"
    using assms(1,2) unfolding broadcast_ok_def by blast
  then show "r = Got e \<Longrightarrow> p < length sent \<and> e = sent ! p \<and> p' = Suc p"
    "r = Lagged n \<Longrightarrow> 256 < length sent - p \<and> 0 < n \<and> p' = p + n \<and> p' \<le> length sent"
    "r = ChannelClosed \<Longrightarrow> gone \<and> p = length sent \<and> p' = p"
    using assms(3) by simp_all
qed

text \<open>A channel of capacity 256.\<close>

definition demo_broadcast :: broadcast_lib where
  "demo_broadcast p sent gone =
     (if 256 < length sent - p then Some (Lagged (length sent - p - 256), length sent - 256)
      else if p < length sent then Some (Got (sent ! p), Suc p)
      else if gone then Some (ChannelClosed, p) else None)"

lemma demo_broadcast_ok: "broadcast_ok demo_broadcast"
  by (auto simp: broadcast_ok_def demo_broadcast_def)

section \<open>Grants that reach the chain\<close>

definition setting_up :: "dispatcher_pc \<Rightarrow> bool" where
  "setting_up pc \<longleftrightarrow> (case pc of SeedPool \<Rightarrow> True | InitFilters k \<Rightarrow> True | _ \<Rightarrow> False)"

lemma setting_up_simps [simp]:
  "setting_up SeedPool" "setting_up (InitFilters k)" "\<not> setting_up Running" "\<not> setting_up Draining"
  "\<not> setting_up (Drained r)" "\<not> setting_up Dropped"
  by (simp_all add: setting_up_def)

text \<open>The events the router has been past.\<close>

definition passed :: "('u, 'ch) dispatcher \<Rightarrow> GrantEvent list" where
  "passed s = take (ds_read s - ds_start s) (List.drop (ds_start s) (dr_events (ds_driver s)))"

definition route_inv :: "('u, 'ch) dispatcher \<Rightarrow> bool" where
  "route_inv s \<longleftrightarrow>
     addressed (ds_driver s)
     \<and> ds_start s \<le> ds_read s \<and> ds_read s \<le> length (dr_events (ds_driver s))
     \<and> subseq (ds_dispatched s) (assigned_of (passed s))
     \<and> length (assigned_of (passed s)) \<le> length (ds_dispatched s) + ds_lost s
     \<and> (0 < ds_lost s \<longrightarrow> 256 < length (dr_events (ds_driver s)) - ds_start s)
     \<and> (setting_up (ds_pc s) \<longrightarrow>
          \<not> ds_router s \<and> \<not> ds_updater s \<and> \<not> ds_watcher s \<and> ds_dispatched s = [] \<and> ds_lost s = 0)"

lemma route_inv_cong:
  assumes "dr_events (ds_driver t) = dr_events (ds_driver s)"
    and "length (dr_cells (ds_driver t)) = length (dr_cells (ds_driver s))"
    and "ds_start t = ds_start s" "ds_read t = ds_read s" "ds_dispatched t = ds_dispatched s" "ds_lost t = ds_lost s"
    and "setting_up (ds_pc t) \<Longrightarrow> setting_up (ds_pc s) \<and> ds_router t = ds_router s
      \<and> ds_updater t = ds_updater s \<and> ds_watcher t = ds_watcher s"
    and "route_inv s"
  shows "route_inv t"
  using assms by (auto simp: route_inv_def passed_def addressed_def)

lemma route_inv_start: "dsp_start E chain u s \<Longrightarrow> route_inv s"
  by (auto simp: dsp_start_def build_def join_def driver_new_def route_inv_def addressed_def passed_def)

lemma split_events:
  obtains post where "dr_events (ds_driver s) = take (ds_start s) (dr_events (ds_driver s)) @ passed s @ post"
  unfolding passed_def by (metis append_take_drop_id)

lemma passed_driver:
  assumes "drv_step E (ds_driver s) d'" and "ds_start s \<le> ds_read s" and "ds_read s \<le> length (dr_events (ds_driver s))"
  shows "passed (s\<lparr>ds_driver := d', ds_unseen := b\<rparr>) = passed s"
proof -
  obtain es where "dr_events d' = dr_events (ds_driver s) @ es"
    using events_grow [OF assms(1)] by (auto simp: prefix_def)
  with assms(2,3) show ?thesis by (simp add: passed_def)
qed

lemma subseq_distinct: "subseq xs ys \<Longrightarrow> distinct ys \<Longrightarrow> distinct xs"
  by (metis distinct_nthsI subseq_conv_nths)

lemma subseq_skip: "subseq xs ys \<Longrightarrow> subseq xs (ys @ zs)"
  by (rule subseq_order.trans [of _ ys]) (simp_all add: subseq_rev_drop_many)

lemma route_step_inv:
  assumes inv: "route_inv s" and recv: "broadcast_ok recv"
    and running: "ds_router s"
    and got: "recv (ds_read s) (dr_events (ds_driver s)) gone = Some (r, p)"
  shows "route_inv (route r p s)"
proof -
  let ?ev = "dr_events (ds_driver s)"
  have bounds: "ds_start s \<le> ds_read s" "ds_read s \<le> length ?ev" and pc: "\<not> setting_up (ds_pc s)"
    and sub: "subseq (ds_dispatched s) (assigned_of (passed s))"
    and len: "length (assigned_of (passed s)) \<le> length (ds_dispatched s) + ds_lost s"
    using inv running by (auto simp: route_inv_def)
  note law = broadcast_okD [OF recv bounds(2) got]
  show ?thesis
  proof (cases r)
    case (Got e)
    with law(1) have e: "ds_read s < length ?ev" "e = ?ev ! ds_read s" "p = Suc (ds_read s)" by simp_all
    have next_passed: "take (p - ds_start s) (List.drop (ds_start s) ?ev) = passed s @ [e]"
      using bounds e by (simp add: passed_def Suc_diff_le take_Suc_conv_app_nth)
    show ?thesis
    proof (cases e)
      case (Assigned gid shard a)
      have rt: "route r p s = s\<lparr>ds_read := p, ds_dispatched := ds_dispatched s @ [(gid, shard, a)]\<rparr>"
        by (simp add: route_def Got Assigned)
      have "passed (route r p s) = passed s @ [Assigned gid shard a]"
        using next_passed by (simp add: passed_def rt Assigned)
      with inv bounds e(1,3) sub len pc show ?thesis
        unfolding rt by (simp add: route_inv_def addressed_def)
    next
      case (Removed gid)
      have rt: "route r p s = s\<lparr>ds_read := p\<rparr>" by (simp add: route_def Got Removed)
      have "passed (route r p s) = passed s @ [Removed gid]"
        using next_passed by (simp add: passed_def rt Removed)
      with inv bounds e(1,3) sub len pc show ?thesis
        unfolding rt by (simp add: route_inv_def addressed_def)
    qed
  next
    case (Lagged n)
    with law(2) have n: "256 < length ?ev - ds_read s" "p = ds_read s + n" "p \<le> length ?ev" by simp_all
    have "p - ds_start s = (ds_read s - ds_start s) + n" using n(2) bounds(1) by simp
    then have "passed (route r p s) = passed s @ take n (List.drop (ds_read s) ?ev)"
      unfolding passed_def using bounds(1)
      by (simp add: route_def Lagged \<open>p - ds_start s = _\<close> take_add del: add_diff_assoc2)
    moreover have "length (assigned_of (take n (List.drop (ds_read s) ?ev))) \<le> n"
      using assigned_of_length [of "take n (List.drop (ds_read s) ?ev)"] by simp
    moreover have "256 < length ?ev - ds_start s" using n(1) bounds(1) by simp
    ultimately show ?thesis
      using inv n bounds sub len pc by (simp add: route_inv_def route_def Lagged addressed_def subseq_skip)
  next
    case ChannelClosed
    with law(3) have "p = ds_read s" by simp
    with inv pc show ?thesis by (simp add: route_inv_def route_def ChannelClosed addressed_def passed_def)
  qed
qed

lemma route_inv_step:
  assumes "broadcast_ok (de_recv E)" and inv: "route_inv s" and "dsp_step E chain s t"
  shows "route_inv t"
  using assms(3)
proof cases
  case (driver d')
  have grow: "length (dr_events (ds_driver s)) \<le> length (dr_events d')"
    using events_grow [OF driver(2)] by (rule prefix_length_le)
  have "passed t = passed s"
    using passed_driver [OF driver(2)] inv by (simp add: driver(1) route_inv_def)
  with inv grow addressed_step [OF driver(2)] show ?thesis by (auto simp: route_inv_def driver(1))
next
  case (route r p)
  then show ?thesis using route_step_inv [OF inv assms(1)] by simp
next
  case start
  then show ?thesis using inv by (simp add: start_tasks_def Let_def route_inv_def passed_def)
next
  case (init k)
  then show ?thesis
    by (intro route_inv_cong [OF _ _ _ _ _ _ _ inv]) (simp_all add: init_filter_def)
next
  case seed
  then show ?thesis
    by (intro route_inv_cong [OF _ _ _ _ _ _ _ inv]) (simp_all add: seed_pool_def Let_def)
next
  case resent
  then show ?thesis by (intro route_inv_cong [OF _ _ _ _ _ _ _ inv]) simp_all
next
  case update
  then show ?thesis
    by (intro route_inv_cong [OF _ _ _ _ _ _ _ inv]) (simp_all add: updater_read_def)
next
  case (applied snap)
  then show ?thesis
    by (intro route_inv_cong [OF _ _ _ _ _ _ _ inv]) (simp_all add: updater_apply_def)
next
  case updater_end
  then show ?thesis
    by (intro route_inv_cong [OF _ _ _ _ _ _ _ inv]) (use inv in \<open>auto simp: route_inv_def\<close>)
next
  case closed
  then show ?thesis
    by (intro route_inv_cong [OF _ _ _ _ _ _ _ inv]) (use inv in \<open>auto simp: watcher_close_def route_inv_def\<close>)
next
  case drain
  then show ?thesis
    by (intro route_inv_cong [OF _ _ _ _ _ _ _ inv]) (simp_all add: drain_start_def)
next
  case (drained res)
  then show ?thesis
    by (intro route_inv_cong [OF _ _ _ _ _ _ _ inv]) (simp_all add: drain_end_def stop_tasks_def)
next
  case timed_out
  then show ?thesis
    by (intro route_inv_cong [OF _ _ _ _ _ _ _ inv]) (simp_all add: drain_end_def stop_tasks_def)
next
  case dropped
  then show ?thesis
    by (intro route_inv_cong [OF _ _ _ _ _ _ _ inv]) (simp_all add: drop_dispatcher_def stop_tasks_def)
qed

interpretation router_system: invariant_system "dsp_start E chain u" "dsp_step E chain"
    "\<lambda>s. broadcast_ok (de_recv E) \<longrightarrow> route_inv s" for E chain u
  by unfold_locales (auto intro: route_inv_start route_inv_step)

lemma route_reach:
  "broadcast_ok (de_recv E) \<Longrightarrow> reach (dsp_start E chain u) (dsp_step E chain) s \<Longrightarrow> route_inv s"
  using router_system.reach_inv [of E chain u s] by simp

text \<open>What is reported as lost was lost to a lag: the receiver was more than 256 events behind.\<close>

lemma lost_by_lag:
  assumes recv: "broadcast_ok (de_recv E)" and inv: "route_inv s" and "dsp_step E chain s t"
    and "ds_lost t \<noteq> ds_lost s"
  shows "ds_read s + 256 < length (dr_events (ds_driver s))"
  using assms(3)
proof cases
  case (route r p)
  have "ds_read s \<le> length (dr_events (ds_driver s))" using inv by (simp add: route_inv_def)
  note law = broadcast_okD(2) [OF recv this route(3)]
  show ?thesis
    using assms(4) law by (auto simp: route(1) route_def split: received.splits GrantEvent.splits)
qed (use assms(4) in \<open>simp_all add: seed_pool_def init_filter_def start_tasks_def updater_read_def
    updater_apply_def watcher_close_def drain_start_def drain_end_def drop_dispatcher_def stop_tasks_def Let_def\<close>)

text \<open>
  C13. The router hands out what the stream announces: the grants dispatched are, in order, grants
  announced after the router subscribed, each of them at most once. As long as no event was
  reported lost they are exactly the ones announced in the events it has been past; in general at
  most as many are missing as were reported lost, and a step that reports a loss is one in which
  the router was more than 256 events behind. In particular nothing is lost as long as no more
  than 256 events were broadcast since it subscribed.
\<close>

theorem dispatched_in_order:
  assumes "broadcast_ok (de_recv E)" and "reach (dsp_start E chain u) (dsp_step E chain) s"
  shows "subseq (ds_dispatched s) (assigned_of (passed s))
    \<and> distinct (map (snd \<circ> snd) (ds_dispatched s))
    \<and> (ds_lost s = 0 \<longrightarrow> ds_dispatched s = assigned_of (passed s))
    \<and> length (assigned_of (passed s)) \<le> length (ds_dispatched s) + ds_lost s
    \<and> (\<forall>t. dsp_step E chain s t \<longrightarrow> ds_lost t \<noteq> ds_lost s \<longrightarrow>
         ds_read s + 256 < length (dr_events (ds_driver s)))
    \<and> (length (dr_events (ds_driver s)) - ds_start s \<le> 256 \<longrightarrow> ds_dispatched s = assigned_of (passed s))"
proof (intro conjI impI allI)
  have inv: "route_inv s" by (rule route_reach [OF assms])
  then show sub: "subseq (ds_dispatched s) (assigned_of (passed s))" by (simp add: route_inv_def)
  have "subseq (assigned_of (passed s)) (assigned_of (dr_events (ds_driver s)))"
  proof -
    let ?ev = "dr_events (ds_driver s)"
    obtain post where "?ev = take (ds_start s) ?ev @ passed s @ post" by (rule split_events)
    then have "assigned_of ?ev = assigned_of (take (ds_start s) ?ev) @ assigned_of (passed s) @ assigned_of post"
      by (metis assigned_of_append)
    then show ?thesis by (simp add: subseq_skip subseq_drop_many)
  qed
  with sub have "subseq (ds_dispatched s) (assigned_of (dr_events (ds_driver s)))"
    by (rule subseq_order.trans)
  then have "subseq (map (snd \<circ> snd) (ds_dispatched s)) [0 ..< length (dr_cells (ds_driver s))]"
    using inv subseq_map [of "ds_dispatched s" "assigned_of (dr_events (ds_driver s))" "snd \<circ> snd"]
    by (simp add: route_inv_def addressed_def)
  then show "distinct (map (snd \<circ> snd) (ds_dispatched s))"
    by (rule subseq_distinct) simp
  show len: "length (assigned_of (passed s)) \<le> length (ds_dispatched s) + ds_lost s"
    using inv by (simp add: route_inv_def)
  show all: "ds_dispatched s = assigned_of (passed s)" if "ds_lost s = 0"
    using list_emb_length [OF sub] subseq_same_length [OF sub] len that by simp
  show "ds_read s + 256 < length (dr_events (ds_driver s))" if "dsp_step E chain s t" "ds_lost t \<noteq> ds_lost s" for t
    by (rule lost_by_lag [OF assms(1) inv that])
  assume "length (dr_events (ds_driver s)) - ds_start s \<le> 256"
  with inv show "ds_dispatched s = assigned_of (passed s)" by (intro all) (auto simp: route_inv_def)
qed

lemma assigned_of_mem: "Assigned gid shard a \<in> set es \<Longrightarrow> (gid, shard, a) \<in> set (assigned_of es)"
  by (induction es rule: assigned_of.induct) auto

text \<open>
  C30. Grants announced before the router subscribed are never offered to a filter: the driver is
  already running while \<open>build\<close> seeds the pool and initialises the filters, and \<open>resubscribe\<close>
  starts behind what it has sent by then. Such a grant stays in the table, and is extended with
  the others, but no chain ever sees it.
\<close>

theorem early_grants_never_dispatched:
  assumes "broadcast_ok (de_recv E)" and "reach (dsp_start E chain u) (dsp_step E chain) s"
    and "i < ds_start s" and "dr_events (ds_driver s) ! i = Assigned gid shard a"
  shows "(gid', shard', a) \<notin> set (ds_dispatched s)"
proof
  let ?ev = "dr_events (ds_driver s)"
  assume in_d: "(gid', shard', a) \<in> set (ds_dispatched s)"
  have inv: "route_inv s" by (rule route_reach [OF assms(1,2)])
  have "subseq (ds_dispatched s) (assigned_of (passed s))" using inv by (simp add: route_inv_def)
  then have late: "(gid', shard', a) \<in> set (assigned_of (passed s))"
    using in_d by (auto dest: list_emb_set)
  have "i < length ?ev" using assms(3) inv by (auto simp: route_inv_def)
  then have "take (ds_start s) ?ev ! i \<in> set (take (ds_start s) ?ev)"
    using assms(3) by (intro nth_mem) simp
  then have "Assigned gid shard a \<in> set (take (ds_start s) ?ev)"
    unfolding nth_take [OF assms(3)] assms(4) .
  then have early: "(gid, shard, a) \<in> set (assigned_of (take (ds_start s) ?ev))" by (rule assigned_of_mem)
  let ?pre = "take (ds_start s) ?ev"
  obtain post where split: "?ev = ?pre @ passed s @ post" by (rule split_events)
  have "map (snd \<circ> snd) (assigned_of ?ev) = [0 ..< length (dr_cells (ds_driver s))]"
    using inv by (simp add: route_inv_def addressed_def)
  moreover have "assigned_of ?ev = assigned_of ?pre @ assigned_of (passed s) @ assigned_of post"
    using split by (metis assigned_of_append)
  ultimately have "distinct (map (snd \<circ> snd) (assigned_of ?pre) @ map (snd \<circ> snd) (assigned_of (passed s))
      @ map (snd \<circ> snd) (assigned_of post))"
    by (metis distinct_upt map_append)
  then have "set (map (snd \<circ> snd) (assigned_of ?pre)) \<inter> set (map (snd \<circ> snd) (assigned_of (passed s))) = {}"
    by auto
  with imageI [OF early, of "snd \<circ> snd"] imageI [OF late, of "snd \<circ> snd"] show False by auto
qed

end
