(* ===== verification/DispatcherSync.thy ===== *)
theory DispatcherSync
  imports DispatcherSystem
begin

text \<open>
  The pool of a dispatcher follows the snapshots of its stream, and what \<open>drain\<close>, \<open>drop\<close> and the end
  of the stream do to a dispatcher.
\<close>

lemma route_same [simp]:
  "ds_pc (route r p s) = ds_pc s" "ds_driver (route r p s) = ds_driver s" "ds_user (route r p s) = ds_user s"
  "ds_pool (route r p s) = ds_pool s" "ds_unseen (route r p s) = ds_unseen s"
  "ds_snapshot (route r p s) = ds_snapshot s" "ds_updater (route r p s) = ds_updater s"
  "ds_watcher (route r p s) = ds_watcher s" "ds_closed (route r p s) = ds_closed s"
  by (simp_all add: route_def split: received.split GrantEvent.split)

section \<open>Snapshots of the stream\<close>

lemma handlers_keep_cluster:
  "dr_cluster (snd (on_assign now g d)) = dr_cluster d" "dr_cluster (snd (on_promote g d)) = dr_cluster d"
  "dr_cluster (snd (on_revoke g d)) = dr_cluster d" "dr_cluster (on_notify n d) = dr_cluster d"
  "dr_cluster (snd (on_extend E e d)) = dr_cluster d" "dr_cluster (remove_grant gid d) = dr_cluster d"
proof -
  show rm: "dr_cluster (remove_grant gid d) = dr_cluster d" for gid d
    by (simp add: remove_grant_def Let_def emit_def on_cell_def split: option.split)
  show "dr_cluster (snd (on_assign now g d)) = dr_cluster d"
    by (cases rule: on_assign_cases [of now g d]) (simp_all add: add_grant_def emit_def rm)
  show "dr_cluster (snd (on_promote g d)) = dr_cluster d"
    by (simp add: on_promote_def Let_def on_cell_def split: option.split)
  show "dr_cluster (snd (on_revoke g d)) = dr_cluster d"
    by (simp add: on_revoke_def Let_def on_cell_def split: option.split sum.split)
  show "dr_cluster (on_notify n d) = dr_cluster d"
    by (simp add: on_notify_def on_cell_def split: option.split GrantState.split)
  have "dr_cluster (fold (extend_one l) gids d) = dr_cluster d" for l gids
    by (induction gids arbitrary: d) (simp_all add: extend_one_def on_cell_def split: option.split)
  then show "dr_cluster (snd (on_extend E e d)) = dr_cluster d"
    by (simp add: on_extend_def split: option.split sum.split)
qed

lemma handle_client_cluster: "dr_cluster (snd (handle_client_message E now m d)) = dr_cluster d"
proof -
  have "dr_cluster (snd (for_each (on_assign now) gs d)) = dr_cluster d"
    "dr_cluster (snd (for_each on_promote gs d)) = dr_cluster d"
    "dr_cluster (snd (for_each on_revoke gs d)) = dr_cluster d" for gs
    by (rule for_each_keeps [where P = "\<lambda>c. dr_cluster c = dr_cluster d"]; simp add: handlers_keep_cluster)+
  then show ?thesis
    by (simp add: handle_client_message_def handlers_keep_cluster split: option.split client_Msg.split)
qed

lemma handle_inbound_wf:
  assumes "cluster_wf (dr_cluster d)"
  shows "cluster_wf (dr_cluster (snd (handle_inbound E now msg d)))"
  using assms
  by (auto simp: handle_inbound_state handle_cluster_def handle_client_cluster
      split: option.split join_Msg.split consumer_Msg.split sum.split fault.split
      intro: cluster_apply_keeps_wf)

lemma break_loop_cluster [simp]: "dr_cluster (break_loop E r d) = dr_cluster d"
proof -
  have "dr_cluster (fold remove_grant gids c) = dr_cluster c" for gids c
    by (induction gids arbitrary: c) (simp_all add: handlers_keep_cluster)
  then show ?thesis by (simp add: break_loop_def clean_up_def Let_def)
qed

lemma send_out_cluster [simp]: "dr_cluster (snd (send_out m d)) = dr_cluster d"
  by (simp add: send_out_def)

lemma on_cell_cluster [simp]: "dr_cluster (on_cell a f d) = dr_cluster d"
  by (simp add: on_cell_def)

text \<open>The stream only ever publishes well-formed snapshots.\<close>

lemma driver_cluster_wf:
  assumes "drv_step E d d'" and wf: "cluster_wf (dr_cluster d)"
  shows "cluster_wf (dr_cluster d')"
  using assms(1)
proof cases
  case (inbound b now i)
  show ?thesis
  proof (cases i)
    case (Item msg)
    obtain r d1 where h: "handle_inbound E now msg d = (r, d1)" by force
    have "cluster_wf (dr_cluster d1)" using handle_inbound_wf [OF wf, of E now msg] h by simp
    then show ?thesis
      by (auto simp: inbound(1) inbound_branch_def Item h split: sum.split fault.split option.split)
  qed (use wf in \<open>simp_all add: inbound(1) inbound_branch_def\<close>)
next
  case leave
  then show ?thesis using wf by (simp add: leave_branch_def)
next
  case part
  then show ?thesis using wf by (simp add: part_branch_def)
next
  case (beat now)
  then show ?thesis using wf by (simp add: heartbeat_branch_def send_out_def)
qed (use wf in \<open>simp_all add: select_enter_def watcher_send_def\<close>)

section \<open>The pool follows the snapshots\<close>

definition consumer_order_ok :: "dispatcher_env \<Rightarrow> bool" where
  "consumer_order_ok E \<longleftrightarrow>
     (\<forall>cm. finite (dom (cmap_consumers cm)) \<longrightarrow> enumerates (de_order E cm) (cmap_consumers cm))"

text \<open>
  A pool agrees with a snapshot: no entry for an instance that is not dialable there, and for every
  other instance whose endpoint can be dialled an entry at that endpoint.
\<close>

definition pool_agrees :: "ClusterMap \<Rightarrow> 'ch ConnectionPool \<Rightarrow> bool" where
  "pool_agrees cm pool \<longleftrightarrow>
     (\<forall>i. case peer_endpoint (pool_self_id pool) cm i of
            None \<Rightarrow> pool_entries pool i = None
          | Some endpoint \<Rightarrow>
              (\<forall>channel. pool_dial pool endpoint = Inr channel \<longrightarrow>
                 map_option pe_endpoint (pool_entries pool i) = Some endpoint))"

lemma apply_cluster_agrees:
  assumes "consumer_order_ok E" and "cluster_wf cm"
  shows "pool_agrees cm (apply_cluster (de_order E cm) cm pool)"
proof -
  have "enumerates (de_order E cm) (cmap_consumers cm)"
    using assms cluster_wfD(2) [OF assms(2)] by (simp add: consumer_order_ok_def)
  from apply_cluster_entries [OF assms(2) this, of pool] show ?thesis
    by (auto simp: pool_agrees_def refresh_entry_def split: option.split sum.split)
qed

definition sync_inv :: "('u, 'ch) dispatcher \<Rightarrow> bool" where
  "sync_inv s \<longleftrightarrow>
     cluster_wf (dr_cluster (ds_driver s))
     \<and> (case ds_snapshot s of
          None \<Rightarrow> ds_pc s \<noteq> SeedPool \<longrightarrow> \<not> ds_unseen s \<longrightarrow> pool_agrees (dr_cluster (ds_driver s)) (ds_pool s)
        | Some snap \<Rightarrow> cluster_wf snap \<and> (\<not> ds_unseen s \<longrightarrow> snap = dr_cluster (ds_driver s)))
     \<and> (setting_up (ds_pc s) \<longrightarrow> ds_snapshot s = None \<and> \<not> ds_updater s)"

lemma sync_inv_step:
  assumes order: "consumer_order_ok E" and inv: "sync_inv s" and "dsp_step E chain s t"
  shows "sync_inv t"
  using assms(3)
proof cases
  case (driver d')
  have "cluster_wf (dr_cluster d')"
    using driver_cluster_wf [OF driver(2)] inv by (simp add: sync_inv_def)
  with inv show ?thesis by (auto simp: sync_inv_def driver(1) split: option.splits)
next
  case seed
  then have "cluster_wf (dr_cluster (ds_driver s))" "ds_snapshot s = None" "\<not> ds_updater s"
    using inv by (simp_all add: sync_inv_def)
  then show ?thesis by (simp add: seed(1) seed_pool_def Let_def sync_inv_def apply_cluster_agrees [OF order])
next
  case (applied snap)
  then show ?thesis
    using inv by (auto simp: sync_inv_def updater_apply_def apply_cluster_agrees [OF order])
next
  case (route r p)
  then show ?thesis
    using inv by (simp add: sync_inv_def split: option.splits)
qed (use inv in \<open>auto simp: sync_inv_def init_filter_def start_tasks_def updater_read_def watcher_close_def
      drain_start_def drain_end_def drop_dispatcher_def stop_tasks_def Let_def split: option.splits\<close>)

lemma sync_inv_start: "dsp_start E chain u s \<Longrightarrow> sync_inv s"
  by (auto simp: dsp_start_def build_def join_def driver_new_def sync_inv_def cluster_wf_empty)

interpretation updater_system: invariant_system "dsp_start E chain u" "dsp_step E chain"
    "\<lambda>s. consumer_order_ok E \<longrightarrow> sync_inv s" for E chain u
  by unfold_locales (auto intro: sync_inv_start sync_inv_step)

text \<open>
  C14. The pool follows the stream and misses no snapshot, however the driver, \<open>build\<close> and the updater
  are interleaved: whenever no update is pending, an instance is in the pool only if the latest
  snapshot lists it with an endpoint and it is not this instance, and every such instance whose
  endpoint can be dialled has a channel for exactly that endpoint.
\<close>

theorem pool_follows_cluster:
  assumes "consumer_order_ok E" and "reach (dsp_start E chain u) (dsp_step E chain) s"
    and "ds_pc s \<noteq> SeedPool" and "\<not> ds_unseen s" and "ds_snapshot s = None"
  shows "case peer_endpoint (pool_self_id (ds_pool s)) (dr_cluster (ds_driver s)) i of
      None \<Rightarrow> pool_entries (ds_pool s) i = None
    | Some endpoint \<Rightarrow> (\<forall>channel. pool_dial (ds_pool s) endpoint = Inr channel \<longrightarrow>
        map_option pe_endpoint (pool_entries (ds_pool s) i) = Some endpoint)"
proof -
  have "sync_inv s" using updater_system.reach_inv [OF assms(2)] assms(1) by simp
  with assms(3-5) have "pool_agrees (dr_cluster (ds_driver s)) (ds_pool s)" by (simp add: sync_inv_def)
  then show ?thesis unfolding pool_agrees_def by blast
qed

section \<open>Initialisation\<close>

definition init_inv :: "'u DispatchFilter list \<Rightarrow> 'u \<Rightarrow> ('u, 'ch) dispatcher \<Rightarrow> bool" where
  "init_inv chain u s \<longleftrightarrow>
     (case ds_pc s of
        SeedPool \<Rightarrow> ds_user s = u
      | InitFilters k \<Rightarrow> k \<le> length chain \<and> ds_user s = fold df_init (take k chain) u
      | _ \<Rightarrow> ds_user s = fold df_init chain u)
     \<and> (setting_up (ds_pc s) \<longrightarrow> \<not> ds_router s \<and> ds_dispatched s = [])"

lemma init_inv_step:
  assumes inv: "init_inv chain u s" and "dsp_step E chain s t"
  shows "init_inv chain u t"
  using assms(2)
proof cases
  case (init k)
  then show ?thesis
    using inv by (simp add: init_inv_def init_filter_def take_Suc_conv_app_nth)
next
  case (route r p)
  then show ?thesis
    using inv by (auto simp: init_inv_def split: dispatcher_pc.splits)
qed (use inv in \<open>auto simp: init_inv_def seed_pool_def start_tasks_def updater_read_def updater_apply_def
      watcher_close_def drain_start_def drain_end_def drop_dispatcher_def stop_tasks_def Let_def
      split: dispatcher_pc.splits\<close>)

interpretation init_system: invariant_system "dsp_start E chain u" "dsp_step E chain" "init_inv chain u" for E chain u
proof unfold_locales
  show "init_inv chain u s" if "dsp_start E chain u s" for s
    using that by (auto simp: dsp_start_def build_def init_inv_def)
qed (rule init_inv_step)

text \<open>
  Every filter is initialised exactly once, in the order of the chain, and before any grant is
  dispatched to the chain.
\<close>

theorem filters_initialised_first:
  assumes "reach (dsp_start E chain u) (dsp_step E chain) s" and "ds_dispatched s \<noteq> []"
  shows "ds_user s = fold df_init chain u"
  using init_system.reach_inv [OF assms(1)] assms(2)
  by (cases "ds_pc s") (simp_all add: init_inv_def)

section \<open>Shutting down\<close>

definition at_end :: "dispatcher_pc \<Rightarrow> bool" where
  "at_end pc \<longleftrightarrow> (case pc of Drained r \<Rightarrow> True | Dropped \<Rightarrow> True | _ \<Rightarrow> False)"

definition end_inv :: "dispatcher_env \<Rightarrow> ('u, 'ch) dispatcher \<Rightarrow> bool" where
  "end_inv E s \<longleftrightarrow>
     loop_inv (ds_driver s)
     \<and> (is_closed (ds_closed s) \<longrightarrow> is_closed (dr_closed (ds_driver s)) \<or> at_end (ds_pc s))
     \<and> (at_end (ds_pc s) \<longrightarrow> is_closed (ds_closed s) \<and> \<not> ds_router s \<and> \<not> ds_updater s \<and> \<not> ds_watcher s)
     \<and> (\<not> setting_up (ds_pc s) \<longrightarrow> ds_watcher s \<or> is_closed (ds_closed s))
     \<and> (ds_pc s = Draining \<longrightarrow> is_closed (dr_shutdown (ds_driver s)))
     \<and> (\<forall>e. ds_pc s = Drained (Inl e) \<longrightarrow>
          shutdown_result (driver_outcome (de_panic_text E) (dr_pc (ds_driver s))) = Inl e)"

text \<open>A task that has ended keeps its result, and no latch is reopened.\<close>

lemma driver_step_end:
  assumes "drv_step E d d'"
  shows "loop_left (dr_pc d) \<Longrightarrow> dr_pc d' = dr_pc d" and "is_closed (dr_shutdown d) \<Longrightarrow> is_closed (dr_shutdown d')"
    and "is_closed (dr_closed d) \<Longrightarrow> is_closed (dr_closed d')"
proof -
  show "loop_left (dr_pc d) \<Longrightarrow> dr_pc d' = dr_pc d"
    using loop_left_frozen [OF r_into_rtranclp [of "drv_step E", OF assms]] by simp
  have keep: "dr_closed c = dr_closed d \<Longrightarrow> is_closed (dr_closed d) \<Longrightarrow> is_closed (dr_closed (break_loop E r c))" for c r
    by (simp add: break_loop_def clean_up_def Let_def)
  have item: "dr_closed (snd (handle_inbound E now msg d)) = dr_closed d" for now msg
    using handle_inbound_same_loop [of d E now msg] by (simp add: same_loop_def)
  have inb: "is_closed (dr_closed d) \<Longrightarrow> is_closed (dr_closed (inbound_branch E now i d))" for now i
    using item by (auto simp: inbound_branch_def keep split: inbound.split prod.split sum.split fault.split option.split)
      (metis snd_conv)+
  show "is_closed (dr_shutdown d) \<Longrightarrow> is_closed (dr_shutdown d')"
    using assms by cases (simp_all add: select_enter_def leave_branch_def part_branch_def heartbeat_branch_def
        send_out_def inbound_branch_fields watcher_send_def)
  show "is_closed (dr_closed d) \<Longrightarrow> is_closed (dr_closed d')"
    using assms by cases (simp_all add: select_enter_def leave_branch_def part_branch_def heartbeat_branch_def
        send_out_def inb keep watcher_send_def)
qed

lemma outcome_left:
  assumes "shutdown_result (driver_outcome t pc) = Inl e"
  shows "loop_left pc"
  using assms by (cases pc) (simp_all add: driver_outcome_def shutdown_result_def loop_left_simps)

lemma end_inv_step:
  assumes order: "grant_order_ok (de_consumer E)" and inv: "end_inv E s" and "dsp_step E chain s t"
  shows "end_inv E t"
  using assms(3)
proof cases
  case (driver d')
  have "loop_inv d'" using loop_inv_step [OF order _ driver(2)] inv by (simp add: end_inv_def)
  moreover have "shutdown_result (driver_outcome (de_panic_text E) (dr_pc d')) = Inl e"
    if "ds_pc s = Drained (Inl e)" for e
  proof -
    have "shutdown_result (driver_outcome (de_panic_text E) (dr_pc (ds_driver s))) = Inl e"
      using inv that by (simp add: end_inv_def)
    with outcome_left [OF this] driver_step_end(1) [OF driver(2)] show ?thesis by simp
  qed
  ultimately show ?thesis
    using inv driver_step_end(2,3) [OF driver(2)] by (auto simp: end_inv_def driver(1))
next
  case (route r p)
  have "ds_router s" by (rule route(2))
  with inv have "\<not> at_end (ds_pc s)" by (auto simp: end_inv_def)
  with inv show ?thesis by (simp add: end_inv_def route(1))
next
  case drain
  then show ?thesis using inv by (auto simp: end_inv_def drain_start_def at_end_def)
next
  case (drained res)
  then show ?thesis
    using inv by (auto simp: end_inv_def drain_end_def stop_tasks_def at_end_def shutdown_result_def)
qed (use inv in \<open>auto simp: end_inv_def at_end_def seed_pool_def init_filter_def start_tasks_def updater_read_def
      updater_apply_def watcher_close_def drain_end_def drop_dispatcher_def stop_tasks_def Let_def\<close>)

lemma end_inv_start: "dsp_start E chain u s \<Longrightarrow> end_inv E s"
proof -
  assume "dsp_start E chain u s"
  then obtain T session_id b where s: "s = build E T session_id b u" by (auto simp: dsp_start_def)
  have "drv_start (de_consumer E) (ds_driver s)" by (auto simp: s build_def drv_start_def)
  from loop_inv_start [OF this] show ?thesis by (simp add: end_inv_def s build_def at_end_def)
qed

interpretation ending_system: invariant_system "dsp_start E chain u" "dsp_step E chain"
    "\<lambda>s. grant_order_ok (de_consumer E) \<longrightarrow> end_inv E s" for E chain u
  by unfold_locales (auto intro: end_inv_start end_inv_step)

text \<open>
  C32. What \<open>drain\<close> promises. When it returns, the background tasks are stopped and the dispatcher is
  closed; it returns an error only if the stream's task ended with that error. It does not
  promise that the stream has ended: on a timeout it reports success as well.
\<close>

theorem drain_outcome:
  assumes "grant_order_ok (de_consumer E)" and "reach (dsp_start E chain u) (dsp_step E chain) s"
    and "ds_pc s = Drained res"
  shows "is_closed (ds_closed s) \<and> \<not> ds_router s \<and> \<not> ds_updater s \<and> \<not> ds_watcher s
    \<and> (\<forall>e. res = Inl e \<longrightarrow>
         shutdown_result (driver_outcome (de_panic_text E) (dr_pc (ds_driver s))) = Inl e)"
  using ending_system.reach_inv [OF assms(2)] assms(1,3) by (simp add: end_inv_def at_end_def)

text \<open>
  C31. Whether a running dispatcher learns of the end of its stream depends on how it ended: if the driver
  finished through its clean-up, the dispatcher is closed or its watcher is there and can close it
  next, while the dispatcher goes on running, and so without anyone draining or dropping it; if the
  driver left its loop by a close from the server or by a panic, the dispatcher stays open.
\<close>

theorem stream_end_noticed:
  assumes "grant_order_ok (de_consumer E)" and "reach (dsp_start E chain u) (dsp_step E chain) s"
    and "ds_pc s = Running"
  shows "(dr_pc (ds_driver s) = Finish r \<longrightarrow>
       is_closed (ds_closed s)
       \<or> ds_watcher s \<and> (\<exists>t. dsp_step E chain s t \<and> ds_pc t = Running \<and> is_closed (ds_closed t)))
    \<and> (dr_pc (ds_driver s) = EarlyReturn e \<or> dr_pc (ds_driver s) = Panicked \<longrightarrow> \<not> is_closed (ds_closed s))"
proof -
  have inv: "end_inv E s" using ending_system.reach_inv [OF assms(2)] assms(1) by simp
  then have loop: "is_closed (dr_closed (ds_driver s)) \<longleftrightarrow> (\<exists>r. dr_pc (ds_driver s) = Finish r)"
    by (simp add: end_inv_def loop_inv_def)
  show ?thesis
  proof (intro conjI impI)
    assume "dr_pc (ds_driver s) = Finish r"
    then have "is_closed (dr_closed (ds_driver s))" using loop by blast
    moreover have "ds_watcher s \<or> is_closed (ds_closed s)" using inv assms(3) by (simp add: end_inv_def)
    moreover have "is_closed (ds_closed (watcher_close s))" "ds_pc (watcher_close s) = Running"
      using assms(3) by (simp_all add: watcher_close_def)
    ultimately show "is_closed (ds_closed s)
       \<or> ds_watcher s \<and> (\<exists>t. dsp_step E chain s t \<and> ds_pc t = Running \<and> is_closed (ds_closed t))"
      using dsp_step.closed by blast
  next
    assume "dr_pc (ds_driver s) = EarlyReturn e \<or> dr_pc (ds_driver s) = Panicked"
    then have "\<not> is_closed (dr_closed (ds_driver s))" using loop by auto
    then show "\<not> is_closed (ds_closed s)" using inv assms(3) by (auto simp: end_inv_def at_end_def)
  qed
qed

end
