(* ===== verification/DispatcherRuns.thy ===== *)
theory DispatcherRuns
  imports DispatcherSync ConsumerRuns
begin

text \<open>Concrete executions of a dispatcher, which witness the properties of \<open>DispatcherSystem\<close> and
  \<open>DispatcherSync\<close>.\<close>

section \<open>A concrete dispatcher\<close>

instantiation InstanceId :: linorder
begin

definition less_eq_InstanceId :: "InstanceId \<Rightarrow> InstanceId \<Rightarrow> bool" where
  "less_eq_InstanceId x y \<longleftrightarrow> as_uuid x \<le> as_uuid y"

definition less_InstanceId :: "InstanceId \<Rightarrow> InstanceId \<Rightarrow> bool" where
  "less_InstanceId x y \<longleftrightarrow> as_uuid x < as_uuid y"

instance
  by intro_classes (auto simp: less_eq_InstanceId_def less_InstanceId_def InstanceId.expand)

end

definition demo_dsp_env :: dispatcher_env where
  "demo_dsp_env =
     \<lparr>de_consumer = demo_consumer_env, de_recv = demo_broadcast,
      de_order = (\<lambda>cm. sorted_list_of_set (dom (cmap_consumers cm))), de_panic_text = ''panic''\<rparr>"

lemma demo_dsp_ok:
  "broadcast_ok (de_recv demo_dsp_env)" "consumer_order_ok demo_dsp_env"
  "grant_order_ok (de_consumer demo_dsp_env)"
  by (simp_all add: demo_dsp_env_def demo_broadcast_ok demo_order_ok consumer_order_ok_def enumerates_def)

type_synonym demo_dispatcher = "(string list, string) dispatcher"

definition demo_chain :: "string list DispatchFilter list" where
  "demo_chain = [demo_filter ''g'']"

definition demo_builder :: "(string list, string) DispatcherBuilder" where
  "demo_builder =
     builder_pool (pool_with_dial (InstanceId 1) pool_demo_dial)
       (builder_filter (demo_filter ''g'')
         (builder_new (qsn_new ''acme'' ''widgets'') (demo_instance 1 ''h1:1'')))"

definition demo_built :: demo_dispatcher where
  "demo_built = build demo_dsp_env (\<lambda>s. Inl s) ''s'' demo_builder []"

abbreviation demo_reach :: "demo_dispatcher \<Rightarrow> bool" where
  "demo_reach \<equiv> reach (dsp_start demo_dsp_env demo_chain []) (dsp_step demo_dsp_env demo_chain)"

lemma demo_built_eq:
  "demo_built = \<lparr>ds_pc = SeedPool, ds_driver = demo_joined, ds_user = [],
      ds_pool = pool_with_dial (InstanceId 1) pool_demo_dial, ds_unseen = False, ds_snapshot = None,
      ds_start = 0, ds_read = 0, ds_lost = 0, ds_dispatched = [],
      ds_router = False, ds_updater = False, ds_watcher = False, ds_closed = fresh_latch\<rparr>"
  by (simp add: demo_built_def build_def build_pool_def demo_builder_def builder_pool_def builder_filter_def
      builder_new_def demo_dsp_env_def demo_joined_def)

lemma demo_built_reach: "demo_reach demo_built"
proof (rule reach_start, unfold dsp_start_def, intro exI conjI)
  show "demo_built = build demo_dsp_env (\<lambda>s. Inl s) ''s'' demo_builder []" by (rule demo_built_def)
qed (simp add: demo_chain_def demo_builder_def builder_pool_def builder_filter_def builder_new_def)

text \<open>Setting up after some steps of the driver.\<close>

definition demo_set_up :: "demo_dispatcher \<Rightarrow> demo_dispatcher" where
  "demo_set_up s = start_tasks (init_filter (demo_filter ''g'') 0 (seed_pool demo_dsp_env s))"

lemma demo_set_up_reach:
  assumes "demo_reach s" and "ds_pc s = SeedPool"
  shows "demo_reach (demo_set_up s)"
proof -
  have 1: "demo_reach (seed_pool demo_dsp_env s)" by (rule reach_step [OF assms(1) dsp_step.seed [OF assms(2)]])
  have 2: "demo_reach (init_filter (demo_filter ''g'') 0 (seed_pool demo_dsp_env s))"
    using reach_step [OF 1 dsp_step.init [of _ 0]] by (simp add: demo_chain_def seed_pool_def Let_def)
  show ?thesis unfolding demo_set_up_def
    by (rule reach_step [OF 2 dsp_step.start]) (simp add: demo_chain_def init_filter_def)
qed

definition with_driver :: "driver \<Rightarrow> demo_dispatcher \<Rightarrow> demo_dispatcher" where
  "with_driver d s = s\<lparr>ds_driver := d, ds_unseen := ds_unseen s \<or> dr_cluster d \<noteq> dr_cluster (ds_driver s)\<rparr>"

lemma with_driver_reach: "demo_reach s \<Longrightarrow> drv_step demo_consumer_env (ds_driver s) d \<Longrightarrow> demo_reach (with_driver d s)"
  unfolding with_driver_def
  by (rule reach_step, assumption, rule dsp_step.driver) (simp add: demo_dsp_env_def)

text \<open>The driver waits, and receives an assignment, before and after \<open>build\<close> has finished.\<close>

definition demo_waiting :: "demo_dispatcher \<Rightarrow> demo_dispatcher" where
  "demo_waiting s = with_driver (select_enter demo_joined) s"

lemma demo_waiting_reach:
  assumes "demo_reach s" and "ds_driver s = demo_joined"
  shows "demo_reach (demo_waiting s)" and "demo_reach (with_driver demo_assigned (demo_waiting s))"
    and "demo_reach (with_driver demo_finished (demo_waiting s))"
proof -
  show 1: "demo_reach (demo_waiting s)"
    unfolding demo_waiting_def
    by (rule with_driver_reach [OF assms(1)]) (simp add: assms(2) drv_step.enter demo_joined_pc)
  show "demo_reach (with_driver demo_assigned (demo_waiting s))"
    by (rule with_driver_reach [OF 1]) (simp add: demo_waiting_def with_driver_def demo_assigned_def
        drv_step.inbound [OF demo_selecting])
  show "demo_reach (with_driver demo_finished (demo_waiting s))"
    by (rule with_driver_reach [OF 1]) (simp add: demo_waiting_def with_driver_def demo_finished_def
        drv_step.inbound [OF demo_selecting])
qed

section \<open>Witnesses\<close>

definition demo_late :: demo_dispatcher where
  "demo_late = with_driver demo_assigned (demo_waiting (demo_set_up demo_built))"

definition demo_early :: demo_dispatcher where
  "demo_early = demo_set_up (with_driver demo_assigned (demo_waiting demo_built))"

lemma demo_set_up_built_reach: "demo_reach (demo_set_up demo_built)"
  by (rule demo_set_up_reach [OF demo_built_reach]) (simp add: demo_built_eq)

lemma demo_set_up_driver [simp]: "ds_driver (demo_set_up s) = ds_driver s"
  by (simp add: demo_set_up_def start_tasks_def init_filter_def seed_pool_def Let_def)

lemma demo_built_driver [simp]: "ds_driver demo_built = demo_joined"
  by (simp add: demo_built_eq)

lemma demo_early_reach: "demo_reach demo_early"
  unfolding demo_early_def
  by (rule demo_set_up_reach [OF demo_waiting_reach(2) [OF demo_built_reach]])
    (simp_all add: demo_waiting_def with_driver_def demo_built_eq)

lemma demo_joined_events: "dr_events demo_joined = []"
  by (simp add: demo_joined_def join_def driver_new_def)

definition demo_routed :: demo_dispatcher where
  "demo_routed = route (Got (Assigned (GrantId ''g'') (demo_shard ''a'' ''m'') 0)) 1 demo_late"

lemma demo_routed_reach: "demo_reach demo_routed"
proof -
  have late: "demo_reach demo_late"
    unfolding demo_late_def by (rule demo_waiting_reach(2) [OF demo_set_up_built_reach]) simp
  have "ds_router demo_late" and at: "ds_read demo_late = 0" "ds_driver demo_late = demo_assigned"
    by (simp_all add: demo_late_def with_driver_def demo_waiting_def demo_set_up_def start_tasks_def Let_def
        init_filter_def seed_pool_def demo_built_eq demo_joined_events)
  moreover have "de_recv demo_dsp_env (ds_read demo_late) (dr_events (ds_driver demo_late))
      (sender_gone (ds_driver demo_late)) = Some (Got (Assigned (GrantId ''g'') (demo_shard ''a'' ''m'') 0), 1)"
    by (simp add: at demo_dsp_env_def demo_broadcast_def demo_assigned_eq)
  ultimately show ?thesis unfolding demo_routed_def by (intro reach_step [OF late] dsp_step.route)
qed

lemma demo_routed_dispatched: "ds_dispatched demo_routed = [(GrantId ''g'', demo_shard ''a'' ''m'', 0)]"
  by (simp add: demo_routed_def route_def demo_late_def with_driver_def demo_waiting_def demo_set_up_def
      start_tasks_def Let_def init_filter_def seed_pool_def demo_built_eq)

theorem dispatched_in_order_witness:
  "distinct (map (snd \<circ> snd) (ds_dispatched demo_routed)) \<and> ds_dispatched demo_routed = assigned_of (passed demo_routed)"
proof -
  have none_lost: "ds_lost demo_routed = 0"
    by (simp add: demo_routed_def route_def demo_late_def with_driver_def demo_waiting_def demo_set_up_def
        start_tasks_def Let_def init_filter_def seed_pool_def demo_built_eq)
  note all = dispatched_in_order [OF demo_dsp_ok(1) demo_routed_reach]
  show ?thesis
    by (rule conjI [OF conjunct1 [OF conjunct2 [OF all]]
          mp [OF conjunct1 [OF conjunct2 [OF conjunct2 [OF all]]] none_lost]])
qed

theorem filters_initialised_first_witness: "ds_user demo_routed = [''g'']"
  using filters_initialised_first [OF demo_routed_reach] demo_routed_dispatched
  by (simp add: demo_chain_def demo_filter_def)

theorem early_grants_never_dispatched_witness:
  "(GrantId ''g'', demo_shard ''a'' ''m'', 0) \<notin> set (ds_dispatched demo_early)"
proof (rule early_grants_never_dispatched [OF demo_dsp_ok(1) demo_early_reach])
  have "ds_start demo_early = 1" "ds_driver demo_early = demo_assigned"
    by (simp_all add: demo_early_def demo_set_up_def start_tasks_def Let_def init_filter_def seed_pool_def
        with_driver_def demo_waiting_def demo_assigned_eq)
  then show "0 < ds_start demo_early"
    "dr_events (ds_driver demo_early) ! 0 = Assigned (GrantId ''g'') (demo_shard ''a'' ''m'') 0"
    by (simp_all add: demo_assigned_eq)
qed

theorem stream_end_noticed_witness:
  "\<exists>t. dsp_step demo_dsp_env demo_chain (with_driver demo_finished (demo_waiting (demo_set_up demo_built))) t
     \<and> ds_pc t = Running \<and> is_closed (ds_closed t)"
proof -
  let ?s = "with_driver demo_finished (demo_waiting (demo_set_up demo_built))"
  have r: "demo_reach ?s" by (rule demo_waiting_reach(3) [OF demo_set_up_built_reach]) simp
  have pc: "ds_pc ?s = Running" and open_latch: "\<not> is_closed (ds_closed ?s)" and "ds_driver ?s = demo_finished"
    by (simp_all add: with_driver_def demo_waiting_def demo_set_up_def start_tasks_def Let_def
        init_filter_def seed_pool_def demo_built_eq)
  then have "dr_pc (ds_driver ?s) = Finish (Some (SessionClosed ''stream ended''))"
    by (simp add: demo_finished_def inbound_branch_def)
  from stream_end_noticed [OF demo_dsp_ok(3) r pc, THEN conjunct1, THEN mp, OF this]
  show ?thesis
  proof
    assume "is_closed (ds_closed ?s)"
    with open_latch show ?thesis by (rule notE)
  qed (rule conjunct2)
qed

theorem drain_outcome_witness:
  "is_closed (ds_closed (drain_end None (drain_start (demo_set_up demo_built))))"
proof -
  let ?s = "demo_set_up demo_built" and ?t = "drain_end None (drain_start (demo_set_up demo_built))"
  have "ds_pc ?s = Running" by (simp add: demo_set_up_def start_tasks_def Let_def)
  from reach_step [OF demo_set_up_built_reach dsp_step.drain [OF this]]
  have "demo_reach (drain_start ?s)" .
  then have t: "demo_reach ?t" by (rule reach_step) (simp add: dsp_step.timed_out drain_start_def)
  have "ds_pc ?t = Drained (Inr ())" by (simp add: drain_end_def)
  from drain_outcome [OF demo_dsp_ok(3) t this] show ?thesis by (rule conjunct1)
qed

text \<open>A snapshot arrives after \<open>build\<close>; the updater reads it and applies it.\<close>

definition demo_informed :: driver where
  "demo_informed = inbound_branch demo_consumer_env 0
     (Item \<lparr>jm_msg = Some (Consumer \<lparr>com_msg = Some (Cluster demo_snapshot)\<rparr>)\<rparr>) (select_enter demo_joined)"

lemma demo_informed_cluster: "dr_cluster demo_informed = demo_cluster"
  by (simp add: demo_informed_def inbound_branch_def handle_inbound_def handle_cluster_def demo_consumer_env_def
      demo_snapshot_apply select_enter_def demo_joined_def join_def driver_new_def)

definition demo_synced :: demo_dispatcher where
  "demo_synced =
     updater_apply demo_dsp_env demo_cluster
       (updater_read (with_driver demo_informed (demo_waiting (demo_set_up demo_built))))"

lemma demo_synced_reach: "demo_reach demo_synced"
proof -
  let ?s = "with_driver demo_informed (demo_waiting (demo_set_up demo_built))"
  have s: "demo_reach ?s"
  proof (rule with_driver_reach)
    show "demo_reach (demo_waiting (demo_set_up demo_built))"
      by (rule demo_waiting_reach(1) [OF demo_set_up_built_reach]) simp
    show "drv_step demo_consumer_env (ds_driver (demo_waiting (demo_set_up demo_built))) demo_informed"
      by (simp add: demo_waiting_def with_driver_def demo_informed_def drv_step.inbound [OF demo_selecting])
  qed
  have "dr_cluster (select_enter demo_joined) = cluster_empty"
    by (simp add: select_enter_def demo_joined_def join_def driver_new_def)
  moreover have "demo_cluster \<noteq> cluster_empty" by (simp add: demo_cluster_def cluster_empty_def)
  ultimately have "ds_updater ?s" "ds_snapshot ?s = None" "ds_unseen ?s"
    by (simp_all add: with_driver_def demo_waiting_def demo_set_up_def start_tasks_def Let_def init_filter_def
        seed_pool_def demo_built_eq demo_informed_cluster)
  from reach_step [OF s dsp_step.update [OF this]] have u: "demo_reach (updater_read ?s)" .
  have "ds_updater (updater_read ?s)" "ds_snapshot (updater_read ?s) = Some demo_cluster"
    by (simp_all add: updater_read_def with_driver_def demo_waiting_def demo_set_up_def start_tasks_def Let_def
        init_filter_def seed_pool_def demo_built_eq demo_informed_cluster)
  from reach_step [OF u dsp_step.applied [OF this]] show ?thesis unfolding demo_synced_def .
qed

theorem pool_follows_cluster_witness:
  "map_option pe_endpoint (pool_entries (ds_pool demo_synced) (InstanceId 2)) = Some (Endpoint ''h2:1'')"
proof -
  have "ds_pc demo_synced \<noteq> SeedPool" "\<not> ds_unseen demo_synced" "ds_snapshot demo_synced = None"
    and "dr_cluster (ds_driver demo_synced) = demo_cluster"
    and "pool_self_id (ds_pool demo_synced) = InstanceId 1" "pool_dial (ds_pool demo_synced) = pool_demo_dial"
    by (simp_all add: demo_synced_def updater_apply_def updater_read_def with_driver_def demo_waiting_def
        demo_set_up_def start_tasks_def Let_def init_filter_def seed_pool_def demo_built_eq demo_informed_cluster
        pool_with_dial_def)
  moreover have "peer_endpoint (InstanceId 1) demo_cluster (InstanceId 2) = Some (Endpoint ''h2:1'')"
    by (simp add: peer_endpoint_def demo_cluster_def demo_instance_def endpoint_is_empty_def)
  moreover have "pool_demo_dial (Endpoint ''h2:1'') = Inr ''h2:1''"
    by (simp add: pool_demo_dial_def)
  ultimately show ?thesis
    using pool_follows_cluster [OF demo_dsp_ok(2) demo_synced_reach, of "InstanceId 2"] by simp
qed

end
