(* ===== verification/PeerModel.thy ===== *)
theory PeerModel
  imports PoolModel DispatcherModel
begin

text \<open>
  Models \<open>splitter-peer/src/lib.rs\<close>: the harness around a consumer's own gRPC server.

  Socket addresses are elements of \<open>'a\<close> with their \<open>Display\<close> text; what the operating system does
  on \<open>bind\<close> and \<open>local_addr\<close> is the argument \<open>net\<close>. The server's task is tonic's: it is spawned by
  \<open>serve\<close>, gets the shutdown signal at most once, may be aborted, and has an outcome when awaited.
\<close>

section \<open>Serving\<close>

record 'a PeerServerBuilder =
  pb_bind :: 'a
  pb_advertised :: "string option"

definition peer_builder_new :: "'a \<Rightarrow> 'a PeerServerBuilder" where
  "peer_builder_new bind = \<lparr>pb_bind = bind, pb_advertised = None\<rparr>"

definition peer_advertise :: "string \<Rightarrow> 'a PeerServerBuilder \<Rightarrow> 'a PeerServerBuilder" where
  "peer_advertise endpoint b = b\<lparr>pb_advertised := Some endpoint\<rparr>"

text \<open>The network: the listener bound to an address, its local address, and the text of an address.\<close>

record ('a, 'l) network =
  net_bind :: "'a \<Rightarrow> string + 'l"
  net_local_addr :: "'l \<Rightarrow> string + 'a"
  net_display :: "'a \<Rightarrow> string"

text \<open>What is done to the task of a server, in order.\<close>

datatype peer_event = SignalSent | TaskAwaited | TaskAborted

record 'a PeerServer =
  ps_endpoint :: string
  ps_local_addr :: 'a
  ps_shutdown :: bool      \<comment> \<open>the sender is still there\<close>
  ps_task :: bool          \<comment> \<open>the join handle is still there\<close>
  ps_log :: "peer_event list"

definition ps_signals :: "'a PeerServer \<Rightarrow> nat" where
  "ps_signals s = length (filter (\<lambda>e. e = SignalSent) (ps_log s))"

definition ps_aborted :: "'a PeerServer \<Rightarrow> bool" where
  "ps_aborted s \<longleftrightarrow> TaskAborted \<in> set (ps_log s)"

definition peer_note :: "peer_event \<Rightarrow> 'a PeerServer \<Rightarrow> 'a PeerServer" where
  "peer_note e s = s\<lparr>ps_log := ps_log s @ [e]\<rparr>"

definition serve :: "('a, 'l) network \<Rightarrow> 'a PeerServerBuilder \<Rightarrow> string + 'a PeerServer" where
  "serve net b =
     sbind (net_bind net (pb_bind b)) (\<lambda>listener.
     sbind (net_local_addr net listener) (\<lambda>local_addr.
       Inr \<lparr>ps_endpoint =
              (case pb_advertised b of Some e \<Rightarrow> e | None \<Rightarrow> ''http://'' @ net_display net local_addr),
            ps_local_addr = local_addr, ps_shutdown = True, ps_task = True,
            ps_log = []\<rparr>))"

section \<open>Stopping\<close>

datatype 't ServeError = ServeTransport 't | ServeJoin string

text \<open>\<open>if let Some(tx) = self.shutdown.take() { let _ = tx.send(()); }\<close>\<close>

definition fire_shutdown :: "'a PeerServer \<Rightarrow> 'a PeerServer" where
  "fire_shutdown s = (if ps_shutdown s then peer_note SignalSent (s\<lparr>ps_shutdown := False\<rparr>) else s)"

definition peer_drop :: "'a PeerServer \<Rightarrow> 'a PeerServer" where
  "peer_drop s =
     (let s1 = fire_shutdown s
      in if ps_task s1 then peer_note TaskAborted (s1\<lparr>ps_task := False\<rparr>) else s1)"

text \<open>\<open>outcome\<close> is what awaiting the task gives. The handle is dropped when \<open>shutdown\<close> returns.\<close>

definition serve_result :: "('t + unit) joined \<Rightarrow> 't ServeError + unit" where
  "serve_result outcome =
     (case outcome of
        Returned (Inr u) \<Rightarrow> Inr ()
      | Returned (Inl e) \<Rightarrow> Inl (ServeTransport e)
      | Cancelled \<Rightarrow> Inr ()
      | JoinPanic e \<Rightarrow> Inl (ServeJoin e))"

definition peer_shutdown :: "('t + unit) joined \<Rightarrow> 'a PeerServer \<Rightarrow> ('t ServeError + unit) \<times> 'a PeerServer" where
  "peer_shutdown outcome s =
     (let s1 = fire_shutdown s
      in if ps_task s1
         then let s2 = peer_note TaskAwaited (s1\<lparr>ps_task := False\<rparr>)
              in (serve_result outcome, peer_drop s2)
         else (Inr (), peer_drop s1))"

section \<open>Properties\<close>

text \<open>
  C40. A peer server gets one end of its life: \<open>shutdown\<close> first sends the signal, once, then awaits the task,
  which may take until the signal is sent, and never aborts it, although the handle is dropped
  afterwards; it reports exactly the failures of the task. Dropping the handle instead sends the
  signal once and then aborts the task, without awaiting it.
\<close>

theorem peer_stops_once:
  assumes "serve net b = Inr s"
  shows "(case peer_shutdown outcome s of (res, s') \<Rightarrow>
       ps_log s' = [SignalSent, TaskAwaited] \<and> ps_signals s' = 1 \<and> \<not> ps_aborted s'
       \<and> (res = Inr () \<longleftrightarrow> outcome = Returned (Inr ()) \<or> outcome = Cancelled)
       \<and> peer_drop s' = s')
    \<and> ps_log (peer_drop s) = [SignalSent, TaskAborted]
    \<and> ps_signals (peer_drop s) = 1 \<and> ps_aborted (peer_drop s) \<and> peer_drop (peer_drop s) = peer_drop s"
proof -
  have "ps_shutdown s" "ps_task s" "ps_log s = []"
    using assms by (auto simp: serve_def sbind_eq_Inr)
  then show ?thesis
    by (auto simp: peer_shutdown_def peer_drop_def fire_shutdown_def serve_result_def peer_note_def Let_def
        ps_signals_def ps_aborted_def split: joined.split sum.split)
qed

text \<open>
  The endpoint a server publishes is one that a peer's pool dials: with the default it is the bound
  address, and the pool dials exactly that text; an advertised endpoint without a scheme is
  dialled with \<open>http://\<close> put before it, and one with a scheme as it is.
\<close>

theorem published_endpoint_dialled:
  assumes "serve net b = Inr s"
  shows "pool_dial (pool_new T self) (Endpoint (ps_endpoint s)) =
     map_sum TransportSetup id
       (T (case pb_advertised b of
             None \<Rightarrow> ''http://'' @ net_display net (ps_local_addr s)
           | Some e \<Rightarrow> if take 7 e = ''http://'' \<or> take 8 e = ''https://'' then e else ''http://'' @ e))
    \<and> (endpoint_is_empty (Endpoint (ps_endpoint s)) \<longleftrightarrow> pb_advertised b = Some [])"
proof -
  obtain listener local_addr where "net_bind net (pb_bind b) = Inr listener"
      "net_local_addr net listener = Inr local_addr" and
    s: "ps_endpoint s = (case pb_advertised b of Some e \<Rightarrow> e | None \<Rightarrow> ''http://'' @ net_display net local_addr)"
      "ps_local_addr s = local_addr"
    using assms by (auto simp: serve_def sbind_eq_Inr)
  show ?thesis
    by (cases "pb_advertised b") (simp_all add: s pool_new_def pool_with_dial_def default_dial_def
        normalize_endpoint_def endpoint_is_empty_def)
qed

definition demo_net :: "(string, string) network" where
  "demo_net = \<lparr>net_bind = Inr, net_local_addr = Inr, net_display = (\<lambda>a. a)\<rparr>"

lemma demo_serve:
  "serve demo_net (peer_builder_new ''h:1'') =
     Inr \<lparr>ps_endpoint = ''http://h:1'', ps_local_addr = ''h:1'', ps_shutdown = True, ps_task = True,
          ps_log = []\<rparr>"
  by (simp add: serve_def demo_net_def peer_builder_new_def sbind_def)

theorem peer_stops_once_witness:
  "ps_aborted (peer_drop \<lparr>ps_endpoint = ''http://h:1'', ps_local_addr = ''h:1'', ps_shutdown = True,
     ps_task = True, ps_log = []\<rparr>)"
  using peer_stops_once [OF demo_serve, of "Cancelled :: (string + unit) joined"] by blast

theorem published_endpoint_dialled_witness:
  "pool_dial (pool_new Inr (InstanceId 1)) (Endpoint ''http://h:1'') = Inr ''http://h:1''"
  using published_endpoint_dialled [OF demo_serve, of "Inr :: string \<Rightarrow> string + string" "InstanceId 1"]
  by (simp add: demo_net_def peer_builder_new_def)

end
