(* ===== verification/HandoverModel.thy ===== *)
theory HandoverModel
  imports ConsumerTasks ProcessorModel
begin

text \<open>
  A stream and a processor as one system: the runs of \<open>run_grant\<close> work on the ownerships in the
  cells of the driver. \<open>nd_cells\<close> lists for each run the cell of its ownership; a run's copy of the
  ownership is kept equal to the cell. The dispatcher offers a grant at most once, so a cell is
  accepted at most once. The user's two signals \<open>load\<close> and \<open>unload\<close> are left to the processor:
  \<open>keeps_signals\<close> excludes other callers, and nothing else.
\<close>

section \<open>The system\<close>

record node =
  nd_driver :: driver
  nd_processor :: processor
  nd_cells :: "nat list"

definition share :: "driver \<Rightarrow> nat list \<Rightarrow> processor \<Rightarrow> processor" where
  "share d as p = p\<lparr>pr_runs := map2 (\<lambda>a r. r\<lparr>rn_own := gc_own (dr_cells d ! a)\<rparr>) as (pr_runs p)\<rparr>"

definition keeps_signals :: "driver \<Rightarrow> driver \<Rightarrow> bool" where
  "keeps_signals d d' \<longleftrightarrow>
     (\<forall>a < length (dr_cells d).
        ld_load (ow_loader (gc_own (dr_cells d' ! a))) = ld_load (ow_loader (gc_own (dr_cells d ! a)))
        \<and> ul_unload (ow_unloader (gc_own (dr_cells d' ! a))) = ul_unload (ow_unloader (gc_own (dr_cells d ! a))))"

text \<open>What a step of a run does to the shared ownership.\<close>

fun signal_effect :: "effect \<Rightarrow> nat \<Rightarrow> driver \<Rightarrow> driver" where
  "signal_effect CallLoad a d = on_cell a (on_own load) d"
| "signal_effect CallUnload a d = on_cell a (on_own unload) d"
| "signal_effect _ a d = d"

inductive node_step ::
  "consumer_env \<Rightarrow> (GrantId \<Rightarrow> Shard \<Rightarrow> Ownership \<Rightarrow> range option) \<Rightarrow> node \<Rightarrow> node \<Rightarrow> bool"
  for E :: consumer_env and factory :: "GrantId \<Rightarrow> Shard \<Rightarrow> Ownership \<Rightarrow> range option" where
  stream: "drv_step E (nd_driver n) d' \<Longrightarrow> keeps_signals (nd_driver n) d' \<Longrightarrow>
     node_step E factory n (n\<lparr>nd_driver := d', nd_processor := share d' (nd_cells n) (nd_processor n)\<rparr>)"
| init: "node_step E factory n (n\<lparr>nd_processor := processor_init (nd_processor n)\<rparr>)"
| accept: "a < length (dr_cells (nd_driver n)) \<Longrightarrow> a \<notin> set (nd_cells n) \<Longrightarrow>
     gid = GrantId (pbg_id (gc_pb (dr_cells (nd_driver n) ! a))) \<Longrightarrow>
     try_handle factory gid shard (gc_own (dr_cells (nd_driver n) ! a)) (nd_processor n) = Some (b, p') \<Longrightarrow>
     (\<And>g. factory gid shard (gc_own (dr_cells (nd_driver n) ! a)) = Some g \<Longrightarrow> range_fresh g) \<Longrightarrow>
     node_step E factory n (n\<lparr>nd_processor := p', nd_cells := (if b then nd_cells n @ [a] else nd_cells n)\<rparr>)"
| move: "i < length (pr_runs (nd_processor n)) \<Longrightarrow> mv \<in> set (moves now (pr_runs (nd_processor n) ! i)) \<Longrightarrow>
     node_step E factory n (n\<lparr>nd_driver := signal_effect (snd mv) (nd_cells n ! i) (nd_driver n),
       nd_processor := move_run i mv (nd_processor n)\<rparr>)"
| user_range: "i < length (pr_runs (nd_processor n)) \<Longrightarrow> r = pr_runs (nd_processor n) ! i \<Longrightarrow>
     node_step E factory n
       (n\<lparr>nd_processor := set_run i (r\<lparr>rn_range := range_apply x (rn_range r)\<rparr>) (nd_processor n)\<rparr>)"
| cancel: "i < length (pr_runs (nd_processor n)) \<Longrightarrow> r = pr_runs (nd_processor n) ! i \<Longrightarrow> at_await (rn_pc r) \<Longrightarrow>
     node_step E factory n (n\<lparr>nd_processor := set_run i (r\<lparr>rn_pc := Cleanup\<rparr>) (nd_processor n)\<rparr>)"

definition node_start :: "consumer_env \<Rightarrow> node \<Rightarrow> bool" where
  "node_start E n \<longleftrightarrow> drv_start E (nd_driver n) \<and> nd_processor n = processor_new \<and> nd_cells n = []"

section \<open>How a stream changes ownerships\<close>

text \<open>The ownership of a cell changes by operations of the driver, and new cells are fresh.\<close>

definition evolves :: "driver \<Rightarrow> driver \<Rightarrow> bool" where
  "evolves d d' \<longleftrightarrow>
     length (dr_cells d) \<le> length (dr_cells d')
     \<and> (\<forall>a < length (dr_cells d). gc_pb (dr_cells d' ! a) = gc_pb (dr_cells d ! a)
          \<and> (\<exists>ops. list_all driver_op ops \<and> gc_own (dr_cells d' ! a) = own_run ops (gc_own (dr_cells d ! a))))
     \<and> (\<forall>a. length (dr_cells d) \<le> a \<longrightarrow> a < length (dr_cells d') \<longrightarrow> own_fresh (gc_own (dr_cells d' ! a)))"

lemma evolvesI:
  assumes "length (dr_cells d) \<le> length (dr_cells d')"
    and "\<And>a. a < length (dr_cells d) \<Longrightarrow> gc_pb (dr_cells d' ! a) = gc_pb (dr_cells d ! a)"
    and "\<And>a. a < length (dr_cells d) \<Longrightarrow>
      \<exists>ops. list_all driver_op ops \<and> gc_own (dr_cells d' ! a) = own_run ops (gc_own (dr_cells d ! a))"
    and "\<And>a. length (dr_cells d) \<le> a \<Longrightarrow> a < length (dr_cells d') \<Longrightarrow> own_fresh (gc_own (dr_cells d' ! a))"
  shows "evolves d d'"
  using assms unfolding evolves_def by blast

lemma evolvesD:
  assumes "evolves d d'"
  shows "length (dr_cells d) \<le> length (dr_cells d')"
    and "a < length (dr_cells d) \<Longrightarrow> gc_pb (dr_cells d' ! a) = gc_pb (dr_cells d ! a)"
    and "a < length (dr_cells d) \<Longrightarrow>
      \<exists>ops. list_all driver_op ops \<and> gc_own (dr_cells d' ! a) = own_run ops (gc_own (dr_cells d ! a))"
    and "length (dr_cells d) \<le> a \<Longrightarrow> a < length (dr_cells d') \<Longrightarrow> own_fresh (gc_own (dr_cells d' ! a))"
  using assms unfolding evolves_def by blast+

lemma own_run_append: "own_run (xs @ ys) w = own_run ys (own_run xs w)"
  by (simp add: own_run_def)

lemma own_run_simps [simp]: "own_run [] w = w" "own_run [x] w = own_apply x w"
  by (simp_all add: own_run_def)

lemma own_fresh_run: "list_all driver_op ops \<Longrightarrow> own_fresh w \<Longrightarrow> own_fresh (own_run ops w)"
  by (induction ops arbitrary: w) (auto simp: own_run_def own_fresh_def driver_op_keeps)

lemma evolves_refl_cells: "dr_cells d' = dr_cells d \<Longrightarrow> evolves d d'"
  by (rule evolvesI) (auto intro: exI [of _ "[]"])

lemma evolves_trans:
  assumes "evolves d d'" and "evolves d' d''"
  shows "evolves d d''"
proof (rule evolvesI)
  show len: "length (dr_cells d) \<le> length (dr_cells d'')"
    using evolvesD(1) [OF assms(1)] evolvesD(1) [OF assms(2)] by simp
  fix a
  show "gc_pb (dr_cells d'' ! a) = gc_pb (dr_cells d ! a)" if "a < length (dr_cells d)"
    using that evolvesD(1,2) [OF assms(1)] evolvesD(2) [OF assms(2)] by simp
  show "\<exists>ops. list_all driver_op ops \<and> gc_own (dr_cells d'' ! a) = own_run ops (gc_own (dr_cells d ! a))"
    if a: "a < length (dr_cells d)"
  proof -
    obtain xs where "list_all driver_op xs" "gc_own (dr_cells d' ! a) = own_run xs (gc_own (dr_cells d ! a))"
      using evolvesD(3) [OF assms(1) a] by blast
    moreover obtain ys where "list_all driver_op ys" "gc_own (dr_cells d'' ! a) = own_run ys (gc_own (dr_cells d' ! a))"
      using evolvesD(3) [OF assms(2), of a] evolvesD(1) [OF assms(1)] a by auto
    ultimately show ?thesis by (intro exI [of _ "xs @ ys"]) (simp add: own_run_append)
  qed
  assume a: "length (dr_cells d) \<le> a" "a < length (dr_cells d'')"
  show "own_fresh (gc_own (dr_cells d'' ! a))"
  proof (cases "a < length (dr_cells d')")
    case True
    with evolvesD(3) [OF assms(2)] evolvesD(4) [OF assms(1) a(1)] own_fresh_run show ?thesis by metis
  next
    case False
    with evolvesD(4) [OF assms(2)] a(2) show ?thesis by simp
  qed
qed

text \<open>One operation on one cell.\<close>

lemma evolves_on_cell:
  assumes "\<And>c. gc_pb (f c) = gc_pb c" and "\<And>c. \<exists>ops. list_all driver_op ops \<and> gc_own (f c) = own_run ops (gc_own c)"
  shows "evolves d (on_cell a f d)"
proof (rule evolvesI)
  fix i assume "i < length (dr_cells d)"
  then show "gc_pb (dr_cells (on_cell a f d) ! i) = gc_pb (dr_cells d ! i)"
    and "\<exists>ops. list_all driver_op ops \<and> gc_own (dr_cells (on_cell a f d) ! i) = own_run ops (gc_own (dr_cells d ! i))"
    using assms(1) assms(2) [of "dr_cells d ! a"] by (auto simp: on_cell_nth intro: exI [of _ "[]"])
qed simp_all

lemma evolves_op: "driver_op x \<Longrightarrow> evolves d (on_cell a (on_own (own_apply x)) d)"
  by (rule evolves_on_cell) (auto intro: exI [of _ "[x]"])

lemma evolves_untouched: "(\<And>c. gc_pb (f c) = gc_pb c \<and> gc_own (f c) = gc_own c) \<Longrightarrow> evolves d (on_cell a f d)"
  by (rule evolves_on_cell) (auto intro: exI [of _ "[]"])

lemma evolves_driver_ops [simp]:
  "evolves d (on_cell a (on_own activate) d)" "evolves d (on_cell a (on_own revoke) d)"
  "evolves d (on_cell a (on_own expire) d)" "evolves d (on_cell a (on_own counterpart_loaded) d)"
  "evolves d (on_cell a (on_own counterpart_unloaded) d)" "evolves d (on_cell a (set_expiration_cell e) d)"
proof -
  show "evolves d (on_cell a (on_own activate) d)" "evolves d (on_cell a (on_own revoke) d)"
    "evolves d (on_cell a (on_own expire) d)" "evolves d (on_cell a (on_own counterpart_loaded) d)"
    "evolves d (on_cell a (on_own counterpart_unloaded) d)"
    using evolves_op [of own_op.Activate] evolves_op [of own_op.Revoke] evolves_op [of own_op.Expire]
      evolves_op [of own_op.CounterpartLoaded] evolves_op [of own_op.CounterpartUnloaded]
    by (simp_all add: driver_op_def own_apply_fun)
  show "evolves d (on_cell a (set_expiration_cell e) d)"
    by (rule evolves_on_cell) (auto simp: driver_op_def intro!: exI [of _ "[own_op.SetExpiration e]"])
qed

end
