(* ===== verification/HandoverLaws.thy ===== *)
theory HandoverLaws
  imports HandoverModel ProcessorLaws
begin

text \<open>
  Every step of the composed system is a sequence of steps of the processor and at most one step of
  the stream, so what is proved of each holds of both together; and what the coordinator is told
  about a grant is true of the range that serves it.
\<close>

section \<open>The stream's steps\<close>

lemma evolves_updates [simp]:
  "evolves d (d'\<lparr>dr_pc := c\<rparr>) \<longleftrightarrow> evolves d d'" "evolves d (d'\<lparr>dr_cluster := cm\<rparr>) \<longleftrightarrow> evolves d d'"
  "evolves d (d'\<lparr>dr_heartbeat := h\<rparr>) \<longleftrightarrow> evolves d d'" "evolves d (d'\<lparr>dr_closed := l\<rparr>) \<longleftrightarrow> evolves d d'"
  "evolves d (d'\<lparr>dr_shutdown := l\<rparr>) \<longleftrightarrow> evolves d d'" "evolves d (d'\<lparr>dr_out_open := b\<rparr>) \<longleftrightarrow> evolves d d'"
  "evolves d (d'\<lparr>dr_taken := n\<rparr>) \<longleftrightarrow> evolves d d'"
  "evolves d (d'\<lparr>dr_cluster_rx := b\<rparr>) \<longleftrightarrow> evolves d d'" "evolves d (d'\<lparr>dr_grants := m\<rparr>) \<longleftrightarrow> evolves d d'"
  "evolves d (d'\<lparr>dr_outbound := out\<rparr>) \<longleftrightarrow> evolves d d'" "evolves d (emit e d') \<longleftrightarrow> evolves d d'"
  "evolves d (snd (send_out msg d')) \<longleftrightarrow> evolves d d'"
  by (simp_all add: evolves_def)

lemma evolves_refl [simp]: "evolves d d"
  by (rule evolves_refl_cells) simp

lemma evolves_activate: "evolves d d' \<Longrightarrow> evolves d (on_cell a (on_own activate) d')"
  and evolves_revoke: "evolves d d' \<Longrightarrow> evolves d (on_cell a (on_own revoke) d')"
  and evolves_expire: "evolves d d' \<Longrightarrow> evolves d (on_cell a (on_own expire) d')"
  and evolves_counterpart_loaded: "evolves d d' \<Longrightarrow> evolves d (on_cell a (on_own counterpart_loaded) d')"
  and evolves_counterpart_unloaded: "evolves d d' \<Longrightarrow> evolves d (on_cell a (on_own counterpart_unloaded) d')"
  and evolves_expiration: "evolves d d' \<Longrightarrow> evolves d (on_cell a (set_expiration_cell e) d')"
  by (erule evolves_trans, simp)+

lemma evolves_cell: "evolves d d' \<Longrightarrow> (\<And>c. gc_pb (f c) = gc_pb c \<and> gc_own (f c) = gc_own c) \<Longrightarrow>
    evolves d (on_cell a f d')"
  by (erule evolves_trans) (rule evolves_untouched)

lemmas evolves_intros =
  evolves_activate evolves_revoke evolves_expire evolves_counterpart_loaded
  evolves_counterpart_unloaded evolves_expiration evolves_cell

lemma evolves_remove_grant: "evolves d d' \<Longrightarrow> evolves d (remove_grant gid d')"
  by (auto simp: remove_grant_def Let_def intro!: evolves_intros split: option.split)

lemma evolves_add_grant:
  assumes "evolves d d'" and "own_fresh w"
  shows "evolves d (add_grant gid shard g w rvk d')"
proof (rule evolves_trans [OF assms(1)])
  show "evolves d' (add_grant gid shard g w rvk d')"
    by (rule evolvesI)
      (auto simp: add_grant_def nth_append cell_new_def assms(2) intro: exI [of _ "[]"])
qed

lemma own_fresh_new: "own_fresh (ownership_new st e now)"
  by (cases st) (simp_all add: own_fresh_def ownership_new_def loader_new_def unloader_new_def Let_def)

lemma evolves_handlers:
  assumes "evolves d d'"
  shows "evolves d (snd (on_assign now g d'))" "evolves d (snd (on_promote g d'))"
    "evolves d (snd (on_revoke g d'))" "evolves d (on_notify n d')" "evolves d (snd (on_extend E e d'))"
proof -
  show "evolves d (snd (on_assign now g d'))"
    using assms by (cases rule: on_assign_cases [of now g d'])
      (simp_all add: evolves_add_grant evolves_remove_grant own_fresh_new)
  show "evolves d (snd (on_promote g d'))"
    using assms by (auto simp: on_promote_def Let_def intro!: evolves_intros split: option.split)
  show "evolves d (snd (on_revoke g d'))"
    using assms by (auto simp: on_revoke_def Let_def intro!: evolves_intros split: option.split sum.split)
  show "evolves d (on_notify n d')"
    using assms by (auto simp: on_notify_def intro!: evolves_intros split: option.split GrantState.split)
  have "evolves d d' \<Longrightarrow> evolves d (fold (extend_one l) gids d')" for l gids d'
    by (induction gids arbitrary: d') (auto simp: extend_one_def intro!: evolves_intros split: option.split)
  then show "evolves d (snd (on_extend E e d'))"
    using assms by (simp add: on_extend_def split: option.split sum.split)
qed

lemma evolves_handle_inbound: "evolves d (snd (handle_inbound E now msg d))"
  by (rule handle_inbound_keeps [where P = "evolves d"]) (simp_all add: evolves_handlers)

lemma evolves_break_loop: "evolves d d' \<Longrightarrow> evolves d (break_loop E r d')"
proof -
  have "evolves d d' \<Longrightarrow> evolves d (fold remove_grant gids d')" for gids d'
    by (induction gids arbitrary: d') (auto intro: evolves_remove_grant)
  then show "evolves d d' \<Longrightarrow> evolves d (break_loop E r d')" by (simp add: break_loop_def clean_up_def Let_def)
qed

lemma evolves_inbound_branch: "evolves d (inbound_branch E now i d)"
proof (cases i)
  case (Item msg)
  obtain r q where h: "handle_inbound E now msg d = (r, q)" by force
  then have "evolves d q" using evolves_handle_inbound [of d E now msg] by simp
  then show ?thesis by (auto simp: inbound_branch_def Item h split: sum.split fault.split option.split)
qed (simp_all add: inbound_branch_def evolves_break_loop)

text \<open>The user's operation leaves the cell as it is, unless it is a request for revocation.\<close>

lemma user_kept_signals:
  assumes "user_op x" and "ld_load (ow_loader (own_apply x w)) = ld_load (ow_loader w)"
    and "ul_unload (ow_unloader (own_apply x w)) = ul_unload (ow_unloader w)"
  shows "\<exists>ops. list_all driver_op ops \<and> own_apply x w = own_run ops w"
proof (cases "x = own_op.RequestRevoke")
  case True
  then show ?thesis by (intro exI [of _ "[x]"]) (simp add: driver_op_def)
next
  case False
  then have "own_apply x w = w" using assms by (auto simp: user_op_def own_op_defs)
  then show ?thesis by (intro exI [of _ "[]"]) simp
qed

lemma driver_step_evolves:
  assumes "drv_step E d d'" and "keeps_signals d d'"
  shows "evolves d d'"
  using assms(1)
proof cases
  case (user a x)
  have pb: "gc_pb (on_own (own_apply x) c) = gc_pb c" for c by simp
  show ?thesis
  proof (rule evolvesI)
    fix i assume i: "i < length (dr_cells d)"
    show "gc_pb (dr_cells d' ! i) = gc_pb (dr_cells d ! i)" using i by (simp add: user on_cell_nth)
    show "\<exists>ops. list_all driver_op ops \<and> gc_own (dr_cells d' ! i) = own_run ops (gc_own (dr_cells d ! i))"
    proof (cases "i = a")
      case True
      then have own: "gc_own (dr_cells d' ! i) = own_apply x (gc_own (dr_cells d ! i))"
        using i by (simp add: user(1) on_cell_nth)
      show ?thesis
        using assms(2) [unfolded keeps_signals_def, rule_format, OF i]
        by (simp add: own user_kept_signals [OF user(3)])
    next
      case False
      then show ?thesis using i by (intro exI [of _ "[]"]) (simp add: user(1) on_cell_nth)
    qed
  qed (simp_all add: user(1))
next
  case leave
  then show ?thesis by (simp add: leave_branch_def)
next
  case part
  then show ?thesis by (simp add: part_branch_def evolves_break_loop)
next
  case (beat now)
  then show ?thesis by (auto simp: heartbeat_branch_def send_out_def intro: evolves_break_loop)
next
  case (inbound b now i)
  then show ?thesis by (simp add: evolves_inbound_branch)
next
  case (send a k)
  then show ?thesis by (auto simp: watcher_send_def intro!: evolves_cell)
next
  case (tick a t now)
  have "evolves d (on_cell a (timer_step t) d)"
  proof (rule evolves_on_cell)
    show "\<exists>ops. list_all driver_op ops \<and> gc_own (timer_step t c) = own_run ops (gc_own c)" for c
      by (cases "gc_timer c = TFire")
        (auto simp: timer_step_def driver_op_def split: timer.split
          intro: exI [of _ "[own_op.Expire]"] exI [of _ "[]"])
  qed (auto simp: timer_step_def split: timer.split)
  then show ?thesis using tick by simp
qed (auto simp: select_enter_def intro!: evolves_cell)

section \<open>The processor's view\<close>

text \<open>Operations of the driver on the ownership of one run, then of all runs.\<close>

lemma set_run_ops:
  assumes "i < length (pr_runs p)" and "list_all driver_op ops"
  shows "proc_step\<^sup>*\<^sup>* p (set_run i ((pr_runs p ! i)\<lparr>rn_own := own_run ops (rn_own (pr_runs p ! i))\<rparr>) p)"
  using assms
proof (induction ops arbitrary: p)
  case Nil
  then show ?case by (simp add: set_run_def)
next
  case (Cons x ops)
  let ?q = "set_run i ((pr_runs p ! i)\<lparr>rn_own := own_apply x (rn_own (pr_runs p ! i))\<rparr>) p"
  have "proc_step p ?q" using Cons.prems by (intro proc_step.driver) simp_all
  moreover have "proc_step\<^sup>*\<^sup>* ?q (set_run i ((pr_runs ?q ! i)\<lparr>rn_own := own_run ops (rn_own (pr_runs ?q ! i))\<rparr>) ?q)"
    using Cons by (intro Cons.IH) (simp_all add: set_run_def)
  ultimately show ?case
    using Cons.prems(1) by (auto simp: set_run_def own_run_def intro: converse_rtranclp_into_rtranclp)
qed

definition shared_run :: "driver \<Rightarrow> nat list \<Rightarrow> processor \<Rightarrow> nat \<Rightarrow> run" where
  "shared_run d as p i = (pr_runs p ! i)\<lparr>rn_own := gc_own (dr_cells d ! (as ! i))\<rparr>"

lemma share_runs:
  assumes "length as = length (pr_runs p)"
  shows "pr_runs (share d as p) = map (shared_run d as p) [0..<length (pr_runs p)]"
  using assms by (intro nth_equalityI) (simp_all add: share_def shared_run_def)

lemma share_same [simp]: "pr_grants (share d as p) = pr_grants p" "pr_initialized (share d as p) = pr_initialized p"
  by (simp_all add: share_def)

lemma share_steps:
  assumes len: "length as = length (pr_runs p)"
    and ops: "\<And>i. i < length (pr_runs p) \<Longrightarrow>
      \<exists>ops. list_all driver_op ops \<and> gc_own (dr_cells d ! (as ! i)) = own_run ops (rn_own (pr_runs p ! i))"
  shows "proc_step\<^sup>*\<^sup>* p (share d as p)"
proof -
  let ?upto = "\<lambda>n. p\<lparr>pr_runs := map (shared_run d as p) [0..<n] @ drop n (pr_runs p)\<rparr>"
  have "n \<le> length (pr_runs p) \<Longrightarrow> proc_step\<^sup>*\<^sup>* p (?upto n)" for n
  proof (induction n)
    case 0
    then show ?case by simp
  next
    case (Suc n)
    then have n: "n < length (pr_runs p)" by simp
    have old: "pr_runs (?upto n) ! n = pr_runs p ! n" using n by (simp add: nth_append)
    obtain xs where "list_all driver_op xs" "gc_own (dr_cells d ! (as ! n)) = own_run xs (rn_own (pr_runs p ! n))"
      using ops [OF n] by blast
    then have "proc_step\<^sup>*\<^sup>* (?upto n) (set_run n (shared_run d as p n) (?upto n))"
      using set_run_ops [of n "?upto n" xs] n by (simp add: old shared_run_def nth_append)
    moreover have "set_run n (shared_run d as p n) (?upto n) = ?upto (Suc n)"
      using n by (simp add: set_run_def list_update_append Cons_nth_drop_Suc [symmetric])
    ultimately show ?case using Suc by (auto intro: rtranclp_trans)
  qed
  from this [of "length (pr_runs p)"] have "proc_step\<^sup>*\<^sup>* p (?upto (length (pr_runs p)))" by simp
  moreover have "?upto (length (pr_runs p)) = share d as p"
    using share_runs [OF len, of d] by (simp add: share_def)
  ultimately show ?thesis by simp
qed

section \<open>Invariant of the node\<close>

text \<open>Each run works on the ownership of a cell of its own; other cells have not been signalled.\<close>

definition node_link :: "node \<Rightarrow> bool" where
  "node_link n \<longleftrightarrow>
     length (nd_cells n) = length (pr_runs (nd_processor n)) \<and> distinct (nd_cells n)
     \<and> (\<forall>i < length (pr_runs (nd_processor n)). nd_cells n ! i < length (dr_cells (nd_driver n))
          \<and> rn_own (pr_runs (nd_processor n) ! i) = gc_own (dr_cells (nd_driver n) ! (nd_cells n ! i))
          \<and> rn_id (pr_runs (nd_processor n) ! i) = GrantId (pbg_id (gc_pb (dr_cells (nd_driver n) ! (nd_cells n ! i)))))
     \<and> (\<forall>a < length (dr_cells (nd_driver n)). a \<notin> set (nd_cells n) \<longrightarrow> own_fresh (gc_own (dr_cells (nd_driver n) ! a)))"

lemma node_linkD:
  assumes "node_link n"
  shows "length (nd_cells n) = length (pr_runs (nd_processor n))" and "distinct (nd_cells n)"
    and "i < length (pr_runs (nd_processor n)) \<Longrightarrow> nd_cells n ! i < length (dr_cells (nd_driver n))"
    and "i < length (pr_runs (nd_processor n)) \<Longrightarrow>
      rn_own (pr_runs (nd_processor n) ! i) = gc_own (dr_cells (nd_driver n) ! (nd_cells n ! i))"
    and "i < length (pr_runs (nd_processor n)) \<Longrightarrow>
      rn_id (pr_runs (nd_processor n) ! i) = GrantId (pbg_id (gc_pb (dr_cells (nd_driver n) ! (nd_cells n ! i))))"
    and "a < length (dr_cells (nd_driver n)) \<Longrightarrow> a \<notin> set (nd_cells n) \<Longrightarrow>
      own_fresh (gc_own (dr_cells (nd_driver n) ! a))"
  using assms unfolding node_link_def by blast+

definition node_inv :: "consumer_env \<Rightarrow> node \<Rightarrow> bool" where
  "node_inv E n \<longleftrightarrow> reach (drv_start E) (drv_step E) (nd_driver n)
     \<and> reach proc_start proc_step (nd_processor n) \<and> node_link n"

lemma node_invI:
  assumes "reach (drv_start E) (drv_step E) (nd_driver n)" and "reach proc_start proc_step (nd_processor n)"
    and "node_link n"
  shows "node_inv E n"
  using assms by (simp add: node_inv_def)

text \<open>A run is replaced by one with the same ownership.\<close>

lemma node_link_set_run:
  assumes "node_link n" and "rn_own r' = rn_own (pr_runs (nd_processor n) ! i)"
    and "rn_id r' = rn_id (pr_runs (nd_processor n) ! i)"
    and "pr_runs p' = (pr_runs (nd_processor n))[i := r']"
  shows "node_link (n\<lparr>nd_processor := p'\<rparr>)"
proof -
  have "rn_own (pr_runs p' ! j) = rn_own (pr_runs (nd_processor n) ! j)
      \<and> rn_id (pr_runs p' ! j) = rn_id (pr_runs (nd_processor n) ! j)"
    if "j < length (pr_runs (nd_processor n))" for j
    using that assms(2,3) by (cases "j = i") (simp_all add: assms(4))
  then show ?thesis using assms(1) by (simp add: node_link_def assms(4))
qed

lemma node_link_stream:
  assumes link: "node_link n" and ev: "evolves (nd_driver n) d'"
  shows "node_link (n\<lparr>nd_driver := d', nd_processor := share d' (nd_cells n) (nd_processor n)\<rparr>)"
proof -
  have runs: "pr_runs (share d' (nd_cells n) (nd_processor n)) =
      map (shared_run d' (nd_cells n) (nd_processor n)) [0..<length (pr_runs (nd_processor n))]"
    by (rule share_runs [OF node_linkD(1) [OF link]])
  have cell: "nd_cells n ! i < length (dr_cells d')"
      "gc_pb (dr_cells d' ! (nd_cells n ! i)) = gc_pb (dr_cells (nd_driver n) ! (nd_cells n ! i))"
    if "i < length (pr_runs (nd_processor n))" for i
    using evolvesD(1,2) [OF ev] node_linkD(3) [OF link that] by auto
  have "own_fresh (gc_own (dr_cells d' ! a))" if "a < length (dr_cells d')" "a \<notin> set (nd_cells n)" for a
  proof (cases "a < length (dr_cells (nd_driver n))")
    case True
    then obtain ops where "list_all driver_op ops"
        "gc_own (dr_cells d' ! a) = own_run ops (gc_own (dr_cells (nd_driver n) ! a))"
      using evolvesD(3) [OF ev] by blast
    with node_linkD(6) [OF link True that(2)] show ?thesis by (simp add: own_fresh_run)
  next
    case False
    with evolvesD(4) [OF ev] that(1) show ?thesis by simp
  qed
  with node_linkD(1,2,5) [OF link] cell show ?thesis
    by (simp add: node_link_def runs shared_run_def)
qed

lemma stream_runs:
  assumes link: "node_link n" and ev: "evolves (nd_driver n) d'"
  shows "proc_step\<^sup>*\<^sup>* (nd_processor n) (share d' (nd_cells n) (nd_processor n))"
  using node_linkD(3,4) [OF link] evolvesD(3) [OF ev]
  by (intro share_steps node_linkD(1) [OF link]) simp

text \<open>A step of a run reaches the cell of its ownership.\<close>

lemma node_link_move:
  assumes link: "node_link n" and i: "i < length (pr_runs (nd_processor n))"
  shows "node_link (n\<lparr>nd_driver := signal_effect e (nd_cells n ! i) (nd_driver n),
    nd_processor := move_run i (c, e) (nd_processor n)\<rparr>)"
proof -
  have runs: "pr_runs (move_run i (c, e) (nd_processor n)) =
      (pr_runs (nd_processor n))[i := (effect_on_run e (pr_runs (nd_processor n) ! i))\<lparr>rn_pc := c\<rparr>]"
    by (simp add: move_run_def Let_def)
  let ?d = "signal_effect e (nd_cells n ! i) (nd_driver n)"
  have len: "length (dr_cells ?d) = length (dr_cells (nd_driver n))" by (cases e) simp_all
  have pb: "gc_pb (dr_cells ?d ! a) = gc_pb (dr_cells (nd_driver n) ! a)"
    and other: "a \<noteq> nd_cells n ! i \<Longrightarrow> gc_own (dr_cells ?d ! a) = gc_own (dr_cells (nd_driver n) ! a)"
    if "a < length (dr_cells (nd_driver n))" for a
    using that by (cases e; simp add: on_cell_nth)+
  have own: "gc_own (dr_cells ?d ! (nd_cells n ! i)) = rn_own (effect_on_run e (pr_runs (nd_processor n) ! i))"
    using node_linkD(3,4) [OF link i] by (cases e) (simp_all add: on_cell_nth)
  have "nd_cells n ! j \<noteq> nd_cells n ! i" if "j < length (pr_runs (nd_processor n))" "j \<noteq> i" for j
    using that i node_linkD(1,2) [OF link] by (simp add: nth_eq_iff_index_eq)
  moreover have "own_fresh (gc_own (dr_cells ?d ! a))"
    if "a < length (dr_cells (nd_driver n))" "a \<notin> set (nd_cells n)" for a
  proof -
    have "nd_cells n ! i \<in> set (nd_cells n)" using i node_linkD(1) [OF link] by simp
    then have "a \<noteq> nd_cells n ! i" using that(2) by blast
    with node_linkD(6) [OF link that] show ?thesis by (simp add: other [OF that(1)])
  qed
  ultimately show ?thesis
    using node_linkD(1-5) [OF link] i pb other own
    by (simp add: node_link_def runs len nth_list_update)
qed

lemma own_on_load: "own_apply own_op.Load = load" "own_apply own_op.Unload = unload"
  by (simp_all add: fun_eq_iff)

lemma signal_effect_step:
  "a < length (dr_cells d) \<Longrightarrow> (drv_step E)\<^sup>*\<^sup>* d (signal_effect e a d)"
proof (induction e)
  case CallLoad
  have "drv_step E d (on_cell a (on_own (own_apply own_op.Load)) d)"
    using CallLoad by (intro drv_step.user) (simp_all add: user_op_def)
  then show ?case by (simp add: own_on_load r_into_rtranclp)
next
  case CallUnload
  have "drv_step E d (on_cell a (on_own (own_apply own_op.Unload)) d)"
    using CallUnload by (intro drv_step.user) (simp_all add: user_op_def)
  then show ?case by (simp add: own_on_load r_into_rtranclp)
qed simp_all

lemma node_inv_start: "node_start E n \<Longrightarrow> node_inv E n"
proof (rule node_invI)
  assume start: "node_start E n"
  then have "drv_start E (nd_driver n)" and "proc_start (nd_processor n)"
    by (simp_all add: node_start_def proc_start_def)
  then show "reach (drv_start E) (drv_step E) (nd_driver n)" and "reach proc_start proc_step (nd_processor n)"
    by (blast intro: reach_start)+
  show "node_link n"
    using start by (auto simp: node_start_def node_link_def processor_new_def drv_start_def join_def driver_new_def)
qed

lemma accept_runs:
  assumes "try_handle factory gid shard w p = Some (b, p')"
  obtains (rejected) "\<not> b" "p' = p"
  | (accepted) g where "b" "factory gid shard w = Some g" "p' = p\<lparr>pr_runs := pr_runs p @ [run_new gid shard w g]\<rparr>"
  using assms by (auto simp: try_handle_def split: if_splits option.splits)

lemma node_inv_set_run:
  assumes inv: "node_inv E n" and step: "proc_step (nd_processor n) (set_run i r' (nd_processor n))"
    and "rn_own r' = rn_own (pr_runs (nd_processor n) ! i)" and "rn_id r' = rn_id (pr_runs (nd_processor n) ! i)"
  shows "node_inv E (n\<lparr>nd_processor := set_run i r' (nd_processor n)\<rparr>)"
proof (rule node_invI)
  have link: "node_link n" and p: "reach proc_start proc_step (nd_processor n)" using inv by (simp_all add: node_inv_def)
  show "node_link (n\<lparr>nd_processor := set_run i r' (nd_processor n)\<rparr>)"
    by (rule node_link_set_run [OF link assms(3,4)]) (simp add: set_run_def)
  show "reach proc_start proc_step (nd_processor (n\<lparr>nd_processor := set_run i r' (nd_processor n)\<rparr>))"
    using reach_step [OF p step] by simp
qed (use inv in \<open>simp add: node_inv_def\<close>)

lemma node_inv_step:
  assumes inv: "node_inv E n" and "node_step E factory n n'"
  shows "node_inv E n'"
proof -
  have d: "reach (drv_start E) (drv_step E) (nd_driver n)" and p: "reach proc_start proc_step (nd_processor n)"
    and link: "node_link n"
    using inv by (simp_all add: node_inv_def)
  from assms(2) show ?thesis
  proof cases
    case (stream d')
    have ev: "evolves (nd_driver n) d'" by (rule driver_step_evolves [OF stream(2,3)])
    show ?thesis
      unfolding stream(1)
      by (rule node_invI)
        (simp_all add: reach_step [OF d stream(2)] reach_steps [OF stream_runs [OF link ev] p] node_link_stream [OF link ev])
  next
    case init
    have "node_link (n\<lparr>nd_processor := processor_init (nd_processor n)\<rparr>)"
      using link by (simp add: node_link_def processor_init_def)
    then show ?thesis
      unfolding init by (intro node_invI) (simp_all add: d reach_step [OF p proc_step.init])
  next
    case (accept a gid shard b p')
    have "proc_step (nd_processor n) p'"
      by (rule proc_step.accept [OF accept(5) node_linkD(6) [OF link accept(2,3)] accept(6)])
    then have q: "reach proc_start proc_step p'" by (rule reach_step [OF p])
    from accept(5) show ?thesis
    proof (cases rule: accept_runs)
      case rejected
      then show ?thesis using inv by (simp add: accept(1))
    next
      case (accepted g)
      have "node_link n'"
        using node_linkD [OF link] accept(2-4)
        by (simp add: node_link_def accept(1) accepted run_new_def nth_append less_Suc_eq)
      then show ?thesis
        by (intro node_invI) (simp_all add: accept(1) d q)
    qed
  next
    case (move i mv now)
    obtain c e where mv: "mv = (c, e)" by force
    have "(drv_step E)\<^sup>*\<^sup>* (nd_driver n) (signal_effect e (nd_cells n ! i) (nd_driver n))"
      by (rule signal_effect_step [OF node_linkD(3) [OF link move(2)]])
    then have "reach (drv_start E) (drv_step E) (signal_effect e (nd_cells n ! i) (nd_driver n))"
      by (rule reach_steps [OF _ d])
    then show ?thesis
      unfolding move(1)
      by (intro node_invI)
        (simp_all add: mv reach_step [OF p proc_step.move [OF move(2,3) [unfolded mv]]] node_link_move [OF link move(2)])
  next
    case (user_range i r x)
    show ?thesis
      unfolding user_range(1)
      by (rule node_inv_set_run [OF inv proc_step.user_range [OF user_range(2,3)]]) (simp_all add: user_range(3))
  next
    case (cancel i r)
    show ?thesis
      unfolding cancel(1)
      by (rule node_inv_set_run [OF inv proc_step.cancel [OF cancel(2,3,4)]]) (simp_all add: cancel(3))
  qed
qed

interpretation node_system: invariant_system "node_start E" "node_step E factory" "node_inv E" for E factory
  by unfold_locales (rule node_inv_start, assumption, rule node_inv_step)

section \<open>Properties\<close>

text \<open>
  C6. The composed system refines its parts: whatever a stream and a processor do together, the stream is
  in a state that it reaches with some user, the processor in one that it reaches with some driver,
  and every run reads and signals the ownership of a cell of its own, of a grant with the run's id.
\<close>

theorem node_refines_parts:
  assumes "reach (node_start E) (node_step E factory) n"
  shows "reach (drv_start E) (drv_step E) (nd_driver n) \<and> reach proc_start proc_step (nd_processor n)
    \<and> length (nd_cells n) = length (pr_runs (nd_processor n)) \<and> distinct (nd_cells n)
    \<and> (\<forall>i < length (nd_cells n). nd_cells n ! i < length (dr_cells (nd_driver n))
         \<and> rn_own (pr_runs (nd_processor n) ! i) = gc_own (dr_cells (nd_driver n) ! (nd_cells n ! i))
         \<and> rn_id (pr_runs (nd_processor n) ! i) = GrantId (pbg_id (gc_pb (dr_cells (nd_driver n) ! (nd_cells n ! i)))))"
proof -
  have "node_inv E n" by (rule node_system.reach_inv [OF assms])
  then show ?thesis using node_linkD(1-5) [of n] by (simp add: node_inv_def)
qed

lemma signalled_run:
  assumes inv: "node_inv E n" and "signal_message k g \<in> set (dr_outbound (nd_driver n))" and "k \<noteq> RevokeSignal"
  obtains r where "r \<in> set (pr_runs (nd_processor n))" "rn_id r = GrantId (pbg_id g)"
    "is_closed (signal_latch k (rn_own r))" "run_inv r"
proof -
  let ?d = "nd_driver n" and ?p = "nd_processor n"
  have link: "node_link n" and d: "reach (drv_start E) (drv_step E) ?d" and p: "reach proc_start proc_step ?p"
    using inv by (simp_all add: node_inv_def)
  have "0 < count_list (dr_outbound ?d) (signal_message k g)"
    using assms(2) by (simp add: count_list_0_iff gr0_conv_Suc [symmetric] neq0_conv [symmetric] del: neq0_conv)
  also have "\<dots> \<le> card (reported k g ?d)" by (rule watch_invD(1) [OF watcher_system.reach_inv [OF d]])
  finally obtain a where a: "a \<in> reported k g ?d" by (auto simp: card_gt_0_iff)
  then have sig: "a < length (dr_cells ?d)" "is_closed (signal_latch k (gc_own (dr_cells ?d ! a)))"
    "signal_message k (gc_pb (dr_cells ?d ! a)) = signal_message k g"
    by (simp_all add: reported_def)
  then have "\<not> own_fresh (gc_own (dr_cells ?d ! a))" using assms(3) by (cases k) (auto simp: own_fresh_def)
  then have "a \<in> set (nd_cells n)" using node_linkD(6) [OF link sig(1)] by blast
  then obtain i where i: "i < length (pr_runs ?p)" "nd_cells n ! i = a"
    using node_linkD(1) [OF link] by (metis in_set_conv_nth)
  have "pbg_id (gc_pb (dr_cells ?d ! a)) = pbg_id g"
    using sig(3) assms(3) by (cases k) (auto simp: update_message_def wrap_client_def dest: arg_cong [where f = pbg_id])
  then show ?thesis
    using that [of "pr_runs ?p ! i"] i sig(2) node_linkD(4,5) [OF link i(1)]
      proc_invD(1) [OF processor_reach_inv [OF p] i(1)]
    by simp
qed

text \<open>
  C3. What the coordinator is told is true of the range: once an \<open>Update\<close> to loaded is sent for a grant,
  some run of that grant has an initialised range and may serve it, for the grant is active or its
  counterpart has unloaded; once an \<open>Update\<close> to unloaded is sent, the range of some run of that
  grant was loaded, the grant activated and revoked, and the range's drain has completed.
\<close>

theorem updates_report_truth:
  assumes "reach (node_start E) (node_step E factory) n"
  shows "(update_message g pb_GrantState.AllocatedLoaded \<in> set (dr_outbound (nd_driver n)) \<longrightarrow>
      (\<exists>r \<in> set (pr_runs (nd_processor n)). rn_id r = GrantId (pbg_id g) \<and> is_closed (rg_initialized (rn_range r))
         \<and> (is_closed (ow_active (rn_own r)) \<or> is_closed (ld_unloaded (ow_loader (rn_own r))))))
    \<and> (update_message g pb_GrantState.RevokedUnloaded \<in> set (dr_outbound (nd_driver n)) \<longrightarrow>
      (\<exists>r \<in> set (pr_runs (nd_processor n)). rn_id r = GrantId (pbg_id g) \<and> is_closed (rg_initialized (rn_range r))
         \<and> is_closed (ow_active (rn_own r)) \<and> is_closed (ow_revoked (rn_own r))
         \<and> rg_drain_calls (rn_range r) \<noteq> [] \<and> is_closed (rg_drained (rn_range r))))"
proof (intro conjI impI)
  have inv: "node_inv E n" by (rule node_system.reach_inv [OF assms])
  show "\<exists>r \<in> set (pr_runs (nd_processor n)). rn_id r = GrantId (pbg_id g) \<and> is_closed (rg_initialized (rn_range r))
      \<and> (is_closed (ow_active (rn_own r)) \<or> is_closed (ld_unloaded (ow_loader (rn_own r))))"
    if "update_message g pb_GrantState.AllocatedLoaded \<in> set (dr_outbound (nd_driver n))"
    using signalled_run [OF inv, of LoadSignal g] that
    by (auto simp: run_inv_def signals_ok_def)
  show "\<exists>r \<in> set (pr_runs (nd_processor n)). rn_id r = GrantId (pbg_id g) \<and> is_closed (rg_initialized (rn_range r))
      \<and> is_closed (ow_active (rn_own r)) \<and> is_closed (ow_revoked (rn_own r))
      \<and> rg_drain_calls (rn_range r) \<noteq> [] \<and> is_closed (rg_drained (rn_range r))"
    if "update_message g pb_GrantState.RevokedUnloaded \<in> set (dr_outbound (nd_driver n))"
    using signalled_run [OF inv, of UnloadSignal g] that
    by (auto simp: run_inv_def signals_ok_def)
qed

end
