(* ===== verification/FleetModel.thy ===== *)
theory FleetModel
  imports HandoverLaws
begin

text \<open>
  Several consumers of one service. What they know of each other's grants comes from the coordinator,
  which is not part of the repository: it relays the \<open>Update\<close> of a grant as a \<open>Notify\<close> to the
  consumer of the counterpart, the grant of the same shard at the other end of a hand-over
  (\<open>model.proto\<close>: an allocated grant matches a revoked one). The parameter \<open>counterpart\<close> says which
  grants match; that a relayed update was really sent is the only thing asked of the coordinator,
  apart from that it may send anything at any time.
\<close>

section \<open>Counterpart signals\<close>

text \<open>The latches of an ownership that speak about the counterpart.\<close>

definition counterpart_kept :: "driver \<Rightarrow> driver \<Rightarrow> bool" where
  "counterpart_kept d d' \<longleftrightarrow>
     (\<forall>a < length (dr_cells d').
        (is_closed (ld_unloaded (ow_loader (gc_own (dr_cells d' ! a)))) \<longrightarrow>
           a < length (dr_cells d) \<and> is_closed (ld_unloaded (ow_loader (gc_own (dr_cells d ! a)))))
        \<and> (is_closed (ul_loaded (ow_unloader (gc_own (dr_cells d' ! a)))) \<longrightarrow>
           a < length (dr_cells d) \<and> is_closed (ul_loaded (ow_unloader (gc_own (dr_cells d ! a))))))"

text \<open>The notification in a message of the coordinator.\<close>

definition notification :: "pb_JoinMessage \<Rightarrow> pb_Notify option" where
  "notification msg =
     (case jm_msg msg of
        Some (Consumer c) \<Rightarrow>
          (case com_msg c of
             Some (Client m) \<Rightarrow> (case clm_msg m of Some (Notify n) \<Rightarrow> Some n | _ \<Rightarrow> None)
           | _ \<Rightarrow> None)
      | _ \<Rightarrow> None)"

section \<open>The fleet\<close>

type_synonym 'k fleet = "'k \<Rightarrow> node"

text \<open>Some consumer has sent the update of a grant to a state.\<close>

definition reported_by :: "'k fleet \<Rightarrow> GrantId \<Rightarrow> pb_GrantState \<Rightarrow> bool" where
  "reported_by F gid st \<longleftrightarrow>
     (\<exists>k g. GrantId (pbg_id g) = gid \<and> update_message g st \<in> set (dr_outbound (nd_driver (F k))))"

text \<open>The coordinator relays what was reported of the counterpart.\<close>

definition relayed :: "(GrantId \<Rightarrow> GrantId \<Rightarrow> bool) \<Rightarrow> 'k fleet \<Rightarrow> pb_Notify \<Rightarrow> bool" where
  "relayed counterpart F n \<longleftrightarrow>
     (\<forall>t u. no_target n = Some t \<longrightarrow> no_update n = Some u \<longrightarrow>
        (grant_state_from_i32 (pbg_state u) = GrantState.RevokedUnloaded \<longrightarrow>
           counterpart (GrantId (pbg_id t)) (GrantId (pbg_id u))
           \<and> reported_by F (GrantId (pbg_id u)) pb_GrantState.RevokedUnloaded)
        \<and> (grant_state_from_i32 (pbg_state u) = GrantState.AllocatedLoaded \<longrightarrow>
           counterpart (GrantId (pbg_id t)) (GrantId (pbg_id u))
           \<and> reported_by F (GrantId (pbg_id u)) pb_GrantState.AllocatedLoaded))"

text \<open>A consumer receives a message, or does anything else.\<close>

definition receive :: "consumer_env \<Rightarrow> SystemTime \<Rightarrow> pb_JoinMessage \<Rightarrow> node \<Rightarrow> node" where
  "receive E now msg n =
     (let d = inbound_branch E now (Item msg) (nd_driver n)
      in n\<lparr>nd_driver := d, nd_processor := share d (nd_cells n) (nd_processor n)\<rparr>)"

definition quiet_step ::
  "consumer_env \<Rightarrow> (GrantId \<Rightarrow> Shard \<Rightarrow> Ownership \<Rightarrow> range option) \<Rightarrow> node \<Rightarrow> node \<Rightarrow> bool" where
  "quiet_step E factory n n' \<longleftrightarrow> node_step E factory n n' \<and> counterpart_kept (nd_driver n) (nd_driver n')"

inductive fleet_step ::
  "(GrantId \<Rightarrow> GrantId \<Rightarrow> bool) \<Rightarrow> consumer_env \<Rightarrow> (GrantId \<Rightarrow> Shard \<Rightarrow> Ownership \<Rightarrow> range option) \<Rightarrow>
   'k fleet \<Rightarrow> 'k fleet \<Rightarrow> bool"
  for counterpart :: "GrantId \<Rightarrow> GrantId \<Rightarrow> bool" and E :: consumer_env
    and factory :: "GrantId \<Rightarrow> Shard \<Rightarrow> Ownership \<Rightarrow> range option" where
  notified: "dr_pc (nd_driver (F k)) = Selecting b \<Longrightarrow> notification msg = Some n \<Longrightarrow> relayed counterpart F n \<Longrightarrow>
     fleet_step counterpart E factory F (F(k := receive E now msg (F k)))"
| other: "quiet_step E factory (F k) n \<Longrightarrow> fleet_step counterpart E factory F (F(k := n))"

definition fleet_start :: "consumer_env \<Rightarrow> 'k fleet \<Rightarrow> bool" where
  "fleet_start E F \<longleftrightarrow> (\<forall>k. node_start E (F k))"

section \<open>Only notifications speak about the counterpart\<close>

lemma counterpart_kept_refl: "dr_cells d' = dr_cells d \<Longrightarrow> counterpart_kept d d'"
  by (simp add: counterpart_kept_def)

lemma counterpart_kept_updates [simp]:
  "counterpart_kept d (d'\<lparr>dr_pc := c\<rparr>) \<longleftrightarrow> counterpart_kept d d'"
  "counterpart_kept d (d'\<lparr>dr_cluster := cm\<rparr>) \<longleftrightarrow> counterpart_kept d d'"
  "counterpart_kept d (d'\<lparr>dr_heartbeat := h\<rparr>) \<longleftrightarrow> counterpart_kept d d'"
  "counterpart_kept d (d'\<lparr>dr_closed := l\<rparr>) \<longleftrightarrow> counterpart_kept d d'"
  "counterpart_kept d (d'\<lparr>dr_shutdown := l\<rparr>) \<longleftrightarrow> counterpart_kept d d'"
  "counterpart_kept d (d'\<lparr>dr_out_open := b\<rparr>) \<longleftrightarrow> counterpart_kept d d'"
  "counterpart_kept d (d'\<lparr>dr_taken := n\<rparr>) \<longleftrightarrow> counterpart_kept d d'"
  "counterpart_kept d (d'\<lparr>dr_cluster_rx := b\<rparr>) \<longleftrightarrow> counterpart_kept d d'"
  "counterpart_kept d (d'\<lparr>dr_grants := m\<rparr>) \<longleftrightarrow> counterpart_kept d d'"
  "counterpart_kept d (d'\<lparr>dr_outbound := out\<rparr>) \<longleftrightarrow> counterpart_kept d d'"
  "counterpart_kept d (emit e d') \<longleftrightarrow> counterpart_kept d d'"
  "counterpart_kept d (snd (send_out msg d')) \<longleftrightarrow> counterpart_kept d d'"
  by (simp_all add: counterpart_kept_def)

lemma counterpart_kept_trans:
  "counterpart_kept d d' \<Longrightarrow> counterpart_kept d' d'' \<Longrightarrow> counterpart_kept d d''"
  unfolding counterpart_kept_def by blast

text \<open>Operations on a cell that leave those latches alone.\<close>

definition mute :: "(cell \<Rightarrow> cell) \<Rightarrow> bool" where
  "mute f \<longleftrightarrow> (\<forall>c. ld_unloaded (ow_loader (gc_own (f c))) = ld_unloaded (ow_loader (gc_own c))
     \<and> ul_loaded (ow_unloader (gc_own (f c))) = ul_loaded (ow_unloader (gc_own c)))"

lemma mute_simps [simp]:
  "mute (on_own activate)" "mute (on_own revoke)" "mute (on_own expire)" "mute (set_expiration_cell e)"
  "mute (set_watcher k t)" "mute (timer_step u)" "mute (\<lambda>c. c\<lparr>gc_timer := TDone\<rparr>)"
  "mute (\<lambda>c. c\<lparr>gc_aborted := True\<rparr>)" "mute (on_own load)" "mute (on_own unload)"
  by (simp_all add: mute_def own_op_defs timer_step_def split: timer.split)

lemma mute_user: "user_op x \<Longrightarrow> mute (on_own (own_apply x))"
  by (auto simp: user_op_def mute_def own_op_defs)

lemma mute_kept: "mute f \<Longrightarrow> counterpart_kept d d' \<Longrightarrow> counterpart_kept d (on_cell a f d')"
  by (auto simp: counterpart_kept_def mute_def on_cell_nth split: if_splits)

lemma counterpart_kept_remove: "counterpart_kept d d' \<Longrightarrow> counterpart_kept d (remove_grant gid d')"
  by (auto simp: remove_grant_def Let_def intro!: mute_kept split: option.split)

lemma own_new_counterpart [simp]:
  "\<not> is_closed (ld_unloaded (ow_loader (ownership_new st e now)))"
  "\<not> is_closed (ul_loaded (ow_unloader (ownership_new st e now)))"
  by (cases st; simp add: ownership_new_def loader_new_def unloader_new_def Let_def)+

lemma counterpart_kept_assign: "counterpart_kept d d' \<Longrightarrow> counterpart_kept d (snd (on_assign now g d'))"
proof (cases rule: on_assign_cases [of now g d'])
  case (added shard expiration)
  assume "counterpart_kept d d'"
  then have "counterpart_kept d (remove_grant (GrantId (pbg_id g)) d')" by (rule counterpart_kept_remove)
  then show ?thesis
    by (auto simp: added add_grant_def counterpart_kept_def nth_append cell_new_def split: if_splits)
qed simp

lemma counterpart_kept_handlers:
  assumes "counterpart_kept d d'"
  shows "counterpart_kept d (snd (on_promote g d'))" "counterpart_kept d (snd (on_revoke g d'))"
    "counterpart_kept d (snd (on_extend E e d'))"
proof -
  show "counterpart_kept d (snd (on_promote g d'))"
    using assms by (auto simp: on_promote_def Let_def intro!: mute_kept split: option.split)
  show "counterpart_kept d (snd (on_revoke g d'))"
    using assms by (auto simp: on_revoke_def Let_def intro!: mute_kept split: option.split sum.split)
  have one: "counterpart_kept d d' \<Longrightarrow> counterpart_kept d (extend_one l gid d')" for l gid d'
    by (auto simp: extend_one_def intro!: mute_kept split: option.split)
  have "counterpart_kept d d' \<Longrightarrow> counterpart_kept d (fold (extend_one l) gids d')" for l gids d'
    by (induction gids arbitrary: d') (simp_all add: one)
  then show "counterpart_kept d (snd (on_extend E e d'))"
    using assms by (simp add: on_extend_def split: option.split sum.split)
qed

lemma counterpart_kept_inbound:
  assumes "notification msg = None"
  shows "counterpart_kept d (snd (handle_inbound E now msg d))"
proof -
  have "counterpart_kept d (snd (for_each (on_assign now) gs d))" "counterpart_kept d (snd (for_each on_promote gs d))"
    "counterpart_kept d (snd (for_each on_revoke gs d))" for gs
    by (rule for_each_keeps [where P = "counterpart_kept d"];
        simp add: counterpart_kept_refl counterpart_kept_assign counterpart_kept_handlers)+
  moreover have "counterpart_kept d (snd (handle_cluster E cm d))" for cm
    by (auto simp: handle_cluster_def counterpart_kept_refl split: sum.split fault.split)
  ultimately show ?thesis
    using assms
    by (auto simp: handle_inbound_state handle_client_message_def notification_def counterpart_kept_refl
        counterpart_kept_handlers split: option.splits join_Msg.splits consumer_Msg.splits client_Msg.splits)
qed

lemma counterpart_kept_break: "counterpart_kept d d' \<Longrightarrow> counterpart_kept d (break_loop E r d')"
proof -
  have "counterpart_kept d d' \<Longrightarrow> counterpart_kept d (fold remove_grant gids d')" for gids d'
    by (induction gids arbitrary: d') (auto intro: counterpart_kept_remove)
  then show "counterpart_kept d d' \<Longrightarrow> counterpart_kept d (break_loop E r d')"
    by (simp add: break_loop_def clean_up_def Let_def)
qed

lemma counterpart_kept_inbound_branch:
  assumes "\<And>msg. i = Item msg \<Longrightarrow> notification msg = None"
  shows "counterpart_kept d (inbound_branch E now i d)"
proof (cases i)
  case (Item msg)
  obtain r q where h: "handle_inbound E now msg d = (r, q)" by force
  then have "counterpart_kept d q" using counterpart_kept_inbound [OF assms [OF Item], of d E now] by simp
  then show ?thesis by (auto simp: inbound_branch_def Item h split: sum.split fault.split option.split)
qed (simp_all add: inbound_branch_def counterpart_kept_break counterpart_kept_refl)

text \<open>So the two kinds of steps of a fleet leave no step of a driver out.\<close>

lemma only_notifications:
  assumes "drv_step E d d'"
  shows "counterpart_kept d d' \<or>
    (\<exists>b now msg n. dr_pc d = Selecting b \<and> notification msg = Some n \<and> d' = inbound_branch E now (Item msg) d)"
  using assms
proof cases
  case leave
  then show ?thesis by (simp add: leave_branch_def counterpart_kept_refl)
next
  case part
  then show ?thesis by (simp add: part_branch_def counterpart_kept_break counterpart_kept_refl)
next
  case (beat now)
  then show ?thesis
    by (auto simp: heartbeat_branch_def send_out_def counterpart_kept_refl intro!: counterpart_kept_break)
next
  case (inbound b now i)
  then show ?thesis
    using counterpart_kept_inbound_branch [of i d E now] by (cases "\<exists>msg n. i = Item msg \<and> notification msg = Some n") auto
next
  case (user a x)
  then show ?thesis by (simp add: mute_kept mute_user counterpart_kept_refl)
qed (simp_all add: select_enter_def watcher_send_def mute_kept counterpart_kept_refl)

end
