(* ===== verification/FleetLaws.thy ===== *)
theory FleetLaws
  imports FleetModel
begin

text \<open>
  Hand-over between consumers: a consumer loads a grant early only if another one has drained the
  counterpart, and is told that the counterpart has loaded only if it has.
\<close>

section \<open>What a step of one consumer keeps\<close>

lemma outbound_fold_remove: "dr_outbound (fold remove_grant gids d) = dr_outbound d"
  by (induction gids arbitrary: d) (simp_all add: remove_grant_fields)

lemma outbound_break [simp]: "dr_outbound (break_loop E r d) = dr_outbound d"
  by (simp add: break_loop_def clean_up_def Let_def outbound_fold_remove)

lemma outbound_inbound_branch: "dr_outbound (inbound_branch E now i d) = dr_outbound d"
proof (cases i)
  case (Item msg)
  obtain r q where h: "handle_inbound E now msg d = (r, q)" by force
  then have "dr_outbound q = dr_outbound d"
    using handle_inbound_same_loop [of d E now msg] by (simp add: same_loop_def)
  then show ?thesis by (auto simp: inbound_branch_def Item h split: sum.split fault.split option.split)
qed (simp_all add: inbound_branch_def)

lemma outbound_grows:
  assumes "drv_step E d d'"
  shows "set (dr_outbound d) \<subseteq> set (dr_outbound d')"
  using assms
  by cases (auto simp: select_enter_def leave_branch_def part_branch_def heartbeat_branch_def
      send_out_def watcher_send_def outbound_inbound_branch)

text \<open>Cells stay in place with their grants, and what was sent stays sent.\<close>

definition extends :: "driver \<Rightarrow> driver \<Rightarrow> bool" where
  "extends d d' \<longleftrightarrow> length (dr_cells d) \<le> length (dr_cells d')
     \<and> (\<forall>a < length (dr_cells d). gc_pb (dr_cells d' ! a) = gc_pb (dr_cells d ! a))
     \<and> set (dr_outbound d) \<subseteq> set (dr_outbound d')"

lemma node_step_extends:
  assumes "node_step E factory n n'"
  shows "extends (nd_driver n) (nd_driver n')"
  using assms
proof cases
  case (stream d')
  show ?thesis
    using evolvesD(1,2) [OF driver_step_evolves [OF stream(2,3)]] outbound_grows [OF stream(2)]
    by (simp add: stream(1) extends_def)
next
  case (move i mv now)
  show ?thesis by (cases "snd mv") (simp_all add: move(1) extends_def on_cell_nth)
qed (simp_all add: extends_def)

text \<open>Receiving a notification is a step of the stream.\<close>

lemma inbound_keeps_signals: "keeps_signals d (inbound_branch E now i d)"
proof -
  have kept: "ld_load (ow_loader (own_apply x w)) = ld_load (ow_loader w)
      \<and> ul_unload (ow_unloader (own_apply x w)) = ul_unload (ow_unloader w)" if "driver_op x" for x w
    using that by (cases x) (simp_all add: driver_op_def own_op_defs)
  have run: "ld_load (ow_loader (own_run ops w)) = ld_load (ow_loader w)
      \<and> ul_unload (ow_unloader (own_run ops w)) = ul_unload (ow_unloader w)" if "list_all driver_op ops" for ops w
    using that by (induction ops arbitrary: w) (simp_all add: own_run_def kept)
  show ?thesis
    unfolding keeps_signals_def using evolvesD(3) [OF evolves_inbound_branch, of _ d E now i] run by metis
qed

lemma receive_step:
  assumes "dr_pc (nd_driver n) = Selecting b"
  shows "node_step E factory n (receive E now msg n)"
  unfolding receive_def Let_def
  by (rule node_step.stream [OF drv_step.inbound [OF assms] inbound_keeps_signals])

text \<open>A notification closes latches of the cell of its target only.\<close>

lemma notified_cells:
  assumes "notification msg = Some n"
  shows "dr_cells (inbound_branch E now (Item msg) d) = dr_cells (on_notify n d)"
proof -
  obtain r q where h: "handle_inbound E now msg d = (r, q)" by force
  have "snd (handle_inbound E now msg d) = on_notify n d"
    using assms by (auto simp: notification_def handle_inbound_state handle_client_message_def
        split: option.splits join_Msg.splits consumer_Msg.splits client_Msg.splits)
  then have "q = on_notify n d" by (simp add: h)
  then show ?thesis by (auto simp: inbound_branch_def h split: sum.split fault.split option.split)
qed

lemma on_notify_cells:
  assumes "a < length (dr_cells d)"
  shows "dr_cells (on_notify n d) ! a = dr_cells d ! a \<or>
    (\<exists>t u e. no_target n = Some t \<and> no_update n = Some u \<and> dr_grants d (GrantId (pbg_id t)) = Some e \<and> ag_ownership e = a
      \<and> (grant_state_from_i32 (pbg_state u) = GrantState.AllocatedLoaded
           \<and> dr_cells (on_notify n d) ! a = on_own counterpart_loaded (dr_cells d ! a)
         \<or> grant_state_from_i32 (pbg_state u) = GrantState.RevokedUnloaded
           \<and> dr_cells (on_notify n d) ! a = on_own counterpart_unloaded (dr_cells d ! a)))"
  using assms by (auto simp: on_notify_def on_cell_nth split: option.split GrantState.split)

section \<open>Invariant of the fleet\<close>

text \<open>What a consumer knows of counterparts has been reported.\<close>

definition told_truth :: "(GrantId \<Rightarrow> GrantId \<Rightarrow> bool) \<Rightarrow> 'k fleet \<Rightarrow> driver \<Rightarrow> bool" where
  "told_truth counterpart F d \<longleftrightarrow>
     (\<forall>a < length (dr_cells d).
        (is_closed (ld_unloaded (ow_loader (gc_own (dr_cells d ! a)))) \<longrightarrow>
           (\<exists>h. counterpart (GrantId (pbg_id (gc_pb (dr_cells d ! a)))) h
              \<and> reported_by F h pb_GrantState.RevokedUnloaded))
        \<and> (is_closed (ul_loaded (ow_unloader (gc_own (dr_cells d ! a)))) \<longrightarrow>
           (\<exists>h. counterpart (GrantId (pbg_id (gc_pb (dr_cells d ! a)))) h
              \<and> reported_by F h pb_GrantState.AllocatedLoaded)))"

lemma told_truthD:
  assumes "told_truth counterpart F d" and "a < length (dr_cells d)"
  shows "is_closed (ld_unloaded (ow_loader (gc_own (dr_cells d ! a)))) \<Longrightarrow>
      \<exists>h. counterpart (GrantId (pbg_id (gc_pb (dr_cells d ! a)))) h \<and> reported_by F h pb_GrantState.RevokedUnloaded"
    and "is_closed (ul_loaded (ow_unloader (gc_own (dr_cells d ! a)))) \<Longrightarrow>
      \<exists>h. counterpart (GrantId (pbg_id (gc_pb (dr_cells d ! a)))) h \<and> reported_by F h pb_GrantState.AllocatedLoaded"
  using assms unfolding told_truth_def by blast+

lemma reported_mono:
  assumes "\<And>k. set (dr_outbound (nd_driver (F k))) \<subseteq> set (dr_outbound (nd_driver (G k)))"
  shows "reported_by F h st \<Longrightarrow> reported_by G h st"
  using assms unfolding reported_by_def by blast

lemma told_truth_mono:
  assumes "told_truth counterpart F d" and "\<And>h st. reported_by F h st \<Longrightarrow> reported_by G h st"
  shows "told_truth counterpart G d"
  using assms unfolding told_truth_def by meson

text \<open>A consumer that is told nothing new.\<close>

lemma told_truth_kept:
  assumes "told_truth counterpart F d" and "counterpart_kept d d'" and "extends d d'"
  shows "told_truth counterpart F d'"
  using assms unfolding told_truth_def counterpart_kept_def extends_def by metis

lemma told_truth_notified:
  assumes truth: "told_truth counterpart F d" and inv: "drv_inv d"
    and msg: "notification msg = Some n" and rel: "relayed counterpart F n"
  shows "told_truth counterpart F (inbound_branch E now (Item msg) d)"
  unfolding told_truth_def notified_cells [OF msg]
proof (intro allI impI)
  fix a assume "a < length (dr_cells (on_notify n d))"
  then have a: "a < length (dr_cells d)" by (simp add: on_notify_def split: option.splits GrantState.splits)
  let ?c = "dr_cells (on_notify n d) ! a" and ?o = "dr_cells d ! a"
  from on_notify_cells [OF a, of n]
  show "(is_closed (ld_unloaded (ow_loader (gc_own ?c))) \<longrightarrow>
        (\<exists>h. counterpart (GrantId (pbg_id (gc_pb ?c))) h \<and> reported_by F h pb_GrantState.RevokedUnloaded))
      \<and> (is_closed (ul_loaded (ow_unloader (gc_own ?c))) \<longrightarrow>
        (\<exists>h. counterpart (GrantId (pbg_id (gc_pb ?c))) h \<and> reported_by F h pb_GrantState.AllocatedLoaded))"
  proof (elim disjE exE conjE)
    assume "?c = ?o"
    then show ?thesis using told_truthD [OF truth a] by simp
  next
    fix t u e
    assume n: "no_target n = Some t" "no_update n = Some u" "dr_grants d (GrantId (pbg_id t)) = Some e" "ag_ownership e = a"
      and st: "grant_state_from_i32 (pbg_state u) = GrantState.AllocatedLoaded"
      and c: "?c = on_own counterpart_loaded ?o"
    have "GrantId (pbg_id (gc_pb ?o)) = GrantId (pbg_id t)"
      using drv_invD(2) [OF inv n(3)] n(4) by (simp add: entry_ok_def)
    then have "counterpart (GrantId (pbg_id (gc_pb ?o))) (GrantId (pbg_id u))"
      "reported_by F (GrantId (pbg_id u)) pb_GrantState.AllocatedLoaded"
      using rel n(1,2) st by (simp_all add: relayed_def)
    then show ?thesis using told_truthD(1) [OF truth a] by (auto simp: c counterpart_loaded_def)
  next
    fix t u e
    assume n: "no_target n = Some t" "no_update n = Some u" "dr_grants d (GrantId (pbg_id t)) = Some e" "ag_ownership e = a"
      and st: "grant_state_from_i32 (pbg_state u) = GrantState.RevokedUnloaded"
      and c: "?c = on_own counterpart_unloaded ?o"
    have "GrantId (pbg_id (gc_pb ?o)) = GrantId (pbg_id t)"
      using drv_invD(2) [OF inv n(3)] n(4) by (simp add: entry_ok_def)
    then have "counterpart (GrantId (pbg_id (gc_pb ?o))) (GrantId (pbg_id u))"
      "reported_by F (GrantId (pbg_id u)) pb_GrantState.RevokedUnloaded"
      using rel n(1,2) st by (simp_all add: relayed_def)
    then show ?thesis using told_truthD(2) [OF truth a] by (auto simp: c counterpart_unloaded_def)
  qed
qed

definition fleet_inv :: "(GrantId \<Rightarrow> GrantId \<Rightarrow> bool) \<Rightarrow> consumer_env \<Rightarrow> 'k fleet \<Rightarrow> bool" where
  "fleet_inv counterpart E F \<longleftrightarrow> (\<forall>k. node_inv E (F k) \<and> told_truth counterpart F (nd_driver (F k)))"

lemma fleet_inv_start: "fleet_start E F \<Longrightarrow> fleet_inv counterpart E F"
proof -
  assume start: "fleet_start E F"
  have "told_truth counterpart F (nd_driver (F k))" for k
  proof -
    have "drv_start E (nd_driver (F k))" using start by (simp add: fleet_start_def node_start_def)
    then have "dr_cells (nd_driver (F k)) = []" by (auto simp: drv_start_def join_def driver_new_def)
    then show ?thesis by (simp add: told_truth_def)
  qed
  then show ?thesis using start node_inv_start by (simp add: fleet_inv_def fleet_start_def)
qed

text \<open>One consumer moves, and what it is told is true.\<close>

lemma fleet_inv_update:
  assumes inv: "fleet_inv counterpart E F" and step: "node_step E factory (F k) n"
    and truth: "told_truth counterpart F (nd_driver n)"
  shows "fleet_inv counterpart E (F(k := n))"
proof -
  have "set (dr_outbound (nd_driver (F j))) \<subseteq> set (dr_outbound (nd_driver ((F(k := n)) j)))" for j
    using node_step_extends [OF step] by (simp add: extends_def)
  then have mono: "reported_by F h st \<Longrightarrow> reported_by (F(k := n)) h st" for h st by (rule reported_mono)
  have "node_inv E n" by (rule node_inv_step [OF _ step]) (use inv in \<open>simp add: fleet_inv_def\<close>)
  moreover have "told_truth counterpart (F(k := n)) (nd_driver ((F(k := n)) j))" for j
    by (rule told_truth_mono [where F = F]) (use inv truth mono in \<open>simp_all add: fleet_inv_def\<close>)
  ultimately show ?thesis using inv by (simp add: fleet_inv_def)
qed

lemma fleet_inv_step:
  assumes order: "grant_order_ok E" and inv: "fleet_inv counterpart E F"
    and "fleet_step counterpart E factory F G"
  shows "fleet_inv counterpart E G"
  using assms(3)
proof cases
  case (notified k b msg n now)
  have node: "node_inv E (F k)" and truth: "told_truth counterpart F (nd_driver (F k))"
    using inv by (simp_all add: fleet_inv_def)
  have "drv_inv (nd_driver (F k))"
    using driver_reach_inv [OF order] node by (simp add: node_inv_def loop_inv_def)
  from told_truth_notified [OF truth this notified(3,4), of E now]
  have "told_truth counterpart F (nd_driver (receive E now msg (F k)))" by (simp add: receive_def Let_def)
  then show ?thesis
    unfolding notified(1) by (rule fleet_inv_update [OF inv receive_step [OF notified(2)]])
next
  case (other k n)
  then have step: "node_step E factory (F k) n" and kept: "counterpart_kept (nd_driver (F k)) (nd_driver n)"
    by (simp_all add: quiet_step_def)
  have "told_truth counterpart F (nd_driver n)"
    by (rule told_truth_kept [OF _ kept node_step_extends [OF step]]) (use inv in \<open>simp add: fleet_inv_def\<close>)
  then show ?thesis unfolding other(1) by (rule fleet_inv_update [OF inv step])
qed

interpretation fleet_system: invariant_system "fleet_start E" "fleet_step counterpart E factory"
    "\<lambda>F. grant_order_ok E \<longrightarrow> fleet_inv counterpart E F" for E counterpart factory
  by unfold_locales (auto intro: fleet_inv_start fleet_inv_step)

section \<open>Hand-over\<close>

lemma run_knows:
  assumes "fleet_inv counterpart E F" and "r \<in> set (pr_runs (nd_processor (F k)))"
  shows "run_inv r"
    and "is_closed (ld_unloaded (ow_loader (rn_own r))) \<Longrightarrow>
      \<exists>h. counterpart (rn_id r) h \<and> reported_by F h pb_GrantState.RevokedUnloaded"
    and "is_closed (ul_loaded (ow_unloader (rn_own r))) \<Longrightarrow>
      \<exists>h. counterpart (rn_id r) h \<and> reported_by F h pb_GrantState.AllocatedLoaded"
proof -
  have node: "node_inv E (F k)" and truth: "told_truth counterpart F (nd_driver (F k))"
    using assms(1) by (simp_all add: fleet_inv_def)
  have link: "node_link (F k)" and p: "reach proc_start proc_step (nd_processor (F k))"
    using node by (simp_all add: node_inv_def)
  obtain i where i: "i < length (pr_runs (nd_processor (F k)))" "r = pr_runs (nd_processor (F k)) ! i"
    using assms(2) by (metis in_set_conv_nth)
  show "run_inv r" using proc_invD(1) [OF processor_reach_inv [OF p] i(1)] i(2) by simp
  show "is_closed (ld_unloaded (ow_loader (rn_own r))) \<Longrightarrow>
      \<exists>h. counterpart (rn_id r) h \<and> reported_by F h pb_GrantState.RevokedUnloaded"
    and "is_closed (ul_loaded (ow_unloader (rn_own r))) \<Longrightarrow>
      \<exists>h. counterpart (rn_id r) h \<and> reported_by F h pb_GrantState.AllocatedLoaded"
    using told_truthD [OF truth node_linkD(3) [OF link i(1)]] node_linkD(4,5) [OF link i(1)] i(2) by simp_all
qed

lemma reported_run:
  assumes "fleet_inv counterpart E F" and "reported_by F h st"
    and st: "(q = LoadSignal \<and> st = pb_GrantState.AllocatedLoaded) \<or> (q = UnloadSignal \<and> st = pb_GrantState.RevokedUnloaded)"
  shows "\<exists>j r. r \<in> set (pr_runs (nd_processor (F j))) \<and> rn_id r = h \<and> is_closed (signal_latch q (rn_own r)) \<and> run_inv r"
proof -
  obtain j g where g: "GrantId (pbg_id g) = h" "update_message g st \<in> set (dr_outbound (nd_driver (F j)))"
    using assms(2) by (auto simp: reported_by_def)
  have node: "node_inv E (F j)" using assms(1) by (simp add: fleet_inv_def)
  have "signal_message q g \<in> set (dr_outbound (nd_driver (F j)))" "q \<noteq> RevokeSignal" using st g(2) by auto
  from signalled_run [OF node this] g(1) show ?thesis by metis
qed

text \<open>
  Hand-over between consumers. A range goes to work on a grant that is not yet active only after the
  range of the counterpart, at whichever consumer, was loaded and revoked and has been drained to
  the end; and a consumer that waits for the counterpart to have loaded is told so only when a
  range of the counterpart is initialised there and may serve. All that is assumed of the
  coordinator is that it relays only updates that were sent, between grants that match.
\<close>

lemma fleet_handover:
  assumes "grant_order_ok E" and "reach (fleet_start E) (fleet_step counterpart E factory) F"
    and "r \<in> set (pr_runs (nd_processor (F k)))"
  shows "(is_closed (ld_load (ow_loader (rn_own r))) \<longrightarrow> is_closed (rg_initialized (rn_range r))
      \<and> (is_closed (ow_active (rn_own r))
         \<or> (\<exists>k' r'. r' \<in> set (pr_runs (nd_processor (F k'))) \<and> counterpart (rn_id r) (rn_id r')
              \<and> is_closed (ow_revoked (rn_own r')) \<and> rg_drain_calls (rn_range r') \<noteq> []
              \<and> is_closed (rg_drained (rn_range r')))))
    \<and> (is_closed (ul_loaded (ow_unloader (rn_own r))) \<longrightarrow>
        (\<exists>k' r'. r' \<in> set (pr_runs (nd_processor (F k'))) \<and> counterpart (rn_id r) (rn_id r')
           \<and> is_closed (rg_initialized (rn_range r'))))"
proof -
  have inv: "fleet_inv counterpart E F" using fleet_system.reach_inv [OF assms(2)] assms(1) by simp
  note r = run_knows(1) [OF inv assms(3)] and unl = run_knows(2) [OF inv assms(3)]
    and ldd = run_knows(3) [OF inv assms(3)]
  have drained: "\<exists>k' r'. r' \<in> set (pr_runs (nd_processor (F k'))) \<and> counterpart (rn_id r) (rn_id r')
      \<and> is_closed (ow_revoked (rn_own r')) \<and> rg_drain_calls (rn_range r') \<noteq> [] \<and> is_closed (rg_drained (rn_range r'))"
    if u: "is_closed (ld_unloaded (ow_loader (rn_own r)))"
  proof -
    obtain h where h: "counterpart (rn_id r) h" "reported_by F h pb_GrantState.RevokedUnloaded" using unl [OF u] by blast
    from reported_run [OF inv h(2), of UnloadSignal] obtain j r' where
      "r' \<in> set (pr_runs (nd_processor (F j)))" "rn_id r' = h" "is_closed (ul_unload (ow_unloader (rn_own r')))" "run_inv r'"
      by auto
    with h(1) show ?thesis by (intro exI [of _ j] exI [of _ r']) (simp add: run_inv_def signals_ok_def)
  qed
  have loaded: "\<exists>k' r'. r' \<in> set (pr_runs (nd_processor (F k'))) \<and> counterpart (rn_id r) (rn_id r')
      \<and> is_closed (rg_initialized (rn_range r'))"
    if u: "is_closed (ul_loaded (ow_unloader (rn_own r)))"
  proof -
    obtain h where h: "counterpart (rn_id r) h" "reported_by F h pb_GrantState.AllocatedLoaded" using ldd [OF u] by blast
    from reported_run [OF inv h(2), of LoadSignal] obtain j r' where
      "r' \<in> set (pr_runs (nd_processor (F j)))" "rn_id r' = h" "is_closed (ld_load (ow_loader (rn_own r')))" "run_inv r'"
      by auto
    with h(1) show ?thesis by (intro exI [of _ j] exI [of _ r']) (simp add: run_inv_def signals_ok_def)
  qed
  have "is_closed (rg_initialized (rn_range r))
      \<and> (is_closed (ow_active (rn_own r)) \<or> is_closed (ld_unloaded (ow_loader (rn_own r))))"
    if "is_closed (ld_load (ow_loader (rn_own r)))"
    using r that by (simp add: run_inv_def signals_ok_def)
  with drained loaded show ?thesis by blast
qed

end
