(* ===== verification/HandoverRuns.thy ===== *)
theory HandoverRuns
  imports FleetLaws ConsumerRuns
begin

text \<open>
  A complete hand-over of one grant by a stream and a processor: assignment, revocation, loading,
  drain and unloading, up to the two reports to the coordinator. It witnesses the properties of
  \<open>HandoverLaws\<close>.
\<close>

section \<open>A grant that is assigned active and then revoked\<close>

definition live_grant :: pb_Grant where
  "live_grant = (demo_pb_grant 100)\<lparr>pbg_state := pb_grant_state_as_i32 pb_GrantState.Active\<rparr>"

definition live_assigned :: driver where
  "live_assigned = inbound_branch demo_consumer_env 0
     (Item (wrap_client (Assign [live_grant]))) (select_enter demo_joined)"

definition live_revoked :: driver where
  "live_revoked = inbound_branch demo_consumer_env 0
     (Item (wrap_client (client_Msg.Revoke [live_grant\<lparr>pbg_lease := None\<rparr>]))) (select_enter live_assigned)"

definition live_ownership :: Ownership where
  "live_ownership = revoke (ownership_new GrantState.Active (int (from_secs 100)) 0)"

lemma live_state: "grant_state_from_i32 1 = GrantState.Active"
  by (simp add: grant_state_from_i32_def pb_grant_state_try_from_def)

lemma live_assigned_eq:
  "live_assigned = demo_joined
     \<lparr>dr_events := [Assigned (GrantId ''g'') (demo_shard ''a'' ''m'') 0],
      dr_grants := [GrantId ''g'' \<mapsto> \<lparr>ag_pb = live_grant, ag_ownership = 0, ag_revoked = False\<rparr>],
      dr_cells := [cell_new (ownership_new GrantState.Active (int (from_secs 100)) 0) live_grant]\<rparr>"
  by (simp add: live_assigned_def inbound_branch_def handle_inbound_def wrap_client_def live_grant_def
      handle_client_message_def on_assign_def assign_shard_def assign_expiration_def demo_pb_grant_def
      demo_lease demo_joined_def join_def driver_new_def select_enter_def emit_def Let_def live_state)

lemma live_revoked_cells: "dr_cells live_revoked = [cell_new live_ownership live_grant]"
  by (simp add: live_revoked_def inbound_branch_def handle_inbound_def wrap_client_def live_grant_def
      handle_client_message_def on_revoke_def Let_def demo_pb_grant_def live_assigned_eq select_enter_def
      on_cell_def on_own_def cell_new_def live_ownership_def)

lemma live_revoked_open: "dr_out_open live_revoked"
  by (simp add: live_revoked_def inbound_branch_def handle_inbound_def wrap_client_def live_grant_def
      handle_client_message_def on_revoke_def Let_def demo_pb_grant_def live_assigned_eq select_enter_def
      demo_joined_pc)

lemma live_signals:
  "is_closed (ow_active live_ownership)" "is_closed (ow_revoked live_ownership)"
  by (simp_all add: live_ownership_def revoke_def)

section \<open>Steps of the node\<close>

definition demo_factory :: "GrantId \<Rightarrow> Shard \<Rightarrow> Ownership \<Rightarrow> range option" where
  "demo_factory gid shard w = Some (range_new True)"

text \<open>A step that accepts no grant once there are runs.\<close>

definition working :: "node \<Rightarrow> node \<Rightarrow> bool" where
  "working n n' \<longleftrightarrow> quiet_step demo_consumer_env demo_factory n n'
     \<and> (nd_cells n = [] \<or> nd_cells n' = nd_cells n
          \<and> pr_initialized (nd_processor n') = pr_initialized (nd_processor n))"

abbreviation quiet_run :: "node \<Rightarrow> node \<Rightarrow> bool" where
  "quiet_run \<equiv> working\<^sup>*\<^sup>*"

lemma quiet_next:
  "quiet_run n0 n \<Longrightarrow> node_step demo_consumer_env demo_factory n n' \<Longrightarrow>
   counterpart_kept (nd_driver n) (nd_driver n') \<Longrightarrow>
   nd_cells n = [] \<or> nd_cells n' = nd_cells n
     \<and> pr_initialized (nd_processor n') = pr_initialized (nd_processor n) \<Longrightarrow> quiet_run n0 n'"
  by (erule rtranclp.rtrancl_into_rtrancl) (simp add: quiet_step_def working_def)

lemma quiet_reach:
  "quiet_run n0 n \<Longrightarrow> node_start demo_consumer_env n0 \<Longrightarrow>
   reach (node_start demo_consumer_env) (node_step demo_consumer_env demo_factory) n"
  by (induction rule: rtranclp_induct) (auto intro: reach.intros simp: quiet_step_def working_def)

lemma quiet_flow: "quiet_run n0 n \<Longrightarrow> node_start demo_consumer_env n0 \<Longrightarrow> flow_inv (nd_driver n)"
  using node_system.reach_inv [OF quiet_reach] by (auto simp: node_inv_def intro: flow_system.reach_inv)

text \<open>
  A node reached from \<open>n0\<close> without notifications: one grant, its run, and the messages that were
  sent.
\<close>

definition node_at :: "node \<Rightarrow> cell \<Rightarrow> range \<Rightarrow> pc \<Rightarrow> pb_JoinMessage set \<Rightarrow> node \<Rightarrow> bool" where
  "node_at n0 c g pt ms n \<longleftrightarrow> quiet_run n0 n \<and> dr_cells (nd_driver n) = [c] \<and> nd_cells n = [0]
     \<and> (\<exists>r. pr_runs (nd_processor n) = [r] \<and> rn_own r = gc_own c \<and> rn_range r = g \<and> rn_pc r = pt
          \<and> rn_id r = GrantId (pbg_id (gc_pb c)))
     \<and> dr_out_open (nd_driver n) \<and> flow_inv (nd_driver n) \<and> ms \<subseteq> set (dr_outbound (nd_driver n))"

lemma node_stream:
  assumes "quiet_run n0 n" and "drv_step demo_consumer_env (nd_driver n) d'"
    and "keeps_signals (nd_driver n) d'" and "counterpart_kept (nd_driver n) d'"
  shows "quiet_run n0 (n\<lparr>nd_driver := d', nd_processor := share d' (nd_cells n) (nd_processor n)\<rparr>)"
  by (rule quiet_next [OF assms(1) node_step.stream [OF assms(2,3)]]) (simp_all add: assms(4) share_def)

lemma node_at_stream:
  assumes n: "node_at n0 c g pt ms n" and step: "drv_step demo_consumer_env (nd_driver n) d'"
    and d': "dr_cells d' = [c']" "gc_own c' = gc_own c" "gc_pb c' = gc_pb c" "dr_out_open d'"
      "ms' \<subseteq> set (dr_outbound d')"
  shows "\<exists>n'. nd_driver n' = d' \<and> node_at n0 c' g pt ms' n'"
proof -
  have cell: "dr_cells (nd_driver n) = [c]" and one: "nd_cells n = [0]" and q: "quiet_run n0 n"
    and "flow_inv (nd_driver n)"
    using n by (simp_all add: node_at_def)
  from flow_inv_step [OF this(4) step] have "flow_inv d'" .
  obtain r where run: "pr_runs (nd_processor n) = [r]" "rn_range r = g" "rn_pc r = pt"
    "rn_id r = GrantId (pbg_id (gc_pb c))"
    using n by (auto simp: node_at_def)
  have "keeps_signals (nd_driver n) d'" "counterpart_kept (nd_driver n) d'"
    by (simp_all add: keeps_signals_def counterpart_kept_def cell d'(1,2))
  from node_stream [OF q step this] show ?thesis
    by (intro exI [of _ "n\<lparr>nd_driver := d', nd_processor := share d' (nd_cells n) (nd_processor n)\<rparr>"])
      (simp add: node_at_def d' one run share_def \<open>flow_inv d'\<close>)
qed

text \<open>The transport makes room.\<close>

lemma node_at_room:
  assumes n: "node_at n0 c g pt ms n"
  shows "\<exists>n'. node_at n0 c g pt ms n' \<and> out_ready (nd_driver n')"
proof (cases "out_ready (nd_driver n)")
  case True
  with n show ?thesis by blast
next
  case False
  let ?d = "(nd_driver n)\<lparr>dr_taken := dr_taken (nd_driver n) + 1\<rparr>"
  have d: "dr_out_open (nd_driver n)" "flow_inv (nd_driver n)" "dr_cells (nd_driver n) = [c]"
    "ms \<subseteq> set (dr_outbound (nd_driver n))"
    using n by (simp_all add: node_at_def)
  with False have full: "length (dr_outbound (nd_driver n)) = dr_taken (nd_driver n) + outbound_capacity"
    by (simp add: out_ready_def flow_inv_def)
  then have "drv_step demo_consumer_env (nd_driver n) ?d"
    by (intro drv_step.taken d(1)) (simp add: outbound_capacity_def)
  from node_at_stream [OF n this, of c ms] d full show ?thesis by (auto simp: out_ready_def outbound_capacity_def)
qed

text \<open>A watcher notices its signal and sends its report.\<close>

lemma node_at_report:
  assumes n: "node_at n0 c g pt ms n" and "watcher_of k c = Watching" and "is_closed (signal_latch k (gc_own c))"
  shows "\<exists>n'. node_at n0 (set_watcher k Finished c) g pt (insert (signal_message k (gc_pb c)) ms) n'"
proof -
  have d: "dr_cells (nd_driver n) = [c]" "dr_out_open (nd_driver n)" "ms \<subseteq> set (dr_outbound (nd_driver n))"
    using n by (simp_all add: node_at_def)
  let ?d = "on_cell 0 (set_watcher k Sending) (nd_driver n)"
  have "drv_step demo_consumer_env (nd_driver n) ?d"
    by (rule drv_step.watch) (simp_all add: d assms(2,3) watcher_select_def)
  from node_at_stream [OF n this, of "set_watcher k Sending c" ms]
  obtain n1 where "node_at n0 (set_watcher k Sending c) g pt ms n1"
    using d by (auto simp: on_cell_def)
  from node_at_room [OF this] obtain n2 where n2: "node_at n0 (set_watcher k Sending c) g pt ms n2"
    "out_ready (nd_driver n2)" by blast
  then have d2: "dr_cells (nd_driver n2) = [set_watcher k Sending c]" "dr_out_open (nd_driver n2)"
    "ms \<subseteq> set (dr_outbound (nd_driver n2))"
    by (simp_all add: node_at_def)
  have "drv_step demo_consumer_env (nd_driver n2) (watcher_send k 0 (nd_driver n2))"
    by (rule drv_step.send) (simp_all add: d2 n2(2))
  from node_at_stream [OF n2(1) this, of "set_watcher k Finished c" "insert (signal_message k (gc_pb c)) ms"]
  show ?thesis using d2 by (cases k) (auto simp: on_cell_def watcher_send_def send_out_def)
qed

fun cell_after :: "effect \<Rightarrow> cell \<Rightarrow> cell" where
  "cell_after CallLoad c = on_own load c"
| "cell_after CallUnload c = on_own unload c"
| "cell_after _ c = c"

fun range_after :: "effect \<Rightarrow> range \<Rightarrow> range" where
  "range_after (CallDrain t) g = g\<lparr>rg_drain_calls := rg_drain_calls g @ [t]\<rparr>"
| "range_after CallClose g = g\<lparr>rg_close_calls := rg_close_calls g + 1\<rparr>"
| "range_after _ g = g"

lemma node_at_move:
  assumes n: "node_at n0 c g pt ms n" and mv: "(pt', e) \<in> set (moves_at pt 0 (gc_own c) g)"
  shows "\<exists>n'. node_at n0 (cell_after e c) (range_after e g) pt' ms n'"
proof -
  obtain r where run: "pr_runs (nd_processor n) = [r]" "rn_own r = gc_own c" "rn_range r = g" "rn_pc r = pt"
      "rn_id r = GrantId (pbg_id (gc_pb c))"
    and d: "dr_cells (nd_driver n) = [c]" "nd_cells n = [0]" "quiet_run n0 n"
      "dr_out_open (nd_driver n)" "flow_inv (nd_driver n)" "ms \<subseteq> set (dr_outbound (nd_driver n))"
    using n by (auto simp: node_at_def)
  have flow: "flow_inv ((nd_driver n)\<lparr>dr_cells := cs\<rparr>)" for cs using d(5) by (simp add: flow_inv_def)
  let ?n = "n\<lparr>nd_driver := signal_effect e 0 (nd_driver n), nd_processor := move_run 0 (pt', e) (nd_processor n)\<rparr>"
  have "(pt', e) \<in> set (moves 0 (pr_runs (nd_processor n) ! 0))" using mv by (simp add: moves_def run)
  from node_step.move [OF _ this, of demo_consumer_env demo_factory]
  have step: "node_step demo_consumer_env demo_factory n ?n" by (simp add: run d)
  have "counterpart_kept (nd_driver n) (nd_driver ?n)"
    by (cases e) (simp_all add: counterpart_kept_refl mute_kept)
  then have "quiet_run n0 ?n"
    by (rule quiet_next [OF d(3) step]) (simp add: move_run_def set_run_def Let_def)
  then show ?thesis
    by (intro exI [of _ ?n], cases e) (simp_all add: node_at_def run d flow move_run_def on_cell_def on_own_def)
qed

lemma node_at_user:
  assumes n: "node_at n0 c g pt ms n"
  shows "\<exists>n'. node_at n0 c (range_apply x g) pt ms n'"
proof -
  obtain r where run: "pr_runs (nd_processor n) = [r]" "rn_own r = gc_own c" "rn_range r = g" "rn_pc r = pt"
      "rn_id r = GrantId (pbg_id (gc_pb c))" and q: "quiet_run n0 n"
    using n by (auto simp: node_at_def)
  let ?n = "n\<lparr>nd_processor := set_run 0 (r\<lparr>rn_range := range_apply x (rn_range r)\<rparr>) (nd_processor n)\<rparr>"
  have "quiet_run n0 ?n"
    by (rule quiet_next [OF q node_step.user_range]) (simp_all add: run counterpart_kept_refl set_run_def)
  then show ?thesis
    using n by (intro exI [of _ ?n]) (simp add: node_at_def run set_run_def)
qed

section \<open>The hand-over\<close>

definition idle_node :: "driver \<Rightarrow> node" where
  "idle_node d = \<lparr>nd_driver = d, nd_processor = processor_new, nd_cells = []\<rparr>"

lemma node_idle_step:
  assumes "quiet_run n0 (idle_node d)" and "drv_step demo_consumer_env d d'" and "keeps_signals d d'"
    and "counterpart_kept d d'"
  shows "quiet_run n0 (idle_node d')"
  using node_stream [OF assms(1), of d'] assms(2-) by (simp add: idle_node_def share_def processor_new_def)

lemma live_loop: "dr_pc live_assigned = LoopTop" "dr_shutdown live_assigned = fresh_latch"
  by (simp_all add: live_assigned_eq demo_joined_pc)

abbreviation live_start :: node where
  "live_start \<equiv> idle_node demo_joined"

lemma idle_start: "node_start demo_consumer_env (idle_node demo_joined)"
  by (auto simp: node_start_def drv_start_def demo_joined_def idle_node_def)

lemma waiting_node: "quiet_run (idle_node demo_joined) (idle_node (select_enter demo_joined))"
  by (rule node_idle_step [OF rtranclp.rtrancl_refl drv_step.enter [OF demo_joined_pc(1)]])
    (simp_all add: keeps_signals_def counterpart_kept_def demo_joined_pc select_enter_def)

lemma no_cells: "dr_cells (select_enter demo_joined) = []"
  by (simp add: select_enter_def demo_joined_pc)

lemma live_node: "quiet_run (idle_node demo_joined) (idle_node live_revoked)"
proof -
  let ?n0 = "idle_node demo_joined"
  have 2: "quiet_run ?n0 (idle_node live_assigned)"
  proof (rule node_idle_step [OF waiting_node])
    show "drv_step demo_consumer_env (select_enter demo_joined) live_assigned"
      unfolding live_assigned_def by (rule drv_step.inbound [OF demo_selecting])
    show "counterpart_kept (select_enter demo_joined) live_assigned"
      by (simp add: counterpart_kept_def live_assigned_eq cell_new_def)
  qed (simp add: keeps_signals_def no_cells)
  have 3: "quiet_run ?n0 (idle_node (select_enter live_assigned))"
    by (rule node_idle_step [OF 2 drv_step.enter [OF live_loop(1)]])
      (simp_all add: keeps_signals_def counterpart_kept_def select_enter_def)
  have sel: "dr_pc (select_enter live_assigned) = Selecting True"
    by (simp add: select_enter_def live_loop)
  show ?thesis
  proof (rule node_idle_step [OF 3])
    show "drv_step demo_consumer_env (select_enter live_assigned) live_revoked"
      unfolding live_revoked_def by (rule drv_step.inbound [OF sel])
  qed (simp_all add: keeps_signals_def counterpart_kept_def live_revoked_cells select_enter_def live_assigned_eq
      cell_new_def live_ownership_def revoke_def)
qed

text \<open>The processor is initialised and accepts the grant of the only cell.\<close>

lemma accept_only_cell:
  assumes "quiet_run n0 (idle_node d)" and cell: "dr_cells d = [c]" and "dr_out_open d" and "own_fresh (gc_own c)"
    and start: "node_start demo_consumer_env n0"
  shows "\<exists>n. nd_driver n = d \<and> node_at n0 c (range_new True) Step1 {} n"
proof -
  let ?p = "processor_init processor_new"
  let ?gid = "GrantId (pbg_id (gc_pb c))"
  let ?r = "run_new ?gid (demo_shard ''a'' ''m'') (gc_own c) (range_new True)"
  let ?n = "(idle_node d)\<lparr>nd_processor := ?p\<rparr>"
  have 1: "quiet_run n0 ?n"
    using quiet_next [OF assms(1) node_step.init] by (simp add: idle_node_def counterpart_kept_refl)
  let ?m = "?n\<lparr>nd_processor := ?p\<lparr>pr_runs := [?r]\<rparr>, nd_cells := [0]\<rparr>"
  have "node_step demo_consumer_env demo_factory ?n ?m"
    using node_step.accept [of 0 ?n ?gid demo_factory "demo_shard ''a'' ''m''" True "?p\<lparr>pr_runs := [?r]\<rparr>" demo_consumer_env]
    by (simp add: cell idle_node_def try_handle_def demo_factory_def processor_init_def processor_new_def
        range_fresh_def range_new_def)
  then have "quiet_run n0 ?m" by (rule quiet_next [OF 1]) (simp_all add: counterpart_kept_refl idle_node_def)
  then show ?thesis
    by (intro exI [of _ ?m]) (use quiet_flow [OF assms(1) start] in \<open>simp add: node_at_def idle_node_def cell run_new_def assms(3)\<close>)
qed

lemma live_accepted:
  "\<exists>n. node_at live_start (cell_new live_ownership live_grant) (range_new True) Step1 {} n"
  using accept_only_cell [OF live_node live_revoked_cells live_revoked_open _ idle_start]
  by (auto simp: cell_new_def live_ownership_def own_fresh_def revoke_def)

text \<open>From acceptance to the first report.\<close>

definition loaded_cell :: cell where
  "loaded_cell = (cell_new (load live_ownership) live_grant)\<lparr>gc_load := Finished\<rparr>"

lemma live_loaded:
  assumes "node_at n0 (cell_new live_ownership live_grant) (range_new True) Step1 {} n1"
  shows "\<exists>n. node_at n0 loaded_cell (range_new True) Step2Loaded {update_message live_grant pb_GrantState.AllocatedLoaded} n"
proof -
  let ?w = "cell_new live_ownership live_grant" and ?g = "range_new True"
  have w: "gc_own ?w = live_ownership" "gc_pb ?w = live_grant" by (simp_all add: cell_new_def)
  from node_at_move [OF assms, of Step2Allocate NoEffect]
  obtain n2 where "node_at n0 ?w ?g Step2Allocate {} n2"
    by (auto simp: w set_continue_or_bail live_signals)
  from node_at_move [OF this, of Step2 "Write GrantState.Allocated"]
  obtain n3 where "node_at n0 ?w ?g Step2 {} n3" by auto
  from node_at_move [OF this, of Step2Load NoEffect]
  obtain n4 where "node_at n0 ?w ?g Step2Load {} n4"
    by (auto simp: set_continue_or_bail range_new_def)
  from node_at_move [OF this, of Step2Loaded CallLoad]
  obtain n5 where n5: "node_at n0 (on_own load ?w) ?g Step2Loaded {} n5" by auto
  have "set_watcher LoadSignal Finished (on_own load ?w) = loaded_cell"
    by (simp add: loaded_cell_def on_own_def cell_new_def)
  with node_at_report [OF n5, of LoadSignal] show ?thesis by (simp add: w cell_new_def on_own_def)
qed

text \<open>From there to the second report.\<close>

definition drained_range :: "range" where
  "drained_range = (range_new True)
     \<lparr>rg_drain_calls := [from_secs 100], rg_drain_returned := True, rg_drained := close_latch fresh_latch\<rparr>"

lemma live_unloaded:
  assumes "node_at n0 (cell_new live_ownership live_grant) (range_new True) Step1 {} n"
  shows "\<exists>c g n. node_at n0 c g Step5Unloaded
     {update_message live_grant pb_GrantState.RevokedUnloaded, update_message live_grant pb_GrantState.AllocatedLoaded} n"
proof -
  let ?c = loaded_cell and ?g = "range_new True" and ?m = "{update_message live_grant pb_GrantState.AllocatedLoaded}"
  have own: "gc_own ?c = load live_ownership" "gc_pb ?c = live_grant" "watcher_of UnloadSignal ?c = Watching"
    by (simp_all add: loaded_cell_def cell_new_def)
  have lease: "time_left (ow_expiration (gc_own ?c)) 0 = from_secs 100"
    by (simp add: own live_ownership_def revoke_def ownership_new_def Let_def time_left_eq)
  obtain n1 where "node_at n0 ?c ?g Step2Loaded ?m n1" using live_loaded [OF assms] by blast
  from node_at_move [OF this, of Step3 "Write GrantState.AllocatedLoaded"]
  obtain n2 where "node_at n0 ?c ?g Step3 ?m n2" by auto
  from node_at_move [OF this, of Step3Activate NoEffect]
  obtain n3 where "node_at n0 ?c ?g Step3Activate ?m n3" by (auto simp: own set_continue_or_bail live_signals)
  from node_at_move [OF this, of Step4 "Write GrantState.Active"]
  obtain n4 where "node_at n0 ?c ?g Step4 ?m n4" by auto
  from node_at_move [OF this, of Step4Revoke NoEffect]
  obtain n5 where "node_at n0 ?c ?g Step4Revoke ?m n5" by (auto simp: own set_continue_or_bail live_signals)
  from node_at_move [OF this, of Step4Drain "Write GrantState.Revoked"]
  obtain n6 where "node_at n0 ?c ?g Step4Drain ?m n6" by auto
  from node_at_move [OF this, of Step4Draining "CallDrain (from_secs 100)"]
  obtain n7 where "node_at n0 ?c (?g\<lparr>rg_drain_calls := [from_secs 100]\<rparr>) Step4Draining ?m n7"
    by (auto simp: lease range_new_def)
  from node_at_user [OF this, of DrainReturns] node_at_user [of n0 ?c _ Step4Draining ?m _ DrainDone]
  obtain n8 where "node_at n0 ?c drained_range Step4Draining ?m n8"
    by (fastforce simp: drained_range_def range_new_def)
  from node_at_move [OF this, of Step5 NoEffect]
  obtain n9 where "node_at n0 ?c drained_range Step5 ?m n9" by (auto simp: drained_range_def)
  from node_at_move [OF this, of Step5Check NoEffect]
  obtain n10 where "node_at n0 ?c drained_range Step5Check ?m n10"
    by (auto simp: set_continue_or_bail drained_range_def)
  from node_at_move [OF this, of Step5Unload NoEffect]
  obtain n11 where "node_at n0 ?c drained_range Step5Unload ?m n11"
    by (auto simp: drained_range_def range_new_def)
  from node_at_move [OF this, of Step5Unloaded CallUnload]
  obtain n12 where n12: "node_at n0 (on_own unload ?c) drained_range Step5Unloaded ?m n12" by auto
  have "watcher_of UnloadSignal (on_own unload ?c) = Watching"
    using own(3) by (simp add: on_own_def)
  from node_at_report [OF n12 this] show ?thesis using own(2) by (auto simp: on_own_def)
qed

abbreviation demo_node_reach :: "node \<Rightarrow> bool" where
  "demo_node_reach \<equiv> reach (node_start demo_consumer_env) (node_step demo_consumer_env demo_factory)"

lemma live_reached:
  obtains c g n where "node_at live_start c g Step5Unloaded
     {update_message live_grant pb_GrantState.RevokedUnloaded, update_message live_grant pb_GrantState.AllocatedLoaded} n"
    "demo_node_reach n" "nd_cells n = [0]"
proof -
  obtain n1 where "node_at live_start (cell_new live_ownership live_grant) (range_new True) Step1 {} n1"
    using live_accepted by blast
  from live_unloaded [OF this] obtain c g n where n: "node_at live_start c g Step5Unloaded
     {update_message live_grant pb_GrantState.RevokedUnloaded, update_message live_grant pb_GrantState.AllocatedLoaded} n"
    by blast
  have "quiet_run live_start n" "nd_cells n = [0]" using n by (simp_all add: node_at_def)
  with that [OF n] quiet_reach [OF _ idle_start] show ?thesis by blast
qed

theorem node_refines_parts_witness:
  "\<exists>n. demo_node_reach n \<and> nd_cells n = [0]
     \<and> rn_own (pr_runs (nd_processor n) ! 0) = gc_own (dr_cells (nd_driver n) ! 0)"
proof (rule live_reached)
  fix c g n assume n: "demo_node_reach n" "nd_cells n = [0]"
  from node_refines_parts [OF n(1)] n show ?thesis by (intro exI [of _ n]) simp
qed

theorem updates_report_truth_witness:
  "\<exists>n. demo_node_reach n \<and> update_message live_grant pb_GrantState.RevokedUnloaded \<in> set (dr_outbound (nd_driver n))
     \<and> (\<exists>r \<in> set (pr_runs (nd_processor n)). rn_id r = GrantId ''g'' \<and> is_closed (rg_initialized (rn_range r))
          \<and> is_closed (rg_drained (rn_range r)))"
proof (rule live_reached)
  fix c g n assume n: "node_at live_start c g Step5Unloaded
      {update_message live_grant pb_GrantState.RevokedUnloaded, update_message live_grant pb_GrantState.AllocatedLoaded} n"
    and reached: "demo_node_reach n"
  have sent: "update_message live_grant pb_GrantState.RevokedUnloaded \<in> set (dr_outbound (nd_driver n))"
    using n by (simp add: node_at_def)
  have id: "pbg_id live_grant = ''g''" by (simp add: live_grant_def demo_pb_grant_def)
  from updates_report_truth [OF reached, of live_grant] sent reached show ?thesis
    by (intro exI [of _ n]) (auto simp: id)
qed

end
