(* ===== verification/ClientModel.thy ===== *)
theory ClientModel
  imports HandoverModel DispatcherModel
begin

text \<open>
  A whole client: a dispatcher whose only filter is a processor, as in the examples of the repository.
  The processor is the world of the chain, so \<open>init\<close> of the filter closes its latch. Each dispatched
  grant has a task \<open>run_chain\<close>; between its awaits anything else may happen, so the check for expiry,
  the offer, and the request for revocation are steps of their own, and a task that was accepted
  goes on as a run of the processor.
\<close>

section \<open>The processor as a filter\<close>

text \<open>\<open>try_handle\<close> of the filter, where it does not wait; a run then goes on by itself.\<close>

definition processor_filter ::
  "(GrantId \<Rightarrow> Shard \<Rightarrow> Ownership \<Rightarrow> range option) \<Rightarrow> processor DispatchFilter" where
  "processor_filter factory =
     \<lparr>df_init = processor_init,
      df_try_handle = (\<lambda>gid shard (w, p).
        case try_handle factory gid shard w p of
          None \<Rightarrow> (False, (w, p))
        | Some (b, p') \<Rightarrow> (b, (w, p')))\<rparr>"

section \<open>State and steps\<close>

text \<open>Where the task of a dispatched grant is.\<close>

datatype chain_task =
    Spawned
  | Offering     \<comment> \<open>past the check for expiry, waiting for the processor to be initialised\<close>
  | Declined     \<comment> \<open>the factory built no range\<close>
  | Kept         \<comment> \<open>goes on as a run of the processor\<close>
  | GivenBack
  | Skipped      \<comment> \<open>the grant had expired before\<close>

record 'ch client =
  cl_dsp :: "(processor, 'ch) dispatcher"
  cl_task :: "nat \<Rightarrow> chain_task"
  cl_cells :: "nat list"             \<comment> \<open>for each run of the processor the cell of its ownership\<close>

definition cl_driver :: "'ch client \<Rightarrow> driver" where
  "cl_driver c = ds_driver (cl_dsp c)"

definition cl_processor :: "'ch client \<Rightarrow> processor" where
  "cl_processor c = ds_user (cl_dsp c)"

definition client_node :: "'ch client \<Rightarrow> node" where
  "client_node c = \<lparr>nd_driver = cl_driver c, nd_processor = cl_processor c, nd_cells = cl_cells c\<rparr>"

definition set_processor :: "processor \<Rightarrow> 'ch client \<Rightarrow> 'ch client" where
  "set_processor p c = c\<lparr>cl_dsp := (cl_dsp c)\<lparr>ds_user := p\<rparr>\<rparr>"

text \<open>The driver or its cells change; the runs see their ownerships.\<close>

definition set_driver :: "driver \<Rightarrow> 'ch client \<Rightarrow> 'ch client" where
  "set_driver d c = c\<lparr>cl_dsp := (cl_dsp c)\<lparr>ds_driver := d, ds_user := share d (cl_cells c) (cl_processor c)\<rparr>\<rparr>"

definition set_task :: "nat \<Rightarrow> chain_task \<Rightarrow> 'ch client \<Rightarrow> 'ch client" where
  "set_task i t c = c\<lparr>cl_task := (cl_task c)(i := t)\<rparr>"

text \<open>The ownership of a dispatched grant.\<close>

definition task_own :: "'ch client \<Rightarrow> nat \<Rightarrow> Ownership" where
  "task_own c a = gc_own (dr_cells (cl_driver c) ! a)"

inductive client_step ::
  "dispatcher_env \<Rightarrow> (GrantId \<Rightarrow> Shard \<Rightarrow> Ownership \<Rightarrow> range option) \<Rightarrow> 'ch client \<Rightarrow> 'ch client \<Rightarrow> bool"
  for E :: dispatcher_env and factory :: "GrantId \<Rightarrow> Shard \<Rightarrow> Ownership \<Rightarrow> range option" where
  dispatcher: "dsp_step E [processor_filter factory] (cl_dsp c) s \<Longrightarrow>
     keeps_signals (cl_driver c) (ds_driver s) \<Longrightarrow>
     client_step E factory c (set_driver (ds_driver s) (c\<lparr>cl_dsp := s\<rparr>))"
| check: "i < length (ds_dispatched (cl_dsp c)) \<Longrightarrow> cl_task c i = Spawned \<Longrightarrow>
     ds_dispatched (cl_dsp c) ! i = (gid, shard, a) \<Longrightarrow>
     client_step E factory c
       (set_task i (if is_closed (ow_expired (task_own c a)) then Skipped else Offering) c)"
| offer: "i < length (ds_dispatched (cl_dsp c)) \<Longrightarrow> cl_task c i = Offering \<Longrightarrow>
     ds_dispatched (cl_dsp c) ! i = (gid, shard, a) \<Longrightarrow>
     try_handle factory gid shard (task_own c a) (cl_processor c) = Some (b, p) \<Longrightarrow>
     (\<And>g. factory gid shard (task_own c a) = Some g \<Longrightarrow> range_fresh g) \<Longrightarrow>
     client_step E factory c
       ((set_task i (if b then Kept else Declined) (set_processor p c))
          \<lparr>cl_cells := (if b then cl_cells c @ [a] else cl_cells c)\<rparr>)"
| give_back: "i < length (ds_dispatched (cl_dsp c)) \<Longrightarrow> cl_task c i = Declined \<Longrightarrow>
     ds_dispatched (cl_dsp c) ! i = (gid, shard, a) \<Longrightarrow>
     client_step E factory c
       (set_task i GivenBack (set_driver (on_cell a (on_own request_revoke) (cl_driver c)) c))"
| move: "i < length (pr_runs (cl_processor c)) \<Longrightarrow> mv \<in> set (moves now (pr_runs (cl_processor c) ! i)) \<Longrightarrow>
     client_step E factory c
       (c\<lparr>cl_dsp := (cl_dsp c)\<lparr>ds_driver := signal_effect (snd mv) (cl_cells c ! i) (cl_driver c),
                              ds_user := move_run i mv (cl_processor c)\<rparr>\<rparr>)"
| user_range: "i < length (pr_runs (cl_processor c)) \<Longrightarrow> r = pr_runs (cl_processor c) ! i \<Longrightarrow>
     client_step E factory c
       (set_processor (set_run i (r\<lparr>rn_range := range_apply x (rn_range r)\<rparr>) (cl_processor c)) c)"
| cancel: "i < length (pr_runs (cl_processor c)) \<Longrightarrow> r = pr_runs (cl_processor c) ! i \<Longrightarrow> at_await (rn_pc r) \<Longrightarrow>
     client_step E factory c (set_processor (set_run i (r\<lparr>rn_pc := Cleanup\<rparr>) (cl_processor c)) c)"

definition client_start ::
  "dispatcher_env \<Rightarrow> (GrantId \<Rightarrow> Shard \<Rightarrow> Ownership \<Rightarrow> range option) \<Rightarrow> 'ch client \<Rightarrow> bool" where
  "client_start E factory c \<longleftrightarrow>
     dsp_start E [processor_filter factory] processor_new (cl_dsp c)
     \<and> cl_task c = (\<lambda>i. Spawned) \<and> cl_cells c = []"

text \<open>
  Taken without interruption, the steps of a task do to the ownership and the processor what
  \<open>run_chain\<close> does.
\<close>

lemma run_chain_processor:
  "run_chain [processor_filter factory] gid shard (w, p) =
     (if is_closed (ow_expired w) then (w, p)
      else case try_handle factory gid shard w p of
             Some (True, p') \<Rightarrow> (w, p')
           | Some (False, p') \<Rightarrow> (request_revoke w, p')
           | None \<Rightarrow> (request_revoke w, p))"
  by (auto simp: run_chain_def processor_filter_def split: option.split prod.split bool.split)

end
