(* ===== verification/ClientLaws.thy ===== *)
theory ClientLaws
  imports ClientModel HandoverLaws DispatcherSystem
begin

text \<open>
  A client does with the grants of its stream what a stream and a processor do together: the assumption
  of \<open>node_step\<close> that a cell is accepted at most once is what the dispatcher guarantees. It follows
  what becomes of each dispatched grant.
\<close>

section \<open>Announced grants\<close>

text \<open>The grant of a cell has the id under which it was announced.\<close>

definition named :: "driver \<Rightarrow> bool" where
  "named d \<longleftrightarrow> map fst (assigned_of (dr_events d)) = map (\<lambda>c. GrantId (pbg_id (gc_pb c))) (dr_cells d)"

lemma named_cong: "dr_events d' = dr_events d \<Longrightarrow> dr_cells d' = dr_cells d \<Longrightarrow> named d' \<longleftrightarrow> named d"
  by (simp add: named_def)

lemma named_updates [simp]:
  "named (d\<lparr>dr_pc := c\<rparr>) \<longleftrightarrow> named d" "named (d\<lparr>dr_cluster := cm\<rparr>) \<longleftrightarrow> named d"
  "named (d\<lparr>dr_heartbeat := h\<rparr>) \<longleftrightarrow> named d" "named (d\<lparr>dr_closed := l\<rparr>) \<longleftrightarrow> named d"
  "named (d\<lparr>dr_shutdown := l\<rparr>) \<longleftrightarrow> named d" "named (d\<lparr>dr_out_open := b\<rparr>) \<longleftrightarrow> named d"
  "named (d\<lparr>dr_taken := n\<rparr>) \<longleftrightarrow> named d"
  "named (d\<lparr>dr_cluster_rx := b\<rparr>) \<longleftrightarrow> named d" "named (d\<lparr>dr_grants := m\<rparr>) \<longleftrightarrow> named d"
  "named (d\<lparr>dr_outbound := out\<rparr>) \<longleftrightarrow> named d" "named (snd (send_out msg d)) \<longleftrightarrow> named d"
  by (simp_all add: named_def)

lemma named_on_cell: "named d \<Longrightarrow> (\<And>c. gc_pb (f c) = gc_pb c) \<Longrightarrow> named (on_cell a f d)"
  unfolding named_def on_cell_same
  by (intro nth_equalityI) (auto dest: arg_cong [where f = length] simp: on_cell_nth nth_map dest: nth_map)

lemma named_remove: "named d \<Longrightarrow> named (remove_grant gid d)"
proof (cases "dr_grants d gid")
  case (Some entry)
  assume "named d"
  then have "named (on_cell (ag_ownership entry) (\<lambda>c. (on_own expire c)\<lparr>gc_aborted := True\<rparr>) d)"
    by (rule named_on_cell) simp
  moreover have "dr_cells (remove_grant gid d) = dr_cells (on_cell (ag_ownership entry) (\<lambda>c. (on_own expire c)\<lparr>gc_aborted := True\<rparr>) d)"
    by (rule nth_equalityI) (simp_all add: remove_grant_fields remove_grant_cell on_cell_nth Some)
  ultimately show ?thesis by (simp add: named_def remove_grant_fields Some)
qed (simp add: remove_grant_def)

lemma named_assign: "named d \<Longrightarrow> named (snd (on_assign now g d))"
proof (cases rule: on_assign_cases [of now g d])
  case (added shard expiration)
  assume "named d"
  then have "named (remove_grant (GrantId (pbg_id g)) d)" by (rule named_remove)
  then show ?thesis by (simp add: added named_def add_grant_def cell_new_def)
qed simp

lemma named_handlers:
  assumes "named d"
  shows "named (snd (on_promote g d))" "named (snd (on_revoke g d))" "named (on_notify n d)"
    "named (snd (on_extend E e d))"
proof -
  show "named (snd (on_promote g d))"
    using assms by (auto simp: on_promote_def Let_def intro!: named_on_cell split: option.split)
  show "named (snd (on_revoke g d))"
    using assms by (auto simp: on_revoke_def Let_def intro!: named_on_cell split: option.split sum.split)
  show "named (on_notify n d)"
    using assms by (auto simp: on_notify_def intro!: named_on_cell split: option.split GrantState.split)
  have one: "named d \<Longrightarrow> named (extend_one l gid d)" for l gid d
    by (auto simp: extend_one_def intro!: named_on_cell split: option.split)
  have "named d \<Longrightarrow> named (fold (extend_one l) gids d)" for l gids d
    by (induction gids arbitrary: d) (simp_all add: one)
  then show "named (snd (on_extend E e d))"
    using assms by (simp add: on_extend_def split: option.split sum.split)
qed

lemma named_inbound: "named d \<Longrightarrow> named (snd (handle_inbound E now msg d))"
  by (rule handle_inbound_keeps [where P = named]) (simp_all add: named_assign named_handlers)

lemma named_break: "named d \<Longrightarrow> named (break_loop E r d)"
proof -
  have "named d \<Longrightarrow> named (fold remove_grant gids d)" for gids d
    by (induction gids arbitrary: d) (auto intro: named_remove)
  then show "named d \<Longrightarrow> named (break_loop E r d)" by (simp add: break_loop_def clean_up_def Let_def)
qed

lemma named_inbound_branch: "named d \<Longrightarrow> named (inbound_branch E now i d)"
proof (cases i)
  case (Item msg)
  assume "named d"
  obtain r q where h: "handle_inbound E now msg d = (r, q)" by force
  then have "named q" using named_inbound [OF \<open>named d\<close>, of E now msg] by simp
  then show ?thesis by (auto simp: inbound_branch_def Item h split: sum.split fault.split option.split)
qed (simp_all add: inbound_branch_def named_break)

lemma timer_step_pb [simp]: "gc_pb (timer_step t c) = gc_pb c"
  by (simp add: timer_step_def split: timer.split)

lemma named_step:
  assumes "drv_step E d d'" and "named d"
  shows "named d'"
  using assms(1)
proof cases
  case leave
  then show ?thesis using assms(2) by (simp add: leave_branch_def)
next
  case part
  then show ?thesis using assms(2) by (simp add: part_branch_def named_break)
next
  case (beat now)
  then show ?thesis using assms(2) named_break
    by (auto simp: heartbeat_branch_def send_out_def intro!: named_break)
next
  case (inbound b now i)
  then show ?thesis using assms(2) by (simp add: named_inbound_branch)
qed (use assms(2) in \<open>auto simp: select_enter_def watcher_send_def intro!: named_on_cell\<close>)

lemma named_start: "drv_start E d \<Longrightarrow> named d"
  by (auto simp: drv_start_def join_def driver_new_def named_def)

interpretation naming: invariant_system "drv_start E" "drv_step E" named for E
  by unfold_locales (rule named_start, assumption, rule named_step)

section \<open>Dispatched grants\<close>

text \<open>Addresses of dispatched grants are those of cells, all different, with the right ids.\<close>

lemma dispatched_sub:
  assumes "route_inv s"
  shows "subseq (ds_dispatched s) (assigned_of (dr_events (ds_driver s)))"
proof -
  obtain post where "dr_events (ds_driver s) = take (ds_start s) (dr_events (ds_driver s)) @ passed s @ post"
    by (rule split_events)
  then have "assigned_of (dr_events (ds_driver s)) =
      assigned_of (take (ds_start s) (dr_events (ds_driver s))) @ assigned_of (passed s) @ assigned_of post"
    by (metis assigned_of_append)
  moreover have "subseq (ds_dispatched s) (assigned_of (passed s))" using assms by (simp add: route_inv_def)
  ultimately show ?thesis by (simp add: subseq_skip subseq_drop_many)
qed

lemma dispatched_distinct:
  assumes "route_inv s"
  shows "distinct (map (snd \<circ> snd) (ds_dispatched s))"
proof (rule subseq_distinct)
  show "subseq (map (snd \<circ> snd) (ds_dispatched s)) [0 ..< length (dr_cells (ds_driver s))]"
    using subseq_map [OF dispatched_sub [OF assms], of "snd \<circ> snd"] assms
    by (simp add: route_inv_def addressed_def)
qed simp

lemma dispatched_cell:
  assumes "route_inv s" and "named (ds_driver s)" and "(gid, shard, a) \<in> set (ds_dispatched s)"
  shows "a < length (dr_cells (ds_driver s))" and "gid = GrantId (pbg_id (gc_pb (dr_cells (ds_driver s) ! a)))"
proof -
  let ?as = "assigned_of (dr_events (ds_driver s))"
  have "(gid, shard, a) \<in> set ?as" using dispatched_sub [OF assms(1)] assms(3) by (auto dest: list_emb_set)
  then obtain j where j: "j < length ?as" "?as ! j = (gid, shard, a)" by (metis in_set_conv_nth)
  have adr: "map (snd \<circ> snd) ?as = [0 ..< length (dr_cells (ds_driver s))]"
    using assms(1) by (simp add: route_inv_def addressed_def)
  then have len: "length ?as = length (dr_cells (ds_driver s))" by (metis length_map length_upt minus_nat.diff_0)
  have "map (snd \<circ> snd) ?as ! j = a" using j by simp
  then have "a = j" using adr j(1) len by simp
  then show "a < length (dr_cells (ds_driver s))" using j(1) len by simp
  have "gid = map fst ?as ! j" using j by simp
  also have "\<dots> = map (\<lambda>c. GrantId (pbg_id (gc_pb c))) (dr_cells (ds_driver s)) ! j"
    using assms(2) by (simp add: named_def)
  finally show "gid = GrantId (pbg_id (gc_pb (dr_cells (ds_driver s) ! a)))"
    using \<open>a = j\<close> j(1) len by simp
qed

section \<open>Steps of the dispatcher\<close>

lemma dsp_effect:
  assumes "dsp_step E [processor_filter factory] s t"
  shows "(\<exists>xs. ds_dispatched t = ds_dispatched s @ xs)
    \<and> ((ds_driver t = ds_driver s \<and> ds_user t = ds_user s)
       \<or> (ds_driver t = ds_driver s \<and> ds_user t = processor_init (ds_user s))
       \<or> (drv_step (de_consumer E) (ds_driver s) (ds_driver t) \<and> ds_user t = ds_user s))"
  using assms
proof cases
  case (route r p)
  then show ?thesis by (auto simp: route_def split: received.split GrantEvent.split)
next
  case (init k)
  then show ?thesis by (simp add: init_filter_def processor_filter_def)
next
  case drain
  have "drv_step (de_consumer E) (ds_driver s) ((ds_driver s)\<lparr>dr_shutdown := close_latch (dr_shutdown (ds_driver s))\<rparr>)"
    by (rule drv_step.request_shutdown)
  then show ?thesis by (simp add: drain drain_start_def)
qed (simp_all add: seed_pool_def start_tasks_def updater_read_def updater_apply_def watcher_close_def
      drain_end_def drop_dispatcher_def stop_tasks_def Let_def)

lemma share_id:
  assumes "node_link n"
  shows "share (nd_driver n) (nd_cells n) (nd_processor n) = nd_processor n"
proof -
  have "shared_run (nd_driver n) (nd_cells n) (nd_processor n) i = pr_runs (nd_processor n) ! i"
    if "i < length (pr_runs (nd_processor n))" for i
    using node_linkD(4) [OF assms that] by (simp add: shared_run_def)
  then have "pr_runs (share (nd_driver n) (nd_cells n) (nd_processor n)) = pr_runs (nd_processor n)"
    unfolding share_runs [OF node_linkD(1) [OF assms]] by (intro nth_equalityI) simp_all
  then show ?thesis by (simp add: share_def)
qed

lemma share_init: "share d as (processor_init p) = processor_init (share d as p)"
  by (simp add: share_def processor_init_def)

text \<open>Latches of existing cells only close.\<close>

definition cells_le :: "driver \<Rightarrow> driver \<Rightarrow> bool" where
  "cells_le d d' \<longleftrightarrow> length (dr_cells d) \<le> length (dr_cells d')
     \<and> (\<forall>a < length (dr_cells d). own_le (gc_own (dr_cells d ! a)) (gc_own (dr_cells d' ! a)))"

lemma cells_le_refl [simp]: "cells_le d d"
  by (simp add: cells_le_def)

lemma evolves_cells_le: "evolves d d' \<Longrightarrow> cells_le d d'"
  using own_run_le by (fastforce simp: cells_le_def evolves_def)

lemma on_cell_le: "(\<And>w. own_le w (f w)) \<Longrightarrow> cells_le d (on_cell a (on_own f) d)"
  by (simp add: cells_le_def on_cell_nth)

lemma own_le_user:
  "own_le w (load w)" "own_le w (unload w)" "own_le w (request_revoke w)"
  using own_apply_le [of w own_op.Load] own_apply_le [of w own_op.Unload] own_apply_le [of w own_op.RequestRevoke]
  by simp_all

lemma signal_effect_le: "cells_le d (signal_effect e a d)"
  by (cases e) (simp_all add: on_cell_le own_le_user)

section \<open>Tasks\<close>

fun task_ok :: "chain_task \<Rightarrow> Ownership \<Rightarrow> bool" where
  "task_ok Skipped w \<longleftrightarrow> is_closed (ow_expired w)"
| "task_ok GivenBack w \<longleftrightarrow> is_closed (ow_request_revoke w)"
| "task_ok _ w \<longleftrightarrow> True"

definition task_inv :: "'ch client \<Rightarrow> bool" where
  "task_inv c \<longleftrightarrow>
     (\<forall>i \<ge> length (ds_dispatched (cl_dsp c)). cl_task c i = Spawned)
     \<and> (\<forall>i < length (ds_dispatched (cl_dsp c)). cl_task c i = Kept \<longrightarrow>
          snd (snd (ds_dispatched (cl_dsp c) ! i)) \<in> set (cl_cells c))
     \<and> (\<forall>j < length (cl_cells c). \<exists>i < length (ds_dispatched (cl_dsp c)). cl_task c i = Kept
          \<and> ds_dispatched (cl_dsp c) ! i =
              (rn_id (pr_runs (cl_processor c) ! j), rn_shard (pr_runs (cl_processor c) ! j), cl_cells c ! j))
     \<and> (\<forall>i < length (ds_dispatched (cl_dsp c)).
          task_ok (cl_task c i) (task_own c (snd (snd (ds_dispatched (cl_dsp c) ! i)))))"

lemma task_invD:
  assumes "task_inv c"
  shows "length (ds_dispatched (cl_dsp c)) \<le> i \<Longrightarrow> cl_task c i = Spawned"
    and "i < length (ds_dispatched (cl_dsp c)) \<Longrightarrow> cl_task c i = Kept \<Longrightarrow>
      snd (snd (ds_dispatched (cl_dsp c) ! i)) \<in> set (cl_cells c)"
    and "j < length (cl_cells c) \<Longrightarrow> \<exists>i < length (ds_dispatched (cl_dsp c)). cl_task c i = Kept
      \<and> ds_dispatched (cl_dsp c) ! i =
          (rn_id (pr_runs (cl_processor c) ! j), rn_shard (pr_runs (cl_processor c) ! j), cl_cells c ! j)"
    and "i < length (ds_dispatched (cl_dsp c)) \<Longrightarrow>
      task_ok (cl_task c i) (task_own c (snd (snd (ds_dispatched (cl_dsp c) ! i))))"
  using assms unfolding task_inv_def by blast+

lemma task_ok_mono: "task_ok t w \<Longrightarrow> own_le w w' \<Longrightarrow> task_ok t w'"
  by (cases t) (auto dest: own_leD)

lemma kept_iff:
  assumes "task_inv c" and "distinct (map (snd \<circ> snd) (ds_dispatched (cl_dsp c)))"
    and "i < length (ds_dispatched (cl_dsp c))"
  shows "snd (snd (ds_dispatched (cl_dsp c) ! i)) \<in> set (cl_cells c) \<longleftrightarrow> cl_task c i = Kept"
proof
  let ?ds = "ds_dispatched (cl_dsp c)"
  assume "snd (snd (?ds ! i)) \<in> set (cl_cells c)"
  then obtain j where j: "j < length (cl_cells c)" "cl_cells c ! j = snd (snd (?ds ! i))" by (metis in_set_conv_nth)
  obtain i' where i': "i' < length ?ds" "cl_task c i' = Kept" "snd (snd (?ds ! i')) = cl_cells c ! j"
    using task_invD(3) [OF assms(1) j(1)] by force
  have "map (snd \<circ> snd) ?ds ! i' = map (snd \<circ> snd) ?ds ! i" using i' j(2) assms(3) by simp
  then have "i' = i" using nth_eq_iff_index_eq [OF assms(2), of i' i] i'(1) assms(3) by simp
  with i'(2) show "cl_task c i = Kept" by simp
qed (rule task_invD(2) [OF assms(1,3)])

text \<open>Steps after which the tasks stand as before: more may be dispatched and latches may close.\<close>

lemma task_inv_frame:
  assumes "task_inv c" and "cl_task c' = cl_task c" and "cl_cells c' = cl_cells c"
    and "ds_dispatched (cl_dsp c') = ds_dispatched (cl_dsp c) @ xs"
    and "\<And>j. j < length (cl_cells c) \<Longrightarrow> rn_id (pr_runs (cl_processor c') ! j) = rn_id (pr_runs (cl_processor c) ! j)
      \<and> rn_shard (pr_runs (cl_processor c') ! j) = rn_shard (pr_runs (cl_processor c) ! j)"
    and "cells_le (cl_driver c) (cl_driver c')"
    and "\<And>i. i < length (ds_dispatched (cl_dsp c)) \<Longrightarrow> snd (snd (ds_dispatched (cl_dsp c) ! i)) < length (dr_cells (cl_driver c))"
  shows "task_inv c'"
  unfolding task_inv_def assms(2,3,4)
proof (intro conjI allI impI)
  let ?ds = "ds_dispatched (cl_dsp c)"
  fix i assume "length (?ds @ xs) \<le> i"
  then show "cl_task c i = Spawned" by (intro task_invD(1) [OF assms(1)]) simp
next
  let ?ds = "ds_dispatched (cl_dsp c)"
  fix i assume i: "i < length (?ds @ xs)" and kept: "cl_task c i = Kept"
  have "i < length ?ds" using task_invD(1) [OF assms(1), of i] kept by (cases "i < length ?ds") auto
  with task_invD(2) [OF assms(1) this kept] show "snd (snd ((?ds @ xs) ! i)) \<in> set (cl_cells c)"
    by (simp add: nth_append)
next
  let ?ds = "ds_dispatched (cl_dsp c)"
  fix j assume j: "j < length (cl_cells c)"
  from task_invD(3) [OF assms(1) j] obtain i where "i < length ?ds" "cl_task c i = Kept"
    "?ds ! i = (rn_id (pr_runs (cl_processor c) ! j), rn_shard (pr_runs (cl_processor c) ! j), cl_cells c ! j)" by blast
  then show "\<exists>i < length (?ds @ xs). cl_task c i = Kept \<and> (?ds @ xs) ! i =
      (rn_id (pr_runs (cl_processor c') ! j), rn_shard (pr_runs (cl_processor c') ! j), cl_cells c ! j)"
    using assms(5) [OF j] by (intro exI [of _ i]) (simp add: nth_append)
next
  let ?ds = "ds_dispatched (cl_dsp c)"
  fix i assume "i < length (?ds @ xs)"
  show "task_ok (cl_task c i) (task_own c' (snd (snd ((?ds @ xs) ! i))))"
  proof (cases "i < length ?ds")
    case True
    have "own_le (task_own c (snd (snd (?ds ! i)))) (task_own c' (snd (snd (?ds ! i))))"
      using assms(6) assms(7) [OF True] by (simp add: cells_le_def task_own_def)
    with task_ok_mono [OF task_invD(4) [OF assms(1) True]] True show ?thesis by (simp add: nth_append)
  next
    case False
    with task_invD(1) [OF assms(1), of i] show ?thesis by simp
  qed
qed

section \<open>Refinement\<close>

definition client_inv :: "'ch client \<Rightarrow> bool" where
  "client_inv c \<longleftrightarrow> route_inv (cl_dsp c) \<and> task_inv c"

lemma client_simps [simp]:
  "cl_driver (set_driver d c) = d" "cl_processor (set_driver d c) = share d (cl_cells c) (cl_processor c)"
  "cl_driver (set_processor p c) = cl_driver c" "cl_processor (set_processor p c) = p"
  "cl_driver (set_task i t c) = cl_driver c" "cl_processor (set_task i t c) = cl_processor c"
  "cl_driver (c\<lparr>cl_cells := as\<rparr>) = cl_driver c" "cl_processor (c\<lparr>cl_cells := as\<rparr>) = cl_processor c"
  "cl_cells (set_driver d c) = cl_cells c" "cl_cells (set_processor p c) = cl_cells c"
  "cl_cells (set_task i t c) = cl_cells c" "cl_task (set_driver d c) = cl_task c"
  "cl_task (set_processor p c) = cl_task c" "cl_task (set_task i t c) = (cl_task c)(i := t)"
  "ds_dispatched (cl_dsp (set_driver d c)) = ds_dispatched (cl_dsp c)"
  "ds_dispatched (cl_dsp (set_processor p c)) = ds_dispatched (cl_dsp c)"
  "cl_dsp (set_task i t c) = cl_dsp c"
  by (simp_all add: cl_driver_def cl_processor_def set_driver_def set_processor_def set_task_def)

lemma client_node_simps [simp]:
  "nd_driver (client_node c) = cl_driver c" "nd_processor (client_node c) = cl_processor c"
  "nd_cells (client_node c) = cl_cells c"
  by (simp_all add: client_node_def)

text \<open>The router does not look at the processor, nor at what is in the cells.\<close>

lemma route_inv_same:
  assumes "route_inv s" and "dr_events d = dr_events (ds_driver s)"
    and "length (dr_cells d) = length (dr_cells (ds_driver s))"
  shows "route_inv (s\<lparr>ds_driver := d, ds_user := p\<rparr>)"
  by (rule route_inv_cong [OF _ _ _ _ _ _ _ assms(1)]) (simp_all add: assms(2,3))

lemma signal_effect_same [simp]:
  "dr_events (signal_effect e a d) = dr_events d" "length (dr_cells (signal_effect e a d)) = length (dr_cells d)"
  by (cases e; simp)+

text \<open>What is known of a client whose node is reachable.\<close>

lemma client_known:
  assumes inv: "client_inv c" and node: "reach (node_start E) (node_step E factory) (client_node c)"
  shows "node_link (client_node c)" and "named (cl_driver c)"
    and "i < length (ds_dispatched (cl_dsp c)) \<Longrightarrow> ds_dispatched (cl_dsp c) ! i = (gid, shard, a) \<Longrightarrow>
      a < length (dr_cells (cl_driver c)) \<and> gid = GrantId (pbg_id (gc_pb (dr_cells (cl_driver c) ! a)))"
    and "i < length (ds_dispatched (cl_dsp c)) \<Longrightarrow> ds_dispatched (cl_dsp c) ! i = (gid, shard, a) \<Longrightarrow>
      a \<in> set (cl_cells c) \<longleftrightarrow> cl_task c i = Kept"
proof -
  have ni: "node_inv E (client_node c)" by (rule node_system.reach_inv [OF node])
  then show link: "node_link (client_node c)" by (simp add: node_inv_def)
  have d: "reach (drv_start E) (drv_step E) (cl_driver c)" using ni by (simp add: node_inv_def)
  show named: "named (cl_driver c)" by (rule naming.reach_inv [OF d])
  have route: "route_inv (cl_dsp c)" and tasks: "task_inv c" using inv by (simp_all add: client_inv_def)
  assume i: "i < length (ds_dispatched (cl_dsp c))" "ds_dispatched (cl_dsp c) ! i = (gid, shard, a)"
  then have mem: "(gid, shard, a) \<in> set (ds_dispatched (cl_dsp c))" by (metis nth_mem)
  show "a < length (dr_cells (cl_driver c)) \<and> gid = GrantId (pbg_id (gc_pb (dr_cells (cl_driver c) ! a)))"
    using dispatched_cell [OF route named [unfolded cl_driver_def] mem] by (simp add: cl_driver_def)
  show "a \<in> set (cl_cells c) \<longleftrightarrow> cl_task c i = Kept"
    using kept_iff [OF tasks dispatched_distinct [OF route] i(1)] by (simp add: i(2))
qed

lemma dispatched_address:
  assumes "client_inv c" and "reach (node_start E) (node_step E factory) (client_node c)"
    and "i < length (ds_dispatched (cl_dsp c))"
  shows "snd (snd (ds_dispatched (cl_dsp c) ! i)) < length (dr_cells (cl_driver c))"
  using client_known(3) [OF assms] by (cases "ds_dispatched (cl_dsp c) ! i") auto

lemma run_kept:
  "rn_id (pr_runs (share d as p) ! j) = rn_id (pr_runs p ! j)"
  "rn_shard (pr_runs (share d as p) ! j) = rn_shard (pr_runs p ! j)"
  if "j < length (pr_runs p)" "length as = length (pr_runs p)"
  using that by (simp_all add: share_runs shared_run_def)

text \<open>A new driver or processor keeps the tasks as they are.\<close>

lemma client_inv_driver:
  assumes inv: "client_inv c" and node: "reach (node_start E) (node_step E factory) (client_node c)"
    and s: "route_inv s" "ds_dispatched s = ds_dispatched (cl_dsp c) @ xs"
      "ds_user s = cl_processor c \<or> ds_user s = processor_init (cl_processor c)"
    and le: "cells_le (cl_driver c) (ds_driver s)"
  shows "client_inv (set_driver (ds_driver s) (c\<lparr>cl_dsp := s\<rparr>))"
  unfolding client_inv_def
proof (intro conjI)
  have len: "length (cl_cells c) = length (pr_runs (cl_processor c))"
    using node_linkD(1) [OF client_known(1) [OF inv node]] by simp
  show "route_inv (cl_dsp (set_driver (ds_driver s) (c\<lparr>cl_dsp := s\<rparr>)))"
    using route_inv_same [OF s(1), of "ds_driver s"] by (simp add: set_driver_def)
  show "task_inv (set_driver (ds_driver s) (c\<lparr>cl_dsp := s\<rparr>))"
  proof (rule task_inv_frame)
    show "task_inv c" using inv by (simp add: client_inv_def)
    show "snd (snd (ds_dispatched (cl_dsp c) ! i)) < length (dr_cells (cl_driver c))"
      if "i < length (ds_dispatched (cl_dsp c))" for i
      by (rule dispatched_address [OF inv node that])
    have "pr_runs (ds_user s) = pr_runs (cl_processor c)" using s(3) by (auto simp: processor_init_def)
    then show "rn_id (pr_runs (cl_processor (set_driver (ds_driver s) (c\<lparr>cl_dsp := s\<rparr>))) ! j) = rn_id (pr_runs (cl_processor c) ! j)
        \<and> rn_shard (pr_runs (cl_processor (set_driver (ds_driver s) (c\<lparr>cl_dsp := s\<rparr>))) ! j) = rn_shard (pr_runs (cl_processor c) ! j)"
      if "j < length (cl_cells c)" for j
      using that len run_kept [of j "ds_user s" "cl_cells c" "ds_driver s"]
      by (simp add: cl_processor_def [of "c\<lparr>cl_dsp := s\<rparr>"])
  qed (use s(2) le in simp_all)
qed

lemma client_inv_runs:
  assumes inv: "client_inv c" and node: "reach (node_start E) (node_step E factory) (client_node c)"
    and d: "dr_events d = dr_events (cl_driver c)" "length (dr_cells d) = length (dr_cells (cl_driver c))"
      "cells_le (cl_driver c) d"
    and p: "\<And>j. j < length (cl_cells c) \<Longrightarrow> rn_id (pr_runs p ! j) = rn_id (pr_runs (cl_processor c) ! j)
      \<and> rn_shard (pr_runs p ! j) = rn_shard (pr_runs (cl_processor c) ! j)"
  shows "client_inv (c\<lparr>cl_dsp := (cl_dsp c)\<lparr>ds_driver := d, ds_user := p\<rparr>\<rparr>)"
  unfolding client_inv_def
proof (intro conjI)
  show "route_inv (cl_dsp (c\<lparr>cl_dsp := (cl_dsp c)\<lparr>ds_driver := d, ds_user := p\<rparr>\<rparr>))"
    using inv d by (simp add: client_inv_def route_inv_same cl_driver_def)
  show "task_inv (c\<lparr>cl_dsp := (cl_dsp c)\<lparr>ds_driver := d, ds_user := p\<rparr>\<rparr>)"
    by (rule task_inv_frame [where c = c and xs = "[]"])
      (use inv d p dispatched_address [OF inv node] in
        \<open>simp_all add: client_inv_def cl_driver_def cl_processor_def\<close>)
qed

text \<open>A task moves on.\<close>

lemma client_inv_task:
  assumes inv: "client_inv c" and i: "i < length (ds_dispatched (cl_dsp c))"
    and "cl_task c i \<noteq> Kept" and "t \<noteq> Kept" and "task_ok t (task_own c (snd (snd (ds_dispatched (cl_dsp c) ! i))))"
  shows "client_inv (set_task i t c)"
proof -
  have tasks: "task_inv c" and "route_inv (cl_dsp c)" using inv by (simp_all add: client_inv_def)
  moreover have "task_inv (set_task i t c)"
    unfolding task_inv_def
  proof (intro conjI allI impI)
    show "cl_task (set_task i t c) j = Spawned" if "length (ds_dispatched (cl_dsp (set_task i t c))) \<le> j" for j
      using task_invD(1) [OF tasks, of j] that i by auto
    show "snd (snd (ds_dispatched (cl_dsp (set_task i t c)) ! j)) \<in> set (cl_cells (set_task i t c))"
      if "j < length (ds_dispatched (cl_dsp (set_task i t c)))" "cl_task (set_task i t c) j = Kept" for j
      using task_invD(2) [OF tasks, of j] that assms(4) by (simp split: if_splits)
    show "task_ok (cl_task (set_task i t c) j) (task_own (set_task i t c) (snd (snd (ds_dispatched (cl_dsp (set_task i t c)) ! j))))"
      if "j < length (ds_dispatched (cl_dsp (set_task i t c)))" for j
      using task_invD(4) [OF tasks, of j] that assms(5) by (simp add: task_own_def)
    fix j assume "j < length (cl_cells (set_task i t c))"
    then obtain k where "k < length (ds_dispatched (cl_dsp c))" "cl_task c k = Kept"
      "ds_dispatched (cl_dsp c) ! k =
         (rn_id (pr_runs (cl_processor c) ! j), rn_shard (pr_runs (cl_processor c) ! j), cl_cells c ! j)"
      using task_invD(3) [OF tasks, of j] by auto
    moreover from this have "k \<noteq> i" using assms(3) by blast
    ultimately show "\<exists>k < length (ds_dispatched (cl_dsp (set_task i t c))). cl_task (set_task i t c) k = Kept
        \<and> ds_dispatched (cl_dsp (set_task i t c)) ! k =
            (rn_id (pr_runs (cl_processor (set_task i t c)) ! j), rn_shard (pr_runs (cl_processor (set_task i t c)) ! j),
             cl_cells (set_task i t c) ! j)"
      by (intro exI [of _ k]) simp
  qed
  ultimately show ?thesis by (simp add: client_inv_def)
qed

text \<open>A task is accepted and goes on as a new run.\<close>

lemma client_inv_accept:
  assumes inv: "client_inv c" and i: "i < length (ds_dispatched (cl_dsp c))"
    and entry: "ds_dispatched (cl_dsp c) ! i = (gid, shard, a)" and off: "cl_task c i \<noteq> Kept"
    and len: "length (cl_cells c) = length (pr_runs (cl_processor c))"
    and p: "p = (cl_processor c)\<lparr>pr_runs := pr_runs (cl_processor c) @ [run_new gid shard w g]\<rparr>"
  shows "client_inv ((set_task i Kept (set_processor p c))\<lparr>cl_cells := cl_cells c @ [a]\<rparr>)"
proof -
  let ?c = "(set_task i Kept (set_processor p c))\<lparr>cl_cells := cl_cells c @ [a]\<rparr>"
  let ?ds = "ds_dispatched (cl_dsp c)"
  have tasks: "task_inv c" and route: "route_inv (cl_dsp c)" using inv by (simp_all add: client_inv_def)
  have "route_inv (cl_dsp ?c)"
    using route_inv_same [OF route, of "ds_driver (cl_dsp c)"] by (simp add: set_processor_def)
  moreover have "task_inv ?c"
    unfolding task_inv_def
  proof (intro conjI allI impI)
    show "cl_task ?c j = Spawned" if "length (ds_dispatched (cl_dsp ?c)) \<le> j" for j
      using task_invD(1) [OF tasks, of j] that i by auto
    show "snd (snd (ds_dispatched (cl_dsp ?c) ! j)) \<in> set (cl_cells ?c)"
      if "j < length (ds_dispatched (cl_dsp ?c))" "cl_task ?c j = Kept" for j
      using task_invD(2) [OF tasks, of j] that entry by (auto split: if_splits)
    show "task_ok (cl_task ?c j) (task_own ?c (snd (snd (ds_dispatched (cl_dsp ?c) ! j))))"
      if "j < length (ds_dispatched (cl_dsp ?c))" for j
      using task_invD(4) [OF tasks, of j] that by (simp add: task_own_def)
    fix j assume "j < length (cl_cells ?c)"
    then consider "j < length (cl_cells c)" | "j = length (cl_cells c)" by fastforce
    then show "\<exists>k < length (ds_dispatched (cl_dsp ?c)). cl_task ?c k = Kept
        \<and> ds_dispatched (cl_dsp ?c) ! k =
            (rn_id (pr_runs (cl_processor ?c) ! j), rn_shard (pr_runs (cl_processor ?c) ! j), cl_cells ?c ! j)"
    proof cases
      case 1
      from task_invD(3) [OF tasks 1] obtain k where "k < length ?ds" "cl_task c k = Kept"
        "?ds ! k = (rn_id (pr_runs (cl_processor c) ! j), rn_shard (pr_runs (cl_processor c) ! j), cl_cells c ! j)"
        by blast
      with 1 len show ?thesis by (intro exI [of _ k]) (simp add: p nth_append)
    next
      case 2
      with i entry len show ?thesis by (intro exI [of _ i]) (simp add: p run_new_def nth_append)
    qed
  qed
  ultimately show ?thesis by (simp add: client_inv_def)
qed

lemma task_own_mem: "task_own c a = gc_own (dr_cells (nd_driver (client_node c)) ! a)"
  by (simp add: task_own_def)

text \<open>A step of a client is one of the composition, or changes nothing there.\<close>

lemma client_refine_step:
  assumes recv: "broadcast_ok (de_recv E)" and inv: "client_inv c"
    and node: "reach (node_start (de_consumer E)) (node_step (de_consumer E) factory) (client_node c)"
    and step: "client_step E factory c c'"
  shows "client_inv c' \<and> (client_node c' = client_node c
    \<or> node_step (de_consumer E) factory (client_node c) (client_node c'))"
proof -
  let ?step = "node_step (de_consumer E) factory"
  have link: "node_link (client_node c)" by (rule client_known(1) [OF inv node])
  have len: "length (cl_cells c) = length (pr_runs (cl_processor c))"
    using node_linkD(1) [OF link] by simp
  have shared: "share (cl_driver c) (cl_cells c) (cl_processor c) = cl_processor c"
    using share_id [OF link] by simp
  have tasks: "task_inv c" and route: "route_inv (cl_dsp c)" using inv by (simp_all add: client_inv_def)
  from step show ?thesis
  proof cases
    case (dispatcher s)
    have r: "route_inv s" by (rule route_inv_step [OF recv route dispatcher(2)])
    note eff = dsp_effect [OF dispatcher(2), folded cl_driver_def cl_processor_def]
    obtain xs where xs: "ds_dispatched s = ds_dispatched (cl_dsp c) @ xs" using eff by blast
    consider (same) "ds_driver s = cl_driver c" "ds_user s = cl_processor c"
      | (init) "ds_driver s = cl_driver c" "ds_user s = processor_init (cl_processor c)"
      | (driver) "drv_step (de_consumer E) (cl_driver c) (ds_driver s)" "ds_user s = cl_processor c"
      using eff by blast
    then show ?thesis
    proof cases
      case same
      have "client_node c' = client_node c"
        by (simp add: dispatcher(1) client_node_def) (simp add: same shared cl_processor_def [of "c\<lparr>cl_dsp := s\<rparr>"])
      with client_inv_driver [OF inv node r xs] same show ?thesis by (simp add: dispatcher(1))
    next
      case init
      have "client_node c' = (client_node c)\<lparr>nd_processor := processor_init (cl_processor c)\<rparr>"
        by (simp add: dispatcher(1) client_node_def)
          (simp add: init shared share_init cl_processor_def [of "c\<lparr>cl_dsp := s\<rparr>"])
      moreover have "?step (client_node c) ((client_node c)\<lparr>nd_processor := processor_init (cl_processor c)\<rparr>)"
        using node_step.init [of _ _ "client_node c"] by simp
      ultimately show ?thesis
        using client_inv_driver [OF inv node r xs] init by (simp add: dispatcher(1))
    next
      case driver
      have ev: "evolves (cl_driver c) (ds_driver s)" by (rule driver_step_evolves [OF driver(1) dispatcher(3)])
      have "client_node c' = (client_node c)\<lparr>nd_driver := ds_driver s,
          nd_processor := share (ds_driver s) (cl_cells c) (cl_processor c)\<rparr>"
        by (simp add: dispatcher(1) client_node_def) (simp add: driver(2) cl_processor_def [of "c\<lparr>cl_dsp := s\<rparr>"])
      moreover have "?step (client_node c) ((client_node c)\<lparr>nd_driver := ds_driver s,
          nd_processor := share (ds_driver s) (cl_cells c) (cl_processor c)\<rparr>)"
        using node_step.stream [of _ "client_node c" "ds_driver s"] driver(1) dispatcher(3) by simp
      ultimately show ?thesis
        using client_inv_driver [OF inv node r xs _ evolves_cells_le [OF ev]] driver(2)
        by (simp add: dispatcher(1))
    qed
  next
    case (check i gid shard a)
    have "client_node c' = client_node c" by (simp add: check(1) client_node_def)
    moreover have "client_inv c'"
      unfolding check(1) by (rule client_inv_task [OF inv check(2)]) (simp_all add: check(3,4))
    ultimately show ?thesis by simp
  next
    case (offer i gid shard a b p)
    note known = client_known(3,4) [OF inv node offer(2,4)]
    have fresh: "a \<notin> set (cl_cells c)" using known(2) offer(3) by simp
    have "?step (client_node c) ((client_node c)\<lparr>nd_processor := p,
        nd_cells := (if b then cl_cells c @ [a] else cl_cells c)\<rparr>)"
      using node_step.accept [of a "client_node c" gid factory shard b p "de_consumer E"]
        known(1) fresh offer(5,6) by (simp add: task_own_def split: if_splits)
    moreover have "client_node c' = (client_node c)\<lparr>nd_processor := p,
        nd_cells := (if b then cl_cells c @ [a] else cl_cells c)\<rparr>"
      by (simp add: offer(1) client_node_def)
    moreover have "client_inv c'"
      using offer(5)
    proof (cases rule: accept_runs)
      case rejected
      then have "c' = set_task i Declined c"
        by (simp add: offer(1) set_task_def set_processor_def cl_processor_def)
      with client_inv_task [OF inv offer(2), of Declined] offer(3) show ?thesis by simp
    next
      case (accepted g)
      then have "c' = (set_task i Kept (set_processor p c))\<lparr>cl_cells := cl_cells c @ [a]\<rparr>" by (simp add: offer(1))
      with client_inv_accept [OF inv offer(2,4) _ len accepted(3)] offer(3) show ?thesis by simp
    qed
    ultimately show ?thesis by simp
  next
    case (give_back i gid shard a)
    let ?d = "on_cell a (on_own request_revoke) (cl_driver c)"
    have a: "a < length (dr_cells (cl_driver c))" using client_known(3) [OF inv node give_back(2,4)] by simp
    have "on_own (own_apply own_op.RequestRevoke) = on_own request_revoke" by (simp add: on_own_def fun_eq_iff)
    then have "drv_step (de_consumer E) (cl_driver c) ?d"
      using drv_step.user [OF a, of own_op.RequestRevoke "de_consumer E"] by (simp add: user_op_def)
    moreover have "keeps_signals (cl_driver c) ?d"
      by (auto simp: keeps_signals_def on_cell_nth request_revoke_def)
    ultimately have "?step (client_node c) ((client_node c)\<lparr>nd_driver := ?d, nd_processor := share ?d (cl_cells c) (cl_processor c)\<rparr>)"
      using node_step.stream [of _ "client_node c" ?d] by simp
    moreover have "client_node c' = (client_node c)\<lparr>nd_driver := ?d, nd_processor := share ?d (cl_cells c) (cl_processor c)\<rparr>"
      by (simp add: give_back(1) client_node_def)
    moreover have "client_inv c'"
    proof -
      let ?c = "set_driver ?d c"
      have "client_inv (c\<lparr>cl_dsp := (cl_dsp c)\<lparr>ds_driver := ?d, ds_user := share ?d (cl_cells c) (cl_processor c)\<rparr>\<rparr>)"
        by (rule client_inv_runs [OF inv node]) (simp_all add: on_cell_le own_le_user run_kept len)
      then have "client_inv ?c" by (simp add: set_driver_def)
      moreover have "is_closed (ow_request_revoke (task_own ?c a))"
        using a by (simp add: task_own_def on_cell_nth request_revoke_def)
      ultimately show ?thesis
        unfolding give_back(1)
        by (intro client_inv_task) (simp_all add: give_back(2,3,4))
    qed
    ultimately show ?thesis by simp
  next
    case (move i mv now)
    obtain pt e where mv: "mv = (pt, e)" by force
    have "?step (client_node c) (client_node c')"
      using node_step.move [of i "client_node c" mv now] move(2,3)
      by (simp add: move(1) client_node_def cl_driver_def cl_processor_def)
    moreover have "client_inv c'"
      unfolding move(1)
      by (rule client_inv_runs [OF inv node])
        (use move(2) len in \<open>simp_all add: signal_effect_le move_run_def Let_def nth_list_update\<close>)
    ultimately show ?thesis by simp
  next
    case (user_range i r x)
    have "?step (client_node c) (client_node c')"
      using node_step.user_range [of i "client_node c" r _ _ x] user_range(2,3)
      by (simp add: user_range(1) client_node_def)
    moreover have "client_inv c'"
      using client_inv_runs [OF inv node, of "cl_driver c"] user_range(2,3) len
      by (simp add: user_range(1) set_processor_def cl_driver_def set_run_def nth_list_update)
    ultimately show ?thesis by simp
  next
    case (cancel i r)
    have "?step (client_node c) (client_node c')"
      using node_step.cancel [of i "client_node c" r] cancel(2,3,4)
      by (simp add: cancel(1) client_node_def)
    moreover have "client_inv c'"
      using client_inv_runs [OF inv node, of "cl_driver c"] cancel(2,3) len
      by (simp add: cancel(1) set_processor_def cl_driver_def set_run_def nth_list_update)
    ultimately show ?thesis by simp
  qed
qed

lemma client_start_inv:
  assumes "client_start E factory c"
  shows "client_inv c" and "node_start (de_consumer E) (client_node c)"
proof -
  have start: "dsp_start E [processor_filter factory] processor_new (cl_dsp c)"
    and tasks: "cl_task c = (\<lambda>i. Spawned)" "cl_cells c = []"
    using assms by (simp_all add: client_start_def)
  obtain T session_id b where b: "cl_dsp c = build E T session_id b processor_new"
    using start by (auto simp: dsp_start_def)
  show "node_start (de_consumer E) (client_node c)"
    by (auto simp: node_start_def client_node_def cl_driver_def cl_processor_def b build_def tasks drv_start_def)
  show "client_inv c"
    using route_inv_start [OF start] by (simp add: client_inv_def task_inv_def tasks b build_def)
qed

interpretation client_refinement: system_refinement
    "\<lambda>c. broadcast_ok (de_recv E) \<and> client_start E factory c" "client_step E factory"
    "\<lambda>c. broadcast_ok (de_recv E) \<and> client_inv c"
    "node_start (de_consumer E)" "node_step (de_consumer E) factory" client_node for E factory
  by unfold_locales (auto intro: client_start_inv dest!: client_refine_step)

lemma client_reach:
  assumes "broadcast_ok (de_recv E)" and "reach (client_start E factory) (client_step E factory) c"
  shows "client_inv c" and "reach (node_start (de_consumer E)) (node_step (de_consumer E) factory) (client_node c)"
proof -
  have "reach (\<lambda>c. broadcast_ok (de_recv E) \<and> client_start E factory c) (client_step E factory) c"
    using assms(2) by (induction rule: reach.induct) (auto intro: reach.intros assms(1))
  from client_refinement.refine_reach [OF this]
  show "client_inv c" and "reach (node_start (de_consumer E)) (node_step (de_consumer E) factory) (client_node c)"
    by simp_all
qed

section \<open>Properties\<close>

text \<open>
  C7. A client implements the composition of a stream and a processor: its dispatcher hands each grant to
  the processor at most once and with the ownership it was announced with, so every reachable state
  of a client is one that the stream and the processor reach together.
\<close>

theorem client_refines_node:
  assumes "broadcast_ok (de_recv E)" and "reach (client_start E factory) (client_step E factory) c"
  shows "reach (node_start (de_consumer E)) (node_step (de_consumer E) factory) (client_node c)"
  by (rule client_reach [OF assms])

text \<open>
  C9. What becomes of a dispatched grant: the runs of the processor are exactly the grants that it kept,
  each of them one run, on the ownership that was announced and under its id and shard; a grant
  that every filter declined is given back by a request for revocation, and one is skipped only
  when it has expired.
\<close>

theorem dispatched_grants_run_once:
  assumes "broadcast_ok (de_recv E)" and "reach (client_start E factory) (client_step E factory) c"
    and "i < length (ds_dispatched (cl_dsp c))" and "ds_dispatched (cl_dsp c) ! i = (gid, shard, a)"
  shows "case cl_task c i of
      Kept \<Rightarrow> (\<exists>!j. j < length (pr_runs (cl_processor c)) \<and> cl_cells c ! j = a)
        \<and> (\<exists>r \<in> set (pr_runs (cl_processor c)). rn_id r = gid \<and> rn_shard r = shard \<and> rn_own r = task_own c a)
    | GivenBack \<Rightarrow> a \<notin> set (cl_cells c) \<and> is_closed (ow_request_revoke (task_own c a))
    | Skipped \<Rightarrow> a \<notin> set (cl_cells c) \<and> is_closed (ow_expired (task_own c a))
    | _ \<Rightarrow> a \<notin> set (cl_cells c)"
proof -
  have inv: "client_inv c" and node: "reach (node_start (de_consumer E)) (node_step (de_consumer E) factory) (client_node c)"
    by (rule client_reach [OF assms(1,2)])+
  have tasks: "task_inv c" and route: "route_inv (cl_dsp c)" using inv by (simp_all add: client_inv_def)
  have kept: "a \<in> set (cl_cells c) \<longleftrightarrow> cl_task c i = Kept" by (rule client_known(4) [OF inv node assms(3,4)])
  have link: "node_link (client_node c)" by (rule client_known(1) [OF inv node])
  have ok: "task_ok (cl_task c i) (task_own c a)" using task_invD(4) [OF tasks assms(3)] by (simp add: assms(4))
  show ?thesis
  proof (cases "cl_task c i")
    case Kept
    then obtain j where j: "j < length (cl_cells c)" "cl_cells c ! j = a" using kept by (metis in_set_conv_nth)
    have len: "length (cl_cells c) = length (pr_runs (cl_processor c))" using node_linkD(1) [OF link] by simp
    have "\<exists>!j. j < length (pr_runs (cl_processor c)) \<and> cl_cells c ! j = a"
      using j node_linkD(2) [OF link] by (intro ex1I [of _ j]) (auto simp: len nth_eq_iff_index_eq)
    moreover obtain k where k: "k < length (ds_dispatched (cl_dsp c))" "ds_dispatched (cl_dsp c) ! k =
        (rn_id (pr_runs (cl_processor c) ! j), rn_shard (pr_runs (cl_processor c) ! j), cl_cells c ! j)"
      using task_invD(3) [OF tasks j(1)] by blast
    have "map (snd \<circ> snd) (ds_dispatched (cl_dsp c)) ! k = map (snd \<circ> snd) (ds_dispatched (cl_dsp c)) ! i"
      using k assms(3,4) j(2) by simp
    then have "k = i" using nth_eq_iff_index_eq [OF dispatched_distinct [OF route], of k i] k(1) assms(3) by simp
    then have "rn_id (pr_runs (cl_processor c) ! j) = gid \<and> rn_shard (pr_runs (cl_processor c) ! j) = shard
        \<and> rn_own (pr_runs (cl_processor c) ! j) = task_own c a"
      using k(2) assms(4) node_linkD(4) [OF link, of j] j len by (simp add: task_own_def)
    then have "\<exists>r \<in> set (pr_runs (cl_processor c)). rn_id r = gid \<and> rn_shard r = shard \<and> rn_own r = task_own c a"
      using j(1) len by (metis nth_mem)
    ultimately show ?thesis by (simp add: Kept)
  qed (use kept ok in simp_all)
qed

end
