(* ===== verification/ClientProgress.thy ===== *)
theory ClientProgress
  imports ClientLaws
begin

text \<open>
  The processor of a client is initialised before the first grant is dispatched, so the task of a
  dispatched grant never waits for it.
\<close>

section \<open>Initialisation comes first\<close>

text \<open>The filters have been initialised.\<close>

definition past_init :: "dispatcher_pc \<Rightarrow> bool" where
  "past_init pt \<longleftrightarrow> (case pt of SeedPool \<Rightarrow> False | InitFilters k \<Rightarrow> 0 < k | _ \<Rightarrow> True)"

definition ready_inv :: "'ch client \<Rightarrow> bool" where
  "ready_inv c \<longleftrightarrow>
     (past_init (ds_pc (cl_dsp c)) \<longrightarrow> is_closed (pr_initialized (cl_processor c)))
     \<and> (setting_up (ds_pc (cl_dsp c)) \<longrightarrow> ds_dispatched (cl_dsp c) = [] \<and> \<not> ds_router (cl_dsp c))"

lemma ready_dispatcher:
  assumes "dsp_step E [processor_filter factory] s t"
    and "past_init (ds_pc s) \<longrightarrow> is_closed (pr_initialized (ds_user s))"
    and "setting_up (ds_pc s) \<longrightarrow> ds_dispatched s = [] \<and> \<not> ds_router s"
  shows "(past_init (ds_pc t) \<longrightarrow> is_closed (pr_initialized (ds_user t)))
    \<and> (setting_up (ds_pc t) \<longrightarrow> ds_dispatched t = [] \<and> \<not> ds_router t)"
  using assms(1)
proof cases
  case (init k)
  then show ?thesis using assms(3) by (simp add: init_filter_def processor_filter_def processor_init_def)
next
  case start
  then show ?thesis using assms(2,3) by (simp add: start_tasks_def Let_def past_init_def)
next
  case (route r p)
  then have "\<not> setting_up (ds_pc s)" using assms(3) by blast
  then show ?thesis using assms(2) by (simp add: route route_def split: received.split GrantEvent.split)
next
  case drain
  then show ?thesis using assms(2,3) by (simp add: drain_start_def past_init_def)
next
  case (drained res)
  then show ?thesis using assms(2,3) by (simp add: drain_end_def stop_tasks_def past_init_def)
next
  case timed_out
  then show ?thesis using assms(2,3) by (simp add: drain_end_def stop_tasks_def past_init_def)
next
  case dropped
  then show ?thesis using assms(2,3) by (auto simp: drop_dispatcher_def stop_tasks_def past_init_def)
qed (use assms(2,3) in \<open>simp_all add: seed_pool_def updater_read_def updater_apply_def watcher_close_def Let_def
      past_init_def\<close>)

lemma initialized_kept [simp]:
  "pr_initialized (move_run i mv p) = pr_initialized p" "pr_initialized (set_run i r p) = pr_initialized p"
  by (simp_all add: move_run_def Let_def set_run_def)

lemma try_handle_initialized:
  "try_handle factory gid shard w p = Some (b, p') \<Longrightarrow> pr_initialized p' = pr_initialized p"
  by (auto elim: accept_runs)

lemma ready_inv_step:
  assumes inv: "ready_inv c" and "client_step E factory c c'"
  shows "ready_inv c'"
  using assms(2)
proof cases
  case (dispatcher s)
  have "(past_init (ds_pc s) \<longrightarrow> is_closed (pr_initialized (ds_user s)))
      \<and> (setting_up (ds_pc s) \<longrightarrow> ds_dispatched s = [] \<and> \<not> ds_router s)"
    using ready_dispatcher [OF dispatcher(2)] inv by (simp add: ready_inv_def cl_processor_def)
  then show ?thesis
    by (simp add: dispatcher(1) ready_inv_def set_driver_def cl_processor_def)
next
  case (offer i gid shard a b p)
  with try_handle_initialized [OF offer(5)] inv show ?thesis
    by (simp add: ready_inv_def cl_processor_def set_task_def set_processor_def)
qed (use inv in \<open>simp_all add: ready_inv_def cl_processor_def set_driver_def set_task_def set_processor_def\<close>)

lemma ready_inv_start: "client_start E factory c \<Longrightarrow> ready_inv c"
  by (auto simp: client_start_def dsp_start_def build_def ready_inv_def past_init_def)

interpretation ready_system: invariant_system "client_start E factory" "client_step E factory" ready_inv for E factory
  by unfold_locales (rule ready_inv_start, assumption, rule ready_inv_step)

lemma try_handle_ready:
  assumes "is_closed (pr_initialized p)"
  obtains b p' where "try_handle factory gid shard w p = Some (b, p')" "b = (factory gid shard w \<noteq> None)"
proof (cases "factory gid shard w")
  case None
  show ?thesis by (rule that [of False p]) (use assms None in \<open>simp_all add: try_handle_def\<close>)
next
  case (Some g)
  show ?thesis
    by (rule that [of True "p\<lparr>pr_runs := pr_runs p @ [run_new gid shard w g]\<rparr>"])
      (use assms Some in \<open>simp_all add: try_handle_def\<close>)
qed

text \<open>
  C15. No grant is stuck between the router and the processor: the task of a dispatched grant can always
  take its next step, since \<open>build\<close> initialises the processor before the router hands out anything;
  an offer is accepted exactly if the factory builds a range.
\<close>

theorem dispatched_grants_progress:
  assumes "reach (client_start E factory) (client_step E factory) c"
    and "i < length (ds_dispatched (cl_dsp c))" and "ds_dispatched (cl_dsp c) ! i = (gid, shard, a)"
    and "\<And>g. factory gid shard (task_own c a) = Some g \<Longrightarrow> range_fresh g"
  shows "case cl_task c i of
      Spawned \<Rightarrow> (\<exists>c'. client_step E factory c c' \<and>
        cl_task c' i = (if is_closed (ow_expired (task_own c a)) then Skipped else Offering))
    | Offering \<Rightarrow> (\<exists>c'. client_step E factory c c' \<and>
        cl_task c' i = (if factory gid shard (task_own c a) = None then Declined else Kept))
    | Declined \<Rightarrow> (\<exists>c'. client_step E factory c c' \<and> cl_task c' i = GivenBack)
    | _ \<Rightarrow> True"
proof (cases "cl_task c i")
  case Spawned
  show ?thesis
    unfolding Spawned chain_task.case
    by (intro exI conjI, rule client_step.check [OF assms(2) Spawned assms(3)]) simp
next
  case Offering
  have "ready_inv c" by (rule ready_system.reach_inv [OF assms(1)])
  then have ready: "is_closed (pr_initialized (cl_processor c))"
    using assms(2) by (cases "ds_pc (cl_dsp c)") (auto simp: ready_inv_def past_init_def)
  obtain b p where tried: "try_handle factory gid shard (task_own c a) (cl_processor c) = Some (b, p)"
    and b: "b = (factory gid shard (task_own c a) \<noteq> None)"
    using that by (rule try_handle_ready [OF ready]) 
  have "cl_task ((set_task i (if b then Kept else Declined) (set_processor p c))
      \<lparr>cl_cells := (if b then cl_cells c @ [a] else cl_cells c)\<rparr>) i
      = (if factory gid shard (task_own c a) = None then Declined else Kept)"
    using b by (simp add: set_task_def)
  with client_step.offer [OF assms(2) Offering assms(3) tried assms(4)] show ?thesis
    unfolding Offering chain_task.case by blast
next
  case Declined
  show ?thesis
    unfolding Declined chain_task.case
    by (intro exI conjI, rule client_step.give_back [OF assms(2) Declined assms(3)]) simp
qed simp_all

end
