(* ===== verification/ClientRuns.thy ===== *)
theory ClientRuns
  imports ClientProgress HandoverRuns DispatcherRuns
begin

text \<open>A client that starts up, is assigned a grant, and hands it to its processor. It witnesses the
  properties of \<open>ClientLaws\<close> and \<open>ClientProgress\<close>.\<close>

section \<open>A concrete client\<close>

definition live_builder :: "(processor, string) DispatcherBuilder" where
  "live_builder = builder_pool (pool_with_dial (InstanceId 1) pool_demo_dial)
     (builder_filter (processor_filter demo_factory)
       (builder_new (qsn_new ''acme'' ''widgets'') (demo_instance 1 ''h1:1'')))"

definition live_built :: "(processor, string) dispatcher" where
  "live_built = build demo_dsp_env (\<lambda>s. Inl s) ''s'' live_builder processor_new"

definition at_dsp :: "(processor, string) dispatcher \<Rightarrow> string client" where
  "at_dsp s = \<lparr>cl_dsp = s, cl_task = (\<lambda>i. Spawned), cl_cells = []\<rparr>"

text \<open>What a client does by itself, without being told of counterparts.\<close>

definition alone_step :: "string client \<Rightarrow> string client \<Rightarrow> bool" where
  "alone_step c c' \<longleftrightarrow> client_step demo_dsp_env demo_factory c c' \<and> counterpart_kept (cl_driver c) (cl_driver c')"

abbreviation live_run :: "string client \<Rightarrow> bool" where
  "live_run \<equiv> alone_step\<^sup>*\<^sup>* (at_dsp live_built)"

abbreviation live_reach :: "string client \<Rightarrow> bool" where
  "live_reach \<equiv> reach (client_start demo_dsp_env demo_factory) (client_step demo_dsp_env demo_factory)"

lemma live_built_start: "client_start demo_dsp_env demo_factory (at_dsp live_built)"
proof -
  have "dsp_start demo_dsp_env [processor_filter demo_factory] processor_new live_built"
    unfolding dsp_start_def
    by (rule exI [of _ "\<lambda>s. Inl s"], rule exI [of _ "''s''"], rule exI [of _ live_builder])
      (simp add: live_built_def live_builder_def builder_pool_def builder_filter_def builder_new_def)
  then show ?thesis by (simp add: client_start_def at_dsp_def)
qed

lemma live_run_reach: "live_run c \<Longrightarrow> live_reach c"
  by (induction rule: rtranclp_induct) (auto intro: reach.intros live_built_start simp: alone_step_def)

lemma live_run_step:
  "live_run c \<Longrightarrow> client_step demo_dsp_env demo_factory c c' \<Longrightarrow>
   counterpart_kept (cl_driver c) (cl_driver c') \<Longrightarrow> live_run c'"
  by (erule rtranclp.rtrancl_into_rtrancl) (simp add: alone_step_def)

text \<open>A step of the dispatcher before there are any runs.\<close>

lemma live_dsp_step:
  assumes "live_run (at_dsp s)" and "dsp_step demo_dsp_env [processor_filter demo_factory] s t"
    and "keeps_signals (ds_driver s) (ds_driver t)" and "pr_runs (ds_user t) = []"
    and "counterpart_kept (ds_driver s) (ds_driver t)"
  shows "live_run (at_dsp t)"
proof -
  have "client_step demo_dsp_env demo_factory (at_dsp s)
      (set_driver (ds_driver t) ((at_dsp s)\<lparr>cl_dsp := t\<rparr>))"
    by (rule client_step.dispatcher) (use assms(2,3) in \<open>simp_all add: at_dsp_def cl_driver_def\<close>)
  moreover have "set_driver (ds_driver t) ((at_dsp s)\<lparr>cl_dsp := t\<rparr>) = at_dsp t"
    using assms(4) by (simp add: at_dsp_def set_driver_def share_def cl_processor_def)
  ultimately show ?thesis using live_run_step [OF assms(1)] assms(5) by (simp add: at_dsp_def cl_driver_def)
qed

lemma signals_refl [simp]: "keeps_signals d d" "counterpart_kept d d"
  by (simp_all add: keeps_signals_def counterpart_kept_refl)

definition live_ready :: "(processor, string) dispatcher" where
  "live_ready = start_tasks (init_filter (processor_filter demo_factory) 0 (seed_pool demo_dsp_env live_built))"

lemma live_built_fields:
  "ds_pc live_built = SeedPool" "ds_driver live_built = demo_joined" "ds_user live_built = processor_new"
  "ds_dispatched live_built = []"
  by (simp_all add: live_built_def live_builder_def build_def demo_joined_def builder_pool_def builder_filter_def builder_new_def
      demo_dsp_env_def)

lemma live_ready_fields:
  "ds_pc live_ready = Running" "ds_driver live_ready = demo_joined" "ds_user live_ready = processor_init processor_new"
  "ds_dispatched live_ready = []" "ds_router live_ready" "ds_read live_ready = 0"
  by (simp_all add: live_ready_def start_tasks_def init_filter_def seed_pool_def Let_def live_built_fields
      processor_filter_def) (simp add: demo_joined_def join_def driver_new_def)

lemma no_runs [simp]: "pr_runs processor_new = []" "pr_runs (processor_init p) = pr_runs p"
  by (simp_all add: processor_new_def processor_init_def)

lemma live_ready_run: "live_run (at_dsp live_ready)"
proof -
  have 1: "live_run (at_dsp (seed_pool demo_dsp_env live_built))"
    by (rule live_dsp_step [OF rtranclp.rtrancl_refl dsp_step.seed])
      (simp_all add: live_built_fields seed_pool_def Let_def)
  have 2: "live_run (at_dsp (init_filter (processor_filter demo_factory) 0 (seed_pool demo_dsp_env live_built)))"
    by (rule live_dsp_step [OF 1])
      (use dsp_step.init [of "seed_pool demo_dsp_env live_built" 0 "[processor_filter demo_factory]" demo_dsp_env] in
        \<open>simp_all add: live_built_fields seed_pool_def init_filter_def Let_def processor_filter_def\<close>)
  show ?thesis
    unfolding live_ready_def
    by (rule live_dsp_step [OF 2 dsp_step.start])
      (simp_all add: init_filter_def seed_pool_def Let_def start_tasks_def processor_filter_def live_built_fields)
qed

definition on_driver :: "driver \<Rightarrow> (processor, string) dispatcher \<Rightarrow> (processor, string) dispatcher" where
  "on_driver d s = s\<lparr>ds_driver := d, ds_unseen := ds_unseen s \<or> dr_cluster d \<noteq> dr_cluster (ds_driver s)\<rparr>"

lemma on_driver_run:
  assumes "live_run (at_dsp s)" and "drv_step demo_consumer_env (ds_driver s) d"
    and "keeps_signals (ds_driver s) d" and "counterpart_kept (ds_driver s) d" and "pr_runs (ds_user s) = []"
  shows "live_run (at_dsp (on_driver d s))"
  unfolding on_driver_def
  by (rule live_dsp_step [OF assms(1) dsp_step.driver]) (use assms(2-) in \<open>simp_all add: demo_dsp_env_def\<close>)

text \<open>The client is set up and its stream has come to \<open>d\<close>.\<close>

definition live_at :: "driver \<Rightarrow> (processor, string) dispatcher \<Rightarrow> bool" where
  "live_at d s \<longleftrightarrow> live_run (at_dsp s) \<and> ds_driver s = d \<and> ds_user s = processor_init processor_new
     \<and> ds_router s \<and> ds_read s = 0 \<and> ds_dispatched s = []"

lemma live_at_flow:
  assumes "live_at d s"
  shows "flow_inv d"
proof -
  have "live_reach (at_dsp s)" using assms by (simp add: live_at_def live_run_reach)
  from client_reach(2) [OF demo_dsp_ok(1) this] have "node_inv (de_consumer demo_dsp_env) (client_node (at_dsp s))"
    by (rule node_system.reach_inv)
  then have "reach (drv_start (de_consumer demo_dsp_env)) (drv_step (de_consumer demo_dsp_env)) d"
    using assms by (simp add: node_inv_def live_at_def at_dsp_def cl_driver_def)
  then show ?thesis by (rule flow_system.reach_inv)
qed

lemma live_at_step:
  assumes "live_at d s" and "drv_step demo_consumer_env d d'" and "keeps_signals d d'" and "counterpart_kept d d'"
  shows "live_at d' (on_driver d' s)"
  using assms on_driver_run [of s d'] by (simp add: live_at_def, simp add: on_driver_def)

lemma live_at_waiting: "live_at (select_enter demo_joined) (on_driver (select_enter demo_joined) live_ready)"
proof (rule live_at_step)
  show "live_at demo_joined live_ready" by (simp add: live_at_def live_ready_run live_ready_fields)
  show "drv_step demo_consumer_env demo_joined (select_enter demo_joined)"
    by (rule drv_step.enter) (simp add: demo_joined_pc)
qed (simp_all add: demo_joined_pc keeps_signals_def counterpart_kept_def select_enter_def)

lemma live_at_assigned: "live_at live_assigned (on_driver live_assigned (on_driver (select_enter demo_joined) live_ready))"
proof (rule live_at_step [OF live_at_waiting])
  show "drv_step demo_consumer_env (select_enter demo_joined) live_assigned"
    unfolding live_assigned_def by (rule drv_step.inbound [OF demo_selecting])
qed (simp_all add: keeps_signals_def counterpart_kept_def no_cells live_assigned_eq cell_new_def)

section \<open>From an announced grant to its run\<close>

text \<open>The router takes the grant, and its task offers it.\<close>

definition live_offering :: "GrantId \<Rightarrow> Shard \<Rightarrow> (processor, string) dispatcher \<Rightarrow> string client" where
  "live_offering gid shard s = set_task 0 Offering (at_dsp (route (Got (Assigned gid shard 0)) 1 s))"

lemma live_offering_fields [simp]:
  "cl_driver (live_offering gid shard s) = ds_driver s" "cl_processor (live_offering gid shard s) = ds_user s"
  "cl_cells (live_offering gid shard s) = []" "cl_task (live_offering gid shard s) 0 = Offering"
  "ds_dispatched (cl_dsp (live_offering gid shard s)) = ds_dispatched s @ [(gid, shard, 0)]"
  by (simp_all add: live_offering_def set_task_def at_dsp_def route_def cl_driver_def cl_processor_def)

lemma live_offering_run:
  assumes s: "live_at d s" and "dr_events d = [Assigned gid shard 0]" and "dr_cells d = [c]"
    and "\<not> is_closed (ow_expired (gc_own c))"
  shows "live_run (live_offering gid shard s)"
proof -
  let ?t = "route (Got (Assigned gid shard 0)) (Suc 0) s"
  have f: "live_run (at_dsp s)" "ds_driver s = d" "ds_user s = processor_init processor_new" "ds_router s"
    "ds_read s = 0" "ds_dispatched s = []"
    using s by (simp_all add: live_at_def)
  have t: "ds_driver ?t = d" "ds_user ?t = processor_init processor_new"
    "ds_dispatched ?t = [(gid, shard, 0)]"
    by (simp_all add: route_def f)
  have 1: "live_run (at_dsp ?t)"
    by (rule live_dsp_step [OF f(1) dsp_step.route [OF f(4)]])
      (simp_all add: t f assms(2) demo_dsp_env_def demo_broadcast_def)
  have "client_step demo_dsp_env demo_factory (at_dsp ?t)
      (set_task 0 (if is_closed (ow_expired (task_own (at_dsp ?t) 0)) then Skipped else Offering) (at_dsp ?t))"
    by (rule client_step.check [of 0 _ gid shard]) (simp_all add: at_dsp_def t)
  moreover have "task_own (at_dsp ?t) 0 = gc_own c"
    by (simp add: task_own_def cl_driver_def at_dsp_def f assms(3))
  ultimately have "client_step demo_dsp_env demo_factory (at_dsp ?t) (set_task 0 Offering (at_dsp ?t))"
    using assms(4) by simp
  from live_run_step [OF 1 this] show ?thesis
    by (simp add: live_offering_def set_task_def cl_driver_def)
qed

text \<open>The processor accepts.\<close>

lemma live_accepted_run:
  assumes s: "live_at d s" and "dr_events d = [Assigned gid shard 0]" and c: "dr_cells d = [c]"
    and "\<not> is_closed (ow_expired (gc_own c))" and "gid = GrantId (pbg_id (gc_pb c))" and "dr_out_open d"
  shows "\<exists>x. live_run x \<and> cl_task x 0 = Kept \<and> cl_driver x = d \<and> is_closed (pr_initialized (cl_processor x))
    \<and> ds_dispatched (cl_dsp x) = [(gid, shard, 0)]
    \<and> node_at (client_node x) c (range_new True) Step1 {} (client_node x)"
proof -
  let ?o = "live_offering gid shard s"
  have f: "ds_driver s = d" "ds_user s = processor_init processor_new" "ds_dispatched s = []"
    using s by (simp_all add: live_at_def)
  have own: "task_own ?o 0 = gc_own c" by (simp add: task_own_def f c)
  let ?p = "(processor_init processor_new)\<lparr>pr_runs := [run_new gid shard (gc_own c) (range_new True)]\<rparr>"
  let ?x = "(set_task 0 Kept (set_processor ?p ?o))\<lparr>cl_cells := [0]\<rparr>"
  have "client_step demo_dsp_env demo_factory ?o
      ((set_task 0 (if True then Kept else Declined) (set_processor ?p ?o))
        \<lparr>cl_cells := (if True then cl_cells ?o @ [0] else cl_cells ?o)\<rparr>)"
    by (rule client_step.offer [of 0 _ gid shard])
      (simp_all add: f own demo_factory_def try_handle_def processor_init_def processor_new_def
        range_fresh_def range_new_def)
  then have step: "client_step demo_dsp_env demo_factory ?o ?x" by simp
  have x: "cl_driver ?x = d" "cl_processor ?x = ?p" "cl_task ?x 0 = Kept" "cl_cells ?x = [0]"
    "ds_dispatched (cl_dsp ?x) = [(gid, shard, 0)]"
    by (simp_all add: set_task_def set_processor_def cl_driver_def cl_processor_def f
        live_offering_fields(1) [unfolded cl_driver_def])
  have "live_run ?x" by (rule live_run_step [OF live_offering_run [OF assms(1-4)] step]) (simp add: x(1) f)
  with x show ?thesis
    by (intro exI [of _ ?x]) (simp add: node_at_def c assms(5,6) run_new_def processor_init_def live_at_flow [OF s])
qed

text \<open>For the grant that is assigned active.\<close>

definition live_announced :: "(processor, string) dispatcher" where
  "live_announced = on_driver live_assigned (on_driver (select_enter demo_joined) live_ready)"

abbreviation live_offered :: "string client" where
  "live_offered \<equiv> live_offering (GrantId ''g'') (demo_shard ''a'' ''m'') live_announced"

lemma live_announced_at: "live_at live_assigned live_announced"
  unfolding live_announced_def by (rule live_at_assigned)

lemma live_assigned_fields:
  "dr_events live_assigned = [Assigned (GrantId ''g'') (demo_shard ''a'' ''m'') 0]"
  "dr_cells live_assigned = [cell_new (ownership_new GrantState.Active (int (from_secs 100)) 0) live_grant]"
  "dr_out_open live_assigned"
  by (simp_all add: live_assigned_eq demo_joined_pc)

lemma live_not_expired: "\<not> is_closed (ow_expired (ownership_new GrantState.Active (int (from_secs 100)) 0))"
  by (simp add: ownership_new_def Let_def)

lemma live_offered_reach: "live_reach live_offered"
  by (rule live_run_reach, rule live_offering_run [OF live_announced_at live_assigned_fields(1,2)])
    (simp add: cell_new_def live_not_expired)

lemma live_kept: "\<exists>c. live_reach c \<and> cl_task c 0 = Kept
    \<and> ds_dispatched (cl_dsp c) = [(GrantId ''g'', demo_shard ''a'' ''m'', 0)]"
proof -
  have "GrantId ''g'' = GrantId (pbg_id (gc_pb (cell_new (ownership_new GrantState.Active (int (from_secs 100)) 0) live_grant)))"
    by (simp add: cell_new_def live_grant_def demo_pb_grant_def)
  from live_accepted_run [OF live_announced_at live_assigned_fields(1,2) _ this live_assigned_fields(3)]
  show ?thesis using live_run_reach by (force simp: cell_new_def live_not_expired)
qed

section \<open>Witnesses\<close>

theorem client_refines_node_witness:
  "reach (node_start (de_consumer demo_dsp_env)) (node_step (de_consumer demo_dsp_env) demo_factory) (client_node live_offered)"
  by (rule client_refines_node [OF demo_dsp_ok(1) live_offered_reach])

theorem dispatched_grants_run_once_witness:
  "\<exists>c. live_reach c \<and> (\<exists>r \<in> set (pr_runs (cl_processor c)). rn_id r = GrantId ''g'' \<and> rn_own r = task_own c 0)"
proof -
  obtain c where c: "live_reach c" "cl_task c 0 = Kept"
    "ds_dispatched (cl_dsp c) = [(GrantId ''g'', demo_shard ''a'' ''m'', 0)]"
    using live_kept by blast
  from dispatched_grants_run_once [OF demo_dsp_ok(1) c(1), of 0] c show ?thesis
    by (intro exI [of _ c]) auto
qed

theorem dispatched_grants_progress_witness:
  "\<exists>c. client_step demo_dsp_env demo_factory live_offered c \<and> cl_task c 0 = Kept"
  using dispatched_grants_progress [OF live_offered_reach, of 0 "GrantId ''g''" "demo_shard ''a'' ''m''" 0]
    live_announced_at
  by (simp add: live_at_def demo_factory_def range_fresh_def range_new_def)

end
