(* ===== verification/ClientFleet.thy ===== *)
theory ClientFleet
  imports ClientLaws FleetLaws
begin

text \<open>
  Several clients of one service, each a dispatcher with a processor as its filter. The coordinator is
  as in \<open>FleetModel\<close>; a client does what a client does, so the fleet of clients refines the fleet
  of streams and processors, and the hand-over between consumers holds for the whole program.
\<close>

section \<open>The fleet of clients\<close>

type_synonym ('k, 'ch) client_fleet = "'k \<Rightarrow> 'ch client"

definition fleet_nodes :: "('k, 'ch) client_fleet \<Rightarrow> 'k fleet" where
  "fleet_nodes C = (\<lambda>k. client_node (C k))"

text \<open>The driver task of a client receives a message.\<close>

definition hear :: "dispatcher_env \<Rightarrow> SystemTime \<Rightarrow> pb_JoinMessage \<Rightarrow> 'ch client \<Rightarrow> 'ch client" where
  "hear E now msg c =
     (let s = cl_dsp c; d = inbound_branch (de_consumer E) now (Item msg) (ds_driver s);
          s' = s\<lparr>ds_driver := d, ds_unseen := ds_unseen s \<or> dr_cluster d \<noteq> dr_cluster (ds_driver s)\<rparr>
      in set_driver d (c\<lparr>cl_dsp := s'\<rparr>))"

inductive client_fleet_step ::
  "(GrantId \<Rightarrow> GrantId \<Rightarrow> bool) \<Rightarrow> dispatcher_env \<Rightarrow> (GrantId \<Rightarrow> Shard \<Rightarrow> Ownership \<Rightarrow> range option) \<Rightarrow>
   ('k, 'ch) client_fleet \<Rightarrow> ('k, 'ch) client_fleet \<Rightarrow> bool"
  for counterpart :: "GrantId \<Rightarrow> GrantId \<Rightarrow> bool" and E :: dispatcher_env
    and factory :: "GrantId \<Rightarrow> Shard \<Rightarrow> Ownership \<Rightarrow> range option" where
  told: "dr_pc (cl_driver (C k)) = Selecting b \<Longrightarrow> notification msg = Some n \<Longrightarrow>
     relayed counterpart (fleet_nodes C) n \<Longrightarrow>
     client_fleet_step counterpart E factory C (C(k := hear E now msg (C k)))"
| alone: "client_step E factory (C k) c \<Longrightarrow> counterpart_kept (cl_driver (C k)) (cl_driver c) \<Longrightarrow>
     client_fleet_step counterpart E factory C (C(k := c))"

definition client_fleet_start ::
  "dispatcher_env \<Rightarrow> (GrantId \<Rightarrow> Shard \<Rightarrow> Ownership \<Rightarrow> range option) \<Rightarrow> ('k, 'ch) client_fleet \<Rightarrow> bool" where
  "client_fleet_start E factory C \<longleftrightarrow> (\<forall>k. client_start E factory (C k))"

section \<open>Refinement\<close>

lemma fleet_nodes_apply [simp]: "fleet_nodes C k = client_node (C k)"
  by (simp add: fleet_nodes_def)

lemma fleet_nodes_update [simp]: "fleet_nodes (C(k := c)) = (fleet_nodes C)(k := client_node c)"
  by (simp add: fleet_nodes_def fun_eq_iff)

text \<open>To receive a message is a step of the client, and to the composition it is the same step.\<close>

lemma hear_step:
  assumes "dr_pc (cl_driver c) = Selecting b"
  shows "client_step E factory c (hear E now msg c)"
proof -
  let ?d = "inbound_branch (de_consumer E) now (Item msg) (ds_driver (cl_dsp c))"
  let ?s = "(cl_dsp c)\<lparr>ds_driver := ?d,
      ds_unseen := ds_unseen (cl_dsp c) \<or> dr_cluster ?d \<noteq> dr_cluster (ds_driver (cl_dsp c))\<rparr>"
  have "drv_step (de_consumer E) (ds_driver (cl_dsp c)) ?d"
    using assms by (auto simp: cl_driver_def intro: drv_step.inbound)
  then have "dsp_step E [processor_filter factory] (cl_dsp c) ?s" by (rule dsp_step.driver)
  then have "client_step E factory c (set_driver (ds_driver ?s) (c\<lparr>cl_dsp := ?s\<rparr>))"
    by (rule client_step.dispatcher) (simp add: cl_driver_def inbound_keeps_signals)
  then show ?thesis by (simp add: hear_def Let_def)
qed

lemma hear_node: "client_node (hear E now msg c) = receive (de_consumer E) now msg (client_node c)"
  by (simp add: hear_def receive_def Let_def client_node_def cl_driver_def cl_processor_def set_driver_def)

definition client_fleet_inv ::
  "dispatcher_env \<Rightarrow> (GrantId \<Rightarrow> Shard \<Rightarrow> Ownership \<Rightarrow> range option) \<Rightarrow> ('k, 'ch) client_fleet \<Rightarrow> bool" where
  "client_fleet_inv E factory C \<longleftrightarrow> broadcast_ok (de_recv E)
     \<and> (\<forall>k. client_inv (C k) \<and> reach (node_start (de_consumer E)) (node_step (de_consumer E) factory) (client_node (C k)))"

lemma client_fleet_inv_start:
  assumes "broadcast_ok (de_recv E)" and "client_fleet_start E factory C"
  shows "client_fleet_inv E factory C \<and> fleet_start (de_consumer E) (fleet_nodes C)"
proof -
  have "client_inv (C k)" "node_start (de_consumer E) (client_node (C k))" for k
    using client_start_inv assms(2) unfolding client_fleet_start_def by blast+
  then show ?thesis using assms(1) by (auto simp: client_fleet_inv_def fleet_start_def intro: reach_start)
qed

lemma client_fleet_inv_update:
  assumes inv: "client_fleet_inv E factory C" and step: "client_step E factory (C k) c"
  shows "client_fleet_inv E factory (C(k := c))"
    and "client_node c = client_node (C k)
      \<or> node_step (de_consumer E) factory (client_node (C k)) (client_node c)"
proof -
  have recv: "broadcast_ok (de_recv E)" and c: "client_inv (C k)"
    and node: "reach (node_start (de_consumer E)) (node_step (de_consumer E) factory) (client_node (C k))"
    using inv by (simp_all add: client_fleet_inv_def)
  note r = client_refine_step [OF recv c node step]
  then show "client_node c = client_node (C k)
      \<or> node_step (de_consumer E) factory (client_node (C k)) (client_node c)" by blast
  have "reach (node_start (de_consumer E)) (node_step (de_consumer E) factory) (client_node c)"
    using r node by (auto intro: reach_step)
  then show "client_fleet_inv E factory (C(k := c))" using inv r by (simp add: client_fleet_inv_def)
qed

lemma client_fleet_refine_step:
  assumes inv: "client_fleet_inv E factory C" and "client_fleet_step counterpart E factory C C'"
  shows "client_fleet_inv E factory C'
    \<and> (fleet_step counterpart (de_consumer E) factory)\<^sup>*\<^sup>* (fleet_nodes C) (fleet_nodes C')"
  using assms(2)
proof cases
  case (told k b msg n now)
  have "fleet_step counterpart (de_consumer E) factory (fleet_nodes C)
      ((fleet_nodes C)(k := receive (de_consumer E) now msg (fleet_nodes C k)))"
    by (rule fleet_step.notified) (use told in simp_all)
  with client_fleet_inv_update(1) [OF inv hear_step [OF told(2)]] show ?thesis
    by (simp add: told(1) hear_node r_into_rtranclp)
next
  case (alone k c)
  note r = client_fleet_inv_update [OF inv alone(2)]
  from r(2) have "(fleet_step counterpart (de_consumer E) factory)\<^sup>*\<^sup>* (fleet_nodes C) ((fleet_nodes C)(k := client_node c))"
  proof
    assume same: "client_node c = client_node (C k)"
    have "(fleet_nodes C)(k := client_node c) = fleet_nodes C" by (simp add: fun_eq_iff same)
    then show ?thesis by simp
  next
    assume "node_step (de_consumer E) factory (client_node (C k)) (client_node c)"
    then have "quiet_step (de_consumer E) factory (fleet_nodes C k) (client_node c)"
      using alone(3) by (simp add: quiet_step_def)
    then show ?thesis by (intro r_into_rtranclp fleet_step.other)
  qed
  with r(1) show ?thesis by (simp add: alone(1))
qed

interpretation client_fleet_refinement: system_refinement
    "\<lambda>C. broadcast_ok (de_recv E) \<and> client_fleet_start E factory C" "client_fleet_step counterpart E factory"
    "client_fleet_inv E factory" "fleet_start (de_consumer E)" "fleet_step counterpart (de_consumer E) factory"
    fleet_nodes for E factory counterpart
  by unfold_locales (blast dest: client_fleet_inv_start client_fleet_refine_step)+

lemma client_fleet_reach:
  assumes "broadcast_ok (de_recv E)"
    and "reach (client_fleet_start E factory) (client_fleet_step counterpart E factory) C"
  shows "reach (fleet_start (de_consumer E)) (fleet_step counterpart (de_consumer E) factory) (fleet_nodes C)"
proof -
  have "reach (\<lambda>C. broadcast_ok (de_recv E) \<and> client_fleet_start E factory C)
      (client_fleet_step counterpart E factory) C"
    using assms(2) by (induction rule: reach.induct) (auto intro: reach.intros assms(1))
  from client_fleet_refinement.refine_reach [OF this] show ?thesis by blast
qed

section \<open>Property\<close>

text \<open>
  C2. Hand-over between clients. A range goes to work on a grant that is not yet active only after the
  range of the counterpart, at whichever client, was loaded and revoked and has been drained to
  the end; and a client is told that the counterpart has loaded, which ends its wait for that unless
  its lease lapses first, only when a range of the counterpart is initialised there and may serve. Each client is the whole of a
  dispatcher, its stream and its processor, and all that is assumed of the coordinator is that it
  relays only updates that were sent, between grants that match.
\<close>

theorem client_fleet_handover:
  assumes "grant_order_ok (de_consumer E)" and "broadcast_ok (de_recv E)"
    and "reach (client_fleet_start E factory) (client_fleet_step counterpart E factory) C"
    and "r \<in> set (pr_runs (cl_processor (C k)))"
  shows "(is_closed (ld_load (ow_loader (rn_own r))) \<longrightarrow> is_closed (rg_initialized (rn_range r))
      \<and> (is_closed (ow_active (rn_own r))
         \<or> (\<exists>k' r'. r' \<in> set (pr_runs (cl_processor (C k'))) \<and> counterpart (rn_id r) (rn_id r')
              \<and> is_closed (ow_revoked (rn_own r')) \<and> rg_drain_calls (rn_range r') \<noteq> []
              \<and> is_closed (rg_drained (rn_range r')))))
    \<and> (is_closed (ul_loaded (ow_unloader (rn_own r))) \<longrightarrow>
        (\<exists>k' r'. r' \<in> set (pr_runs (cl_processor (C k'))) \<and> counterpart (rn_id r) (rn_id r')
           \<and> is_closed (rg_initialized (rn_range r'))))"
  using fleet_handover [OF assms(1) client_fleet_reach [OF assms(2,3)], of r k] assms(4) by simp

end
