(* ===== verification/FleetRuns.thy ===== *)
theory FleetRuns
  imports ClientRuns ClientFleet
begin

text \<open>
  Two clients: the first hands a grant over as in \<open>HandoverRuns\<close>; the second is allocated its
  counterpart, is notified, and loads. It witnesses the property of \<open>ClientFleet\<close>.
\<close>

section \<open>Clients do what their streams and processors do\<close>

text \<open>Once a run exists, a step of the stream and the processor that accepts nothing is one of the client.\<close>

lemma mirror_step:
  assumes "working (client_node c) n" and "cl_cells c \<noteq> []"
  shows "\<exists>c'. alone_step\<^sup>*\<^sup>* c c' \<and> client_node c' = n"
proof -
  have step: "node_step demo_consumer_env demo_factory (client_node c) n"
    and kept: "counterpart_kept (cl_driver c) (nd_driver n)"
    and same: "nd_cells n = cl_cells c" "pr_initialized (nd_processor n) = pr_initialized (cl_processor c)"
    using assms by (simp_all add: working_def quiet_step_def)
  have one: "\<exists>c'. alone_step\<^sup>*\<^sup>* c c' \<and> client_node c' = n"
    if c': "client_step demo_dsp_env demo_factory c c'" "client_node c' = n" for c'
  proof -
    have "cl_driver c' = nd_driver n" using c'(2) by auto
    then have "alone_step c c'" using c'(1) kept by (simp add: alone_step_def)
    then show ?thesis using c'(2) by blast
  qed
  have none: ?thesis if "n = client_node c" using that by blast
  from step show ?thesis
  proof cases
    case (stream d')
    let ?s = "(cl_dsp c)\<lparr>ds_driver := d', ds_unseen := ds_unseen (cl_dsp c) \<or> dr_cluster d' \<noteq> dr_cluster (ds_driver (cl_dsp c))\<rparr>"
    have "drv_step (de_consumer demo_dsp_env) (ds_driver (cl_dsp c)) d'"
      using stream(2) by (simp add: cl_driver_def demo_dsp_env_def)
    then have "dsp_step demo_dsp_env [processor_filter demo_factory] (cl_dsp c) ?s" by (rule dsp_step.driver)
    then have "client_step demo_dsp_env demo_factory c (set_driver (ds_driver ?s) (c\<lparr>cl_dsp := ?s\<rparr>))"
      by (rule client_step.dispatcher) (use stream(3) in simp)
    then show ?thesis
      by (rule one) (simp add: stream(1) client_node_def set_driver_def cl_driver_def cl_processor_def)
  next
    case init
    then show ?thesis using same(2) by (intro none) (simp add: client_node_def processor_init_def)
  next
    case (accept a gid shard b p')
    from accept(5) show ?thesis
      by (cases rule: accept_runs) (use accept(1) same(1) in \<open>auto simp: client_node_def intro: none\<close>)
  next
    case (move i mv now)
    show ?thesis
      by (rule one [OF client_step.move]) (use move in \<open>simp_all add: client_node_def cl_driver_def cl_processor_def\<close>)
  next
    case (user_range i r x)
    show ?thesis
      by (rule one [OF client_step.user_range]) (use user_range in \<open>simp_all add: client_node_def\<close>)
  next
    case (cancel i r)
    show ?thesis
      by (rule one [OF client_step.cancel]) (use cancel in \<open>simp_all add: client_node_def\<close>)
  qed
qed

lemma mirror_run:
  assumes "quiet_run n0 n" and "n0 = client_node c" and "cl_cells c \<noteq> []"
  shows "\<exists>c'. alone_step\<^sup>*\<^sup>* c c' \<and> client_node c' = n \<and> cl_cells c' \<noteq> []"
  using assms
proof (induction rule: rtranclp_induct)
  case base
  then show ?case by blast
next
  case (step n n')
  then obtain c' where c': "alone_step\<^sup>*\<^sup>* c c'" "client_node c' = n" "cl_cells c' \<noteq> []" by blast
  with mirror_step [of c' n'] step.hyps(2) obtain c'' where c'': "alone_step\<^sup>*\<^sup>* c' c''" "client_node c'' = n'" by blast
  have "nd_cells n' \<noteq> []" using step.hyps(2) c'(2,3) by (auto simp: working_def)
  then have "cl_cells c'' \<noteq> []" using c''(2) by auto
  with rtranclp_trans [OF c'(1) c''(1)] c''(2) show ?case by blast
qed

lemma mirror_node_at:
  assumes "node_at (client_node c) w g pt ms n" and "cl_cells c \<noteq> []"
  shows "\<exists>c'. alone_step\<^sup>*\<^sup>* c c' \<and> client_node c' = n"
  using mirror_run [of _ n c] assms by (auto simp: node_at_def)

text \<open>What a client does alone is done by it in a fleet.\<close>

abbreviation duo_reach :: "(GrantId \<Rightarrow> GrantId \<Rightarrow> bool) \<Rightarrow> (bool, string) client_fleet \<Rightarrow> bool" where
  "duo_reach counterpart \<equiv>
     reach (client_fleet_start demo_dsp_env demo_factory) (client_fleet_step counterpart demo_dsp_env demo_factory)"

lemma fleet_alone:
  assumes F: "duo_reach counterpart F" and "alone_step\<^sup>*\<^sup>* c0 c" and "c0 = F k"
  shows "duo_reach counterpart (F(k := c))"
  using assms(2,3)
proof (induction rule: rtranclp_induct)
  case base
  then show ?case using F by simp
next
  case (step c c')
  then have "client_fleet_step counterpart demo_dsp_env demo_factory (F(k := c)) ((F(k := c))(k := c'))"
    by (intro client_fleet_step.alone) (simp_all add: alone_step_def)
  then have "duo_reach counterpart ((F(k := c))(k := c'))"
    by (rule reach_step [OF step.IH [OF step.prems]])
  then show ?case by (simp only: fun_upd_upd)
qed

section \<open>The first client\<close>

lemma live_revoked_events: "dr_events live_revoked = [Assigned (GrantId ''g'') (demo_shard ''a'' ''m'') 0]"
  by (simp add: live_revoked_def inbound_branch_def handle_inbound_def wrap_client_def live_grant_def
      handle_client_message_def on_revoke_def Let_def demo_pb_grant_def live_assigned_eq select_enter_def)

lemma live_at_revoked: "\<exists>s. live_at live_revoked s"
proof -
  have 1: "live_at (select_enter live_assigned) (on_driver (select_enter live_assigned) live_announced)"
    by (rule live_at_step [OF live_announced_at drv_step.enter [OF live_loop(1)]])
      (simp_all add: keeps_signals_def counterpart_kept_def select_enter_def)
  have sel: "dr_pc (select_enter live_assigned) = Selecting True"
    by (simp add: select_enter_def live_loop)
  have "live_at live_revoked (on_driver live_revoked (on_driver (select_enter live_assigned) live_announced))"
  proof (rule live_at_step [OF 1])
    show "drv_step demo_consumer_env (select_enter live_assigned) live_revoked"
      unfolding live_revoked_def by (rule drv_step.inbound [OF sel])
  qed (simp_all add: keeps_signals_def counterpart_kept_def live_revoked_cells select_enter_def live_assigned_eq
      cell_new_def live_ownership_def revoke_def)
  then show ?thesis by blast
qed

lemma first_client:
  "\<exists>c. live_run c \<and> update_message live_grant pb_GrantState.RevokedUnloaded \<in> set (dr_outbound (cl_driver c))"
proof -
  obtain s where s: "live_at live_revoked s" using live_at_revoked by blast
  let ?c = "cell_new live_ownership live_grant"
  have "\<not> is_closed (ow_expired (gc_own ?c))" "GrantId ''g'' = GrantId (pbg_id (gc_pb ?c))"
    using live_not_expired by (simp_all add: cell_new_def live_ownership_def revoke_def live_grant_def demo_pb_grant_def)
  from live_accepted_run [OF s live_revoked_events live_revoked_cells this live_revoked_open]
  obtain x where x: "live_run x" "node_at (client_node x) ?c (range_new True) Step1 {} (client_node x)" by blast
  then have cells: "cl_cells x \<noteq> []" by (simp add: node_at_def)
  from live_unloaded [OF x(2)] obtain c g n where n: "node_at (client_node x) c g Step5Unloaded
      {update_message live_grant pb_GrantState.RevokedUnloaded, update_message live_grant pb_GrantState.AllocatedLoaded} n"
    by blast
  from mirror_node_at [OF n cells] obtain y where y: "alone_step\<^sup>*\<^sup>* x y" "client_node y = n" by blast
  have "cl_driver y = nd_driver n" using y(2) by auto
  then have "update_message live_grant pb_GrantState.RevokedUnloaded \<in> set (dr_outbound (cl_driver y))"
    using n by (simp add: node_at_def)
  with rtranclp_trans [OF x(1) y(1)] show ?thesis by blast
qed

section \<open>The second client\<close>

definition heir_grant :: pb_Grant where
  "heir_grant = (demo_pb_grant 100)\<lparr>pbg_id := ''h''\<rparr>"

definition heir_assigned :: driver where
  "heir_assigned = inbound_branch demo_consumer_env 0
     (Item (wrap_client (Assign [heir_grant]))) (select_enter demo_joined)"

lemma heir_assigned_eq:
  "heir_assigned = demo_joined
     \<lparr>dr_events := [Assigned (GrantId ''h'') (demo_shard ''a'' ''m'') 0],
      dr_grants := [GrantId ''h'' \<mapsto> \<lparr>ag_pb = heir_grant, ag_ownership = 0, ag_revoked = False\<rparr>],
      dr_cells := [cell_new demo_ownership heir_grant]\<rparr>"
  by (simp add: heir_assigned_def inbound_branch_def handle_inbound_def wrap_client_def heir_grant_def
      handle_client_message_def on_assign_def assign_shard_def assign_expiration_def demo_pb_grant_def
      demo_lease demo_joined_def join_def driver_new_def select_enter_def emit_def Let_def demo_state demo_ownership_def)

lemma heir_at: "\<exists>s. live_at (select_enter heir_assigned) s"
proof -
  let ?s = "on_driver (select_enter demo_joined) live_ready"
  have 1: "live_at heir_assigned (on_driver heir_assigned ?s)"
  proof (rule live_at_step [OF live_at_waiting])
    show "drv_step demo_consumer_env (select_enter demo_joined) heir_assigned"
      unfolding heir_assigned_def by (rule drv_step.inbound [OF demo_selecting])
  qed (simp_all add: keeps_signals_def counterpart_kept_def no_cells heir_assigned_eq cell_new_def demo_ownership_def)
  have "live_at (select_enter heir_assigned) (on_driver (select_enter heir_assigned) (on_driver heir_assigned ?s))"
    by (rule live_at_step [OF 1 drv_step.enter])
      (simp_all add: heir_assigned_eq demo_joined_pc keeps_signals_def counterpart_kept_def select_enter_def)
  then show ?thesis by blast
qed

abbreviation heir_cell :: cell where
  "heir_cell \<equiv> cell_new demo_ownership heir_grant"

lemma second_client:
  "\<exists>x. live_run x \<and> cl_driver x = select_enter heir_assigned
    \<and> node_at (client_node x) heir_cell (range_new True) Step1 {} (client_node x)"
proof -
  obtain s where s: "live_at (select_enter heir_assigned) s" using heir_at by blast
  have "dr_events (select_enter heir_assigned) = [Assigned (GrantId ''h'') (demo_shard ''a'' ''m'') 0]"
    "dr_cells (select_enter heir_assigned) = [heir_cell]" "\<not> is_closed (ow_expired (gc_own heir_cell))"
    "GrantId ''h'' = GrantId (pbg_id (gc_pb heir_cell))" "dr_out_open (select_enter heir_assigned)"
    by (simp_all add: select_enter_def heir_assigned_eq demo_joined_pc,
        simp_all add: cell_new_def demo_ownership_def ownership_new_def Let_def heir_grant_def)
  from live_accepted_run [OF s this] show ?thesis by blast
qed

section \<open>Relaying the report\<close>

definition heir_counterpart :: "GrantId \<Rightarrow> GrantId \<Rightarrow> bool" where
  "heir_counterpart new old \<longleftrightarrow> new = GrantId ''h'' \<and> old = GrantId ''g''"

definition unloaded_notify :: pb_Notify where
  "unloaded_notify = \<lparr>no_update = Some (live_grant\<lparr>pbg_state := pb_grant_state_as_i32 pb_GrantState.RevokedUnloaded\<rparr>),
     no_target = Some heir_grant\<rparr>"

definition notified_cell :: cell where
  "notified_cell = on_own counterpart_unloaded heir_cell"

lemma unloaded_state: "grant_state_from_i32 5 = GrantState.RevokedUnloaded"
  by (simp add: grant_state_from_i32_def pb_grant_state_try_from_def)

lemma notified_node:
  assumes "nd_driver n = select_enter heir_assigned" and "node_at n0 heir_cell (range_new True) Step1 {} n"
  shows "node_at (receive demo_consumer_env 0 (wrap_client (Notify unloaded_notify)) n) notified_cell (range_new True) Step1 {}
    (receive demo_consumer_env 0 (wrap_client (Notify unloaded_notify)) n)"
proof -
  let ?d = "inbound_branch demo_consumer_env 0 (Item (wrap_client (Notify unloaded_notify))) (select_enter heir_assigned)"
  have "flow_inv (select_enter heir_assigned)" using assms by (simp add: node_at_def)
  then have flow: "flow_inv ?d" by (simp add: flow_inv_def inbound_branch_fields)
  have d: "dr_cells ?d = [notified_cell]" "dr_out_open ?d"
    by (simp_all add: inbound_branch_def handle_inbound_def wrap_client_def handle_client_message_def on_notify_def
        unloaded_notify_def heir_assigned_eq select_enter_def heir_grant_def demo_pb_grant_def unloaded_state
        on_cell_def notified_cell_def demo_joined_pc)
  obtain r where "pr_runs (nd_processor n) = [r]" "rn_range r = range_new True" "rn_pc r = Step1"
    "rn_id r = GrantId (pbg_id (gc_pb heir_cell))" "nd_cells n = [0]"
    using assms(2) by (auto simp: node_at_def)
  then show ?thesis
    using d flow by (simp add: node_at_def receive_def Let_def assms(1) share_def notified_cell_def cell_new_def)
qed

lemma heir_loaded:
  assumes "node_at n0 notified_cell (range_new True) Step1 {} n"
  shows "\<exists>n'. node_at n0 (on_own load notified_cell) (range_new True) Step2Loaded {} n'"
proof -
  let ?c = notified_cell and ?g = "range_new True"
  have unl: "is_closed (ld_unloaded (ow_loader (gc_own ?c)))"
    by (simp add: notified_cell_def counterpart_unloaded_def)
  from node_at_move [OF assms, of Step2Allocate NoEffect]
  obtain n2 where "node_at n0 ?c ?g Step2Allocate {} n2" by (auto simp: set_continue_or_bail unl)
  from node_at_move [OF this, of Step2 "Write GrantState.Allocated"]
  obtain n3 where "node_at n0 ?c ?g Step2 {} n3" by auto
  from node_at_move [OF this, of Step2Load NoEffect]
  obtain n4 where "node_at n0 ?c ?g Step2Load {} n4" by (auto simp: set_continue_or_bail range_new_def)
  from node_at_move [OF this, of Step2Loaded CallLoad] show ?thesis by auto
qed

text \<open>The second client, told of the report, loads.\<close>

abbreviation told_client :: "string client \<Rightarrow> string client" where
  "told_client x \<equiv> hear demo_dsp_env 0 (wrap_client (Notify unloaded_notify)) x"

lemma told_client_loads:
  assumes "cl_driver x = select_enter heir_assigned"
    and "node_at (client_node x) heir_cell (range_new True) Step1 {} (client_node x)"
  shows "\<exists>y r. alone_step\<^sup>*\<^sup>* (told_client x) y \<and> pr_runs (cl_processor y) = [r] \<and> rn_id r = GrantId ''h''
    \<and> rn_own r = load (gc_own notified_cell)"
proof -
  let ?n = "receive demo_consumer_env 0 (wrap_client (Notify unloaded_notify)) (client_node x)"
  have hn: "client_node (told_client x) = ?n" by (simp add: hear_node demo_dsp_env_def)
  have told: "node_at ?n notified_cell (range_new True) Step1 {} ?n"
    by (rule notified_node [OF _ assms(2)]) (simp add: assms(1))
  then have cells: "cl_cells (told_client x) \<noteq> []" by (simp add: node_at_def flip: hn)
  obtain m where m: "node_at ?n (on_own load notified_cell) (range_new True) Step2Loaded {} m"
    using heir_loaded [OF told] by blast
  from mirror_node_at [of "told_client x", unfolded hn, OF m cells] obtain y
    where y: "alone_step\<^sup>*\<^sup>* (told_client x) y" "client_node y = m" by blast
  obtain r where "pr_runs (nd_processor m) = [r]" "rn_own r = load (gc_own notified_cell)" "rn_id r = GrantId ''h''"
    using m by (auto simp: node_at_def notified_cell_def cell_new_def heir_grant_def)
  moreover have "cl_processor y = nd_processor m" using y(2) by auto
  ultimately show ?thesis using y(1) by auto
qed

theorem client_fleet_handover_witness:
  "\<exists>F. duo_reach heir_counterpart F
     \<and> (\<exists>k' r'. r' \<in> set (pr_runs (cl_processor (F k'))) \<and> rn_id r' = GrantId ''g''
          \<and> is_closed (ow_revoked (rn_own r')) \<and> is_closed (rg_drained (rn_range r')))"
proof -
  let ?R = "duo_reach heir_counterpart"
  obtain A where A: "live_run A" "update_message live_grant pb_GrantState.RevokedUnloaded \<in> set (dr_outbound (cl_driver A))"
    using first_client by blast
  obtain B where B: "live_run B" "cl_driver B = select_enter heir_assigned"
    "node_at (client_node B) heir_cell (range_new True) Step1 {} (client_node B)"
    using second_client by blast
  obtain D r where D: "alone_step\<^sup>*\<^sup>* (told_client B) D" and r: "pr_runs (cl_processor D) = [r]"
    "rn_id r = GrantId ''h''" "rn_own r = load (gc_own notified_cell)"
    using told_client_loads [OF B(2,3)] by blast
  let ?F0 = "(\<lambda>k. at_dsp live_built) :: (bool, string) client_fleet"
  let ?F2 = "?F0(False := A, True := B)"
  have 0: "?R ?F0" by (rule reach_start) (simp add: client_fleet_start_def live_built_start)
  have 1: "?R (?F0(False := A))" by (rule fleet_alone [OF 0 A(1)]) simp
  have 2: "?R ?F2" by (rule fleet_alone [OF 1 B(1)]) simp
  have "reported_by (fleet_nodes ?F2) (GrantId ''g'') pb_GrantState.RevokedUnloaded"
    unfolding reported_by_def by (intro exI [of _ False] exI [of _ live_grant])
      (use A(2) in \<open>simp add: live_grant_def demo_pb_grant_def\<close>)
  then have rel: "relayed heir_counterpart (fleet_nodes ?F2) unloaded_notify"
    by (simp add: relayed_def unloaded_notify_def heir_counterpart_def heir_grant_def live_grant_def
        demo_pb_grant_def unloaded_state)
  have sel: "dr_pc (cl_driver (?F2 True)) = Selecting True"
    by (simp add: B(2) select_enter_def heir_assigned_eq demo_joined_pc)
  have "notification (wrap_client (Notify unloaded_notify)) = Some unloaded_notify"
    by (simp add: notification_def wrap_client_def)
  from client_fleet_step.told [where C = ?F2 and k = True, OF sel this rel]
  have 3: "?R (?F2(True := told_client (?F2 True)))" by (rule reach_step [OF 2])
  have "?R ((?F2(True := told_client (?F2 True)))(True := D))" by (rule fleet_alone [OF 3 D]) simp
  then have 4: "?R (?F2(True := D))" by (simp only: fun_upd_upd)
  have "\<not> is_closed (ow_active (rn_own r))" "is_closed (ld_load (ow_loader (rn_own r)))"
    by (simp_all add: r(3) notified_cell_def cell_new_def demo_ownership_def counterpart_unloaded_def)
  with client_fleet_handover [OF demo_dsp_ok(3,1) 4, of r True] r 4 show ?thesis
    by (intro exI [of _ "?F2(True := D)"]) (simp only: fun_upd_same set_simps insert_iff heir_counterpart_def, blast)
qed

end
