(* ===== verification/JoinExample.thy ===== *)
theory JoinExample
  imports HandoverModel DispatcherModel
begin

text \<open>
  Models \<open>splitter-client/examples/join.rs\<close>: a process that joins a service without a dispatcher and
  drives each grant itself. One part is the task \<open>run_lifecycle\<close> of a grant, the other the main loop,
  a \<open>select!\<close> over the snapshots, the grants, the closed latch and SIGINT.

  A task is the cell of its ownership and a program counter; between two awaits other tasks may do
  anything, so each statement is a step of its own. When \<open>main\<close> returns the process ends, so there are
  no steps any more. The clone of the snapshot receiver keeps what the original has seen, while
  \<open>subscribe_grants\<close> starts at the end of what has been sent.
\<close>

section \<open>The task of a grant\<close>

datatype life_pc =
    AwaitUnload
  | SignalLoad      \<comment> \<open>before \<open>loader.load\<close>\<close>
  | AwaitActive
  | AwaitRevoke
  | SignalUnload    \<comment> \<open>before \<open>unloader.unload\<close>\<close>
  | AwaitLoad
  | LifeEnd

text \<open>Success of a wait continues, an error returns.\<close>

definition continue_or_return :: "life_pc \<Rightarrow> (ClientError + 'a) list \<Rightarrow> life_pc list" where
  "continue_or_return next results = map (\<lambda>r. case r of Inr _ \<Rightarrow> next | Inl e \<Rightarrow> LifeEnd) results"

fun life_moves :: "life_pc \<Rightarrow> Ownership \<Rightarrow> life_pc list" where
  "life_moves AwaitUnload w = continue_or_return SignalLoad (wait_for_unload w)"
| "life_moves SignalLoad w = [AwaitActive]"
| "life_moves AwaitActive w = continue_or_return AwaitRevoke (wait_for_active w)"
| "life_moves AwaitRevoke w = continue_or_return SignalUnload (wait_for_revoke w)"
| "life_moves SignalUnload w = [AwaitLoad]"
| "life_moves AwaitLoad w = continue_or_return LifeEnd (wait_for_load w)"
| "life_moves LifeEnd w = []"

text \<open>What leaving a point does to the ownership.\<close>

fun life_effect :: "life_pc \<Rightarrow> Ownership \<Rightarrow> Ownership" where
  "life_effect SignalLoad w = load w"
| "life_effect SignalUnload w = unload w"
| "life_effect _ w = w"

section \<open>The process\<close>

datatype main_pc =
    MainJoined                          \<comment> \<open>\<open>join\<close> has returned, before \<open>subscribe_grants\<close>\<close>
  | MainLoop
  | MainShutdown                        \<comment> \<open>in \<open>handle.shutdown\<close>\<close>
  | MainReturn "ClientError + unit"

record join_app =
  ja_pc :: main_pc
  ja_driver :: driver
  ja_unseen :: bool                     \<comment> \<open>the snapshot receiver has a value it has not seen\<close>
  ja_start :: nat                       \<comment> \<open>position of the subscription to the grants\<close>
  ja_read :: nat
  ja_lost :: nat
  ja_tasks :: "(GrantId \<times> Shard \<times> nat \<times> life_pc) list"

definition join_app_new :: "consumer_env \<Rightarrow> string \<Rightarrow> Instance \<Rightarrow> QualifiedServiceName \<Rightarrow> join_app" where
  "join_app_new E session_id consumer service =
     \<lparr>ja_pc = MainJoined, ja_driver = join E session_id consumer service options_default, ja_unseen = False,
      ja_start = 0, ja_read = 0, ja_lost = 0, ja_tasks = []\<rparr>"

definition subscribe :: "join_app \<Rightarrow> join_app" where
  "subscribe s =
     (let tail = length (dr_events (ja_driver s))
      in s\<lparr>ja_start := tail, ja_read := tail, ja_pc := MainLoop\<rparr>)"

definition main_return :: "ClientError + unit \<Rightarrow> join_app \<Rightarrow> join_app" where
  "main_return r s = s\<lparr>ja_pc := MainReturn r\<rparr>"

text \<open>The branches of the \<open>select!\<close>.\<close>

definition main_cluster :: "join_app \<Rightarrow> join_app" where
  "main_cluster s = (if ja_unseen s then s\<lparr>ja_unseen := False\<rparr> else main_return (Inr ()) s)"

definition main_grant :: "received \<Rightarrow> nat \<Rightarrow> join_app \<Rightarrow> join_app" where
  "main_grant r p s =
     (case r of
        Got (Assigned gid shard a) \<Rightarrow>
          s\<lparr>ja_read := p, ja_tasks := ja_tasks s @ [(gid, shard, a, AwaitUnload)]\<rparr>
      | Got (Removed gid) \<Rightarrow> s\<lparr>ja_read := p\<rparr>
      | Lagged n \<Rightarrow> s\<lparr>ja_read := p, ja_lost := ja_lost s + n\<rparr>
      | ChannelClosed \<Rightarrow> main_return (Inr ()) (s\<lparr>ja_read := p\<rparr>))"

definition main_interrupt :: "join_app \<Rightarrow> join_app" where
  "main_interrupt s =
     s\<lparr>ja_driver := (ja_driver s)\<lparr>dr_shutdown := close_latch (dr_shutdown (ja_driver s))\<rparr>, ja_pc := MainShutdown\<rparr>"

text \<open>The steps of \<open>main\<close>; \<open>changed\<close> is ready with an unseen value, or when the sender is gone.\<close>

inductive main_step :: "dispatcher_env \<Rightarrow> join_app \<Rightarrow> join_app \<Rightarrow> bool" for E :: dispatcher_env where
  subscribe: "ja_pc s = MainJoined \<Longrightarrow> main_step E s (subscribe s)"
| cluster: "ja_pc s = MainLoop \<Longrightarrow> ja_unseen s \<or> sender_gone (ja_driver s) \<Longrightarrow> main_step E s (main_cluster s)"
| grant: "ja_pc s = MainLoop \<Longrightarrow>
     de_recv E (ja_read s) (dr_events (ja_driver s)) (sender_gone (ja_driver s)) = Some (r, p) \<Longrightarrow>
     main_step E s (main_grant r p s)"
| closed: "ja_pc s = MainLoop \<Longrightarrow> is_closed (dr_closed (ja_driver s)) \<Longrightarrow> main_step E s (main_return (Inr ()) s)"
| interrupt: "ja_pc s = MainLoop \<Longrightarrow> main_step E s (main_interrupt s)"
| joined: "ja_pc s = MainShutdown \<Longrightarrow> driver_outcome (de_panic_text E) (dr_pc (ja_driver s)) = Some res \<Longrightarrow>
     main_step E s (main_return (shutdown_result (Some res)) s)"

definition set_life :: "nat \<Rightarrow> life_pc \<Rightarrow> join_app \<Rightarrow> join_app" where
  "set_life i c s = (case ja_tasks s ! i of (gid, shard, a, _) \<Rightarrow> s\<lparr>ja_tasks := (ja_tasks s)[i := (gid, shard, a, c)]\<rparr>)"

definition ended :: "join_app \<Rightarrow> bool" where
  "ended s \<longleftrightarrow> (\<exists>r. ja_pc s = MainReturn r)"

text \<open>What else happens in the process: the stream with its helper tasks, and the tasks of grants.\<close>

inductive task_step :: "dispatcher_env \<Rightarrow> join_app \<Rightarrow> join_app \<Rightarrow> bool" for E :: dispatcher_env where
  driver: "\<not> ended s \<Longrightarrow> drv_step (de_consumer E) (ja_driver s) d \<Longrightarrow> keeps_signals (ja_driver s) d \<Longrightarrow>
     task_step E s (s\<lparr>ja_driver := d, ja_unseen := ja_unseen s \<or> dr_cluster d \<noteq> dr_cluster (ja_driver s)\<rparr>)"
| resent: "\<not> ended s \<Longrightarrow> \<not> sender_gone (ja_driver s) \<Longrightarrow> task_step E s (s\<lparr>ja_unseen := True\<rparr>)"
| life: "\<not> ended s \<Longrightarrow> i < length (ja_tasks s) \<Longrightarrow> ja_tasks s ! i = (gid, shard, a, c) \<Longrightarrow>
     c' \<in> set (life_moves c (gc_own (dr_cells (ja_driver s) ! a))) \<Longrightarrow>
     task_step E s ((set_life i c' s)\<lparr>ja_driver := on_cell a (on_own (life_effect c)) (ja_driver s)\<rparr>)"

definition join_step :: "dispatcher_env \<Rightarrow> join_app \<Rightarrow> join_app \<Rightarrow> bool" where
  "join_step E s t \<longleftrightarrow> main_step E s t \<or> task_step E s t"

definition join_start :: "dispatcher_env \<Rightarrow> join_app \<Rightarrow> bool" where
  "join_start E s \<longleftrightarrow> (\<exists>session_id consumer service. s = join_app_new (de_consumer E) session_id consumer service)"

end
