(* ===== verification/JoinLaws.thy ===== *)
theory JoinLaws
  imports JoinExample ClientLaws
begin

text \<open>
  What the join example promises. Its life-cycle task is \<open>run_grant\<close> of the processor for a range that
  is initialised and drained at once (\<open>lone_life\<close>); its main loop hands out grants as the dispatcher's
  router does (\<open>as_router\<close>), and it ends after the driver's task has ended.
\<close>

section \<open>One run of a processor\<close>

text \<open>
  Steps in which no task of a run is cancelled: a run that was there is where it was, or where one of
  its own next moves leads.
\<close>

definition uncancelled :: "processor \<Rightarrow> processor \<Rightarrow> bool" where
  "uncancelled p p' \<longleftrightarrow> proc_step p p'
     \<and> (\<forall>i < length (pr_runs p). rn_pc (pr_runs p' ! i) = rn_pc (pr_runs p ! i)
          \<or> (\<exists>now e. (rn_pc (pr_runs p' ! i), e) \<in> set (moves now (pr_runs p ! i))))"

definition lone :: "run \<Rightarrow> bool" where
  "lone r \<longleftrightarrow> (\<exists>p. reach proc_start uncancelled p \<and> pr_runs p = [r])"

lemma uncancelled_one:
  assumes "proc_step p p'" and "pr_runs p = [r]" and "pr_runs p' = [r']"
    and "rn_pc r' = rn_pc r \<or> (rn_pc r', e) \<in> set (moves now r)"
  shows "uncancelled p p'"
  using assms unfolding uncancelled_def by auto

lemma loneI: "reach proc_start uncancelled p \<Longrightarrow> pr_runs p = [r] \<Longrightarrow> lone r"
  by (auto simp: lone_def)

lemma lone_start:
  assumes "own_fresh w" and "range_fresh g"
  shows "lone (run_new gid shard w g)"
proof (rule loneI)
  let ?p = "processor_init processor_new"
  have "reach proc_start uncancelled processor_new" by (rule reach_start) (simp add: proc_start_def)
  moreover have "uncancelled processor_new ?p"
    using proc_step.init [of processor_new] by (simp add: uncancelled_def processor_new_def)
  ultimately have p: "reach proc_start uncancelled ?p" by (rule reach_step)
  have "proc_step ?p (?p\<lparr>pr_runs := [run_new gid shard w g]\<rparr>)"
    by (rule proc_step.accept [where build = "\<lambda>_ _ _. Some g"])
      (use assms in \<open>auto simp: try_handle_def processor_init_def processor_new_def\<close>)
  then have "uncancelled ?p (?p\<lparr>pr_runs := [run_new gid shard w g]\<rparr>)"
    by (simp add: uncancelled_def processor_init_def processor_new_def)
  then show "reach proc_start uncancelled (?p\<lparr>pr_runs := [run_new gid shard w g]\<rparr>)" by (rule reach_step [OF p])
qed simp

lemma lone_move:
  assumes "lone r" and "mv \<in> set (moves now r)"
  shows "lone ((effect_on_run (snd mv) r)\<lparr>rn_pc := fst mv\<rparr>)"
proof -
  obtain p where p: "reach proc_start uncancelled p" "pr_runs p = [r]" using assms(1) by (auto simp: lone_def)
  have "proc_step p (move_run 0 mv p)" by (rule proc_step.move) (use p(2) assms(2) in simp_all)
  moreover have runs: "pr_runs (move_run 0 mv p) = [(effect_on_run (snd mv) r)\<lparr>rn_pc := fst mv\<rparr>]"
    using p(2) by (simp add: move_run_def Let_def)
  ultimately have "uncancelled p (move_run 0 mv p)"
    by (rule uncancelled_one [OF _ p(2), where e = "snd mv" and now = now]) (use assms(2) in simp)
  from loneI [OF reach_step [OF p(1) this] runs] show ?thesis .
qed

lemma lone_driver:
  assumes "lone r" and "driver_op x"
  shows "lone (r\<lparr>rn_own := own_apply x (rn_own r)\<rparr>)"
proof -
  obtain p where p: "reach proc_start uncancelled p" "pr_runs p = [r]" using assms(1) by (auto simp: lone_def)
  have "proc_step p (set_run 0 (r\<lparr>rn_own := own_apply x (rn_own r)\<rparr>) p)" by (rule proc_step.driver [OF _ assms(2)]) (use p(2) in simp_all)
  moreover have runs: "pr_runs (set_run 0 (r\<lparr>rn_own := own_apply x (rn_own r)\<rparr>) p) = [r\<lparr>rn_own := own_apply x (rn_own r)\<rparr>]" using p(2) by (simp add: set_run_def)
  ultimately have "uncancelled p (set_run 0 (r\<lparr>rn_own := own_apply x (rn_own r)\<rparr>) p)" by (rule uncancelled_one [OF _ p(2)]) simp
  from loneI [OF reach_step [OF p(1) this] runs] show ?thesis .
qed

lemma lone_range:
  assumes "lone r"
  shows "lone (r\<lparr>rn_range := range_apply x (rn_range r)\<rparr>)"
proof -
  obtain p where p: "reach proc_start uncancelled p" "pr_runs p = [r]" using assms(1) by (auto simp: lone_def)
  have "proc_step p (set_run 0 (r\<lparr>rn_range := range_apply x (rn_range r)\<rparr>) p)" by (rule proc_step.user_range) (use p(2) in simp_all)
  moreover have runs: "pr_runs (set_run 0 (r\<lparr>rn_range := range_apply x (rn_range r)\<rparr>) p) = [r\<lparr>rn_range := range_apply x (rn_range r)\<rparr>]" using p(2) by (simp add: set_run_def)
  ultimately have "uncancelled p (set_run 0 (r\<lparr>rn_range := range_apply x (rn_range r)\<rparr>) p)" by (rule uncancelled_one [OF _ p(2)]) simp
  from loneI [OF reach_step [OF p(1) this] runs] show ?thesis .
qed

text \<open>The same for a run given by its parts.\<close>

abbreviation lone_at :: "GrantId \<Rightarrow> Shard \<Rightarrow> Ownership \<Rightarrow> range \<Rightarrow> pc \<Rightarrow> bool" where
  "lone_at gid shard w g c \<equiv> lone \<lparr>rn_id = gid, rn_shard = shard, rn_own = w, rn_range = g, rn_pc = c\<rparr>"

lemma lone_next:
  assumes "lone_at gid shard w g c" and "(c', e) \<in> set (moves_at c now w g)"
  shows "lone ((effect_on_run e \<lparr>rn_id = gid, rn_shard = shard, rn_own = w, rn_range = g, rn_pc = c\<rparr>)\<lparr>rn_pc := c'\<rparr>)"
  using lone_move [OF assms(1), of "(c', e)" now] assms(2) by (simp add: moves_def)

lemma lone_quiet:
  assumes "lone_at gid shard w g c" and "(c', e) \<in> set (moves_at c now w g)" and "e \<in> {NoEffect, Delete} \<union> range Write"
  shows "lone_at gid shard w g c'"
  using lone_next [OF assms(1,2)] assms(3) by auto

section \<open>The life-cycle task as a run of a processor\<close>

fun grant_pc :: "life_pc \<Rightarrow> pc" where
  "grant_pc AwaitUnload = Step1"
| "grant_pc SignalLoad = Step2Allocate"
| "grant_pc AwaitActive = Step3"
| "grant_pc AwaitRevoke = Step4"
| "grant_pc SignalUnload = Step4Revoke"
| "grant_pc AwaitLoad = Step5Load"
| "grant_pc LifeEnd = Exited"

definition lone_life :: "GrantId \<Rightarrow> Shard \<Rightarrow> Ownership \<Rightarrow> life_pc \<Rightarrow> bool" where
  "lone_life gid shard w c \<longleftrightarrow>
     (\<exists>g. lone_at gid shard w g (grant_pc c)
        \<and> is_closed (rg_initialized g) \<and> \<not> is_closed (rg_closed g))"

lemma lone_life_start:
  assumes "own_fresh w"
  shows "lone_life gid shard w AwaitUnload"
  unfolding lone_life_def
  using lone_start [OF assms, of "range_new True" gid shard]
  by (intro exI [of _ "range_new True"]) (simp add: run_new_def range_fresh_def range_new_def)

lemma lone_life_driver:
  assumes "lone_life gid shard w c" and "driver_op x"
  shows "lone_life gid shard (own_apply x w) c"
proof -
  obtain g where g: "lone_at gid shard w g (grant_pc c)"
      "is_closed (rg_initialized g)" "\<not> is_closed (rg_closed g)"
    using assms(1) unfolding lone_life_def by blast
  show ?thesis
    unfolding lone_life_def by (rule exI [of _ g]) (use lone_driver [OF g(1) assms(2)] g(2,3) in simp)
qed

lemma lone_life_ops:
  assumes "list_all driver_op ops" and "lone_life gid shard w c"
  shows "lone_life gid shard (own_run ops w) c"
  using assms by (induction ops arbitrary: w) (simp_all add: own_run_def lone_life_driver)

text \<open>The end of a run: the guard deletes the entry and closes the range.\<close>

lemma lone_end:
  assumes "lone_at gid shard w g Cleanup" and "is_closed (rg_initialized g)" and "\<not> is_closed (rg_closed g)"
  shows "lone_life gid shard w LifeEnd"
proof -
  have "lone_at gid shard w g CleanupClose" by (rule lone_quiet [OF assms(1), of _ Delete 0]) simp_all
  from lone_next [OF this, of Exited CallClose 0] show ?thesis
    unfolding lone_life_def
    by (intro exI [of _ "g\<lparr>rg_close_calls := rg_close_calls g + 1\<rparr>"]) (simp add: assms(2,3))
qed

lemma continue_or_return_mem:
  "c \<in> set (continue_or_return n rs) \<longleftrightarrow> (\<exists>x. Inr x \<in> set rs \<and> c = n) \<or> (\<exists>e. Inl e \<in> set rs \<and> c = LifeEnd)"
  unfolding continue_or_return_def by (force split: sum.splits)

lemma continue_or_bail_mem:
  "mv \<in> set (continue_or_bail n rs) \<longleftrightarrow>
     (\<exists>x. Inr x \<in> set rs \<and> mv = (n, NoEffect)) \<or> (\<exists>e. Inl e \<in> set rs \<and> mv = (Cleanup, NoEffect))"
  unfolding continue_or_bail_def by (force split: sum.splits)

text \<open>The steps of \<open>run_grant\<close> between two points of the task.\<close>

lemma load_path:
  assumes "lone_at gid shard w g Step2Allocate" and "is_closed (rg_initialized g)"
  shows "lone_at gid shard (load w) g Step3"
proof -
  have "lone_at gid shard w g Step2"
    by (rule lone_quiet [OF assms(1), of _ "Write GrantState.Allocated" 0]) simp_all
  then have "lone_at gid shard w g Step2Load"
    by (rule lone_quiet [of _ _ _ _ _ _ NoEffect 0]) (simp_all add: continue_or_bail_def wait_for_action_def assms(2))
  from lone_next [OF this, of Step2Loaded CallLoad 0] have "lone_at gid shard (load w) g Step2Loaded" by simp
  then show ?thesis by (rule lone_quiet [of _ _ _ _ _ _ "Write GrantState.AllocatedLoaded" 0]) simp_all
qed

lemma unload_path:
  assumes "lone_at gid shard w g Step4Revoke" and "\<not> is_closed (rg_closed g)"
  shows "\<exists>g'. lone_at gid shard (unload w) g' Step5Load
    \<and> rg_initialized g' = rg_initialized g \<and> rg_closed g' = rg_closed g"
proof -
  let ?g1 = "g\<lparr>rg_drain_calls := rg_drain_calls g @ [time_left (ow_expiration w) 0]\<rparr>"
  let ?g2 = "?g1\<lparr>rg_drain_returned := True\<rparr>"
  let ?g3 = "?g2\<lparr>rg_drained := close_latch (rg_drained g)\<rparr>"
  have "lone_at gid shard w g Step4Drain"
    by (rule lone_quiet [OF assms(1), of _ "Write GrantState.Revoked" 0]) simp_all
  from lone_next [OF this, of Step4Draining "CallDrain (time_left (ow_expiration w) 0)" 0]
  have "lone_at gid shard w ?g1 Step4Draining" by simp
  from lone_range [OF this, of DrainReturns] have "lone_at gid shard w ?g2 Step4Draining" by simp
  from lone_range [OF this, of DrainDone] have "lone_at gid shard w ?g3 Step4Draining" by simp
  then have "lone_at gid shard w ?g3 Step5" by (rule lone_quiet [of _ _ _ _ _ _ NoEffect 0]) simp_all
  then have "lone_at gid shard w ?g3 Step5Check"
    by (rule lone_quiet [of _ _ _ _ _ _ NoEffect 0]) (simp_all add: continue_or_bail_def wait_for_action_def)
  then have "lone_at gid shard w ?g3 Step5Unload"
    by (rule lone_quiet [of _ _ _ _ _ _ NoEffect 0]) (simp_all add: assms(2))
  from lone_next [OF this, of Step5Unloaded CallUnload 0] have "lone_at gid shard (unload w) ?g3 Step5Unloaded" by simp
  then have "lone_at gid shard (unload w) ?g3 Step5Load"
    by (rule lone_quiet [of _ _ _ _ _ _ "Write GrantState.RevokedUnloaded" 0]) simp_all
  then show ?thesis by (intro exI [of _ ?g3]) simp
qed

text \<open>A wait of the task and the same wait of a run.\<close>

lemma await_path:
  assumes "lone_at gid shard w g c" and "moves_at c 0 w g = continue_or_bail n rs"
    and "is_closed (rg_initialized g)" and "\<not> is_closed (rg_closed g)"
  shows "Inr x \<in> set rs \<Longrightarrow> lone_at gid shard w g n" and "Inl e \<in> set rs \<Longrightarrow> lone_life gid shard w LifeEnd"
proof -
  show "lone_at gid shard w g n" if "Inr x \<in> set rs"
    by (rule lone_quiet [OF assms(1), of _ NoEffect 0]) (use that in \<open>auto simp: assms(2) continue_or_bail_mem\<close>)
  show "lone_life gid shard w LifeEnd" if "Inl e \<in> set rs"
  proof (rule lone_end [OF _ assms(3,4)])
    show "lone_at gid shard w g Cleanup"
      by (rule lone_quiet [OF assms(1), of _ NoEffect 0]) (use that in \<open>auto simp: assms(2) continue_or_bail_mem\<close>)
  qed
qed

lemma lone_life_move:
  assumes "c' \<in> set (life_moves c w)" and "lone_life gid shard w c"
  shows "lone_life gid shard (life_effect c w) c'"
proof -
  obtain g where g: "lone_at gid shard w g (grant_pc c)" and open_g: "is_closed (rg_initialized g)" "\<not> is_closed (rg_closed g)"
    using assms(2) unfolding lone_life_def by blast
  have here: "lone_life gid shard v d" if "lone_at gid shard v g (grant_pc d)" for v d
    using that open_g unfolding lone_life_def by blast
  show ?thesis
  proof (cases c)
    case AwaitUnload
    note path = await_path [of gid shard w g Step1 Step2Allocate "wait_for_unload w", OF _ _ open_g]
    from assms(1) AwaitUnload g path here [of w SignalLoad] show ?thesis
      by (auto simp: continue_or_return_mem)
  next
    case SignalLoad
    with assms(1) g load_path [OF _ open_g(1)] here [of "load w" AwaitActive] show ?thesis by simp
  next
    case AwaitActive
    note path = await_path [of gid shard w g Step3 Step3Activate "wait_for_active w", OF _ _ open_g]
    have go: "lone_at gid shard w g Step4" if "lone_at gid shard w g Step3Activate"
      using that by (rule lone_quiet [of _ _ _ _ _ _ "Write GrantState.Active" 0]) simp_all
    from assms(1) AwaitActive g path go here [of w AwaitRevoke] show ?thesis
      by (auto simp: continue_or_return_mem)
  next
    case AwaitRevoke
    note path = await_path [of gid shard w g Step4 Step4Revoke "wait_for_revoke w", OF _ _ open_g]
    from assms(1) AwaitRevoke g path here [of w SignalUnload] show ?thesis
      by (auto simp: continue_or_return_mem)
  next
    case SignalUnload
    with g have "lone_at gid shard w g Step4Revoke" by simp
    from unload_path [OF this open_g(2)] obtain g' where "lone_at gid shard (unload w) g' Step5Load"
      "rg_initialized g' = rg_initialized g" "rg_closed g' = rg_closed g" by blast
    with assms(1) SignalUnload open_g show ?thesis unfolding lone_life_def by (intro exI [of _ g']) simp
  next
    case AwaitLoad
    note path = await_path [of gid shard w g Step5Load Cleanup "wait_for_load w", OF _ _ open_g]
    from assms(1) AwaitLoad g path lone_end [OF _ open_g, of gid shard w] show ?thesis
      by (auto simp: continue_or_return_mem)
  next
    case LifeEnd
    with assms(1) show ?thesis by simp
  qed
qed

section \<open>Invariant of the process\<close>

text \<open>The main loop seen as a router.\<close>

definition task_grant :: "GrantId \<times> Shard \<times> nat \<times> life_pc \<Rightarrow> GrantId \<times> Shard \<times> nat" where
  "task_grant t = (case t of (gid, shard, a, c) \<Rightarrow> (gid, shard, a))"

definition as_router :: "join_app \<Rightarrow> (unit, unit) dispatcher" where
  "as_router s =
     \<lparr>ds_pc = (if ja_pc s = MainJoined then SeedPool else Running), ds_driver = ja_driver s, ds_user = (),
      ds_pool = pool_new (\<lambda>t. Inl t) (InstanceId 0), ds_unseen = ja_unseen s, ds_snapshot = None,
      ds_start = ja_start s, ds_read = ja_read s, ds_lost = ja_lost s,
      ds_dispatched = map task_grant (ja_tasks s), ds_router = (ja_pc s = MainLoop),
      ds_updater = False, ds_watcher = False, ds_closed = fresh_latch\<rparr>"

definition task_cells :: "join_app \<Rightarrow> nat list" where
  "task_cells s = map (\<lambda>(gid, shard, a, c). a) (ja_tasks s)"

definition tasks_ok :: "join_app \<Rightarrow> bool" where
  "tasks_ok s \<longleftrightarrow>
     (\<forall>gid shard a c. (gid, shard, a, c) \<in> set (ja_tasks s) \<longrightarrow>
        lone_life gid shard (gc_own (dr_cells (ja_driver s) ! a)) c)
     \<and> (\<forall>a < length (dr_cells (ja_driver s)). a \<notin> set (task_cells s) \<longrightarrow>
        own_fresh (gc_own (dr_cells (ja_driver s) ! a)))"

definition join_inv :: "join_app \<Rightarrow> bool" where
  "join_inv s \<longleftrightarrow> route_inv (as_router s) \<and> named (ja_driver s) \<and> tasks_ok s"

lemma task_cells_router: "task_cells s = map (snd \<circ> snd) (ds_dispatched (as_router s))"
  by (auto simp: task_cells_def as_router_def task_grant_def)

lemma join_inv_cells:
  assumes "join_inv s"
  shows "distinct (task_cells s)" and "a \<in> set (task_cells s) \<Longrightarrow> a < length (dr_cells (ja_driver s))"
    and "(gid, shard, a, c) \<in> set (ja_tasks s) \<Longrightarrow> gid = GrantId (pbg_id (gc_pb (dr_cells (ja_driver s) ! a)))"
proof -
  have r: "route_inv (as_router s)" and n: "named (ds_driver (as_router s))"
    using assms by (simp_all add: join_inv_def as_router_def)
  show "distinct (task_cells s)" using dispatched_distinct [OF r] by (simp add: task_cells_router)
  note cell = dispatched_cell [OF r n]
  have task: "(gid, shard, a) \<in> set (ds_dispatched (as_router s))" if "(gid, shard, a, c) \<in> set (ja_tasks s)"
    for gid shard a c
    using that by (force simp: as_router_def task_grant_def image_iff)
  show "a < length (dr_cells (ja_driver s))" if mem: "a \<in> set (task_cells s)"
  proof -
    obtain gid shard c where "(gid, shard, a, c) \<in> set (ja_tasks s)" using mem by (auto simp: task_cells_def)
    from cell(1) [OF task [OF this]] show ?thesis by (simp add: as_router_def)
  qed
  show "gid = GrantId (pbg_id (gc_pb (dr_cells (ja_driver s) ! a)))" if "(gid, shard, a, c) \<in> set (ja_tasks s)"
    using cell(2) [OF task [OF that]] by (simp add: as_router_def)
qed

text \<open>What does not touch the ownerships and the tasks.\<close>

lemma tasks_ok_cong:
  "dr_cells (ja_driver t) = dr_cells (ja_driver s) \<Longrightarrow> ja_tasks t = ja_tasks s \<Longrightarrow> tasks_ok t \<longleftrightarrow> tasks_ok s"
  by (simp add: tasks_ok_def task_cells_def)

lemma tasks_ok_driver:
  assumes "tasks_ok s" and "evolves (ja_driver s) d"
    and "\<And>a. a \<in> set (task_cells s) \<Longrightarrow> a < length (dr_cells (ja_driver s))"
  shows "tasks_ok (s\<lparr>ja_driver := d, ja_unseen := b\<rparr>)"
proof -
  have own: "\<exists>ops. list_all driver_op ops \<and> gc_own (dr_cells d ! a) = own_run ops (gc_own (dr_cells (ja_driver s) ! a))"
    if "a < length (dr_cells (ja_driver s))" for a
    using evolvesD(3) [OF assms(2) that] .
  have life: "lone_life gid shard (gc_own (dr_cells d ! a)) c" if t: "(gid, shard, a, c) \<in> set (ja_tasks s)" for gid shard a c
  proof -
    have "a < length (dr_cells (ja_driver s))" using assms(3) t by (force simp: task_cells_def)
    from own [OF this] obtain ops where "list_all driver_op ops"
      "gc_own (dr_cells d ! a) = own_run ops (gc_own (dr_cells (ja_driver s) ! a))" by blast
    then show ?thesis using lone_life_ops assms(1) t by (simp add: tasks_ok_def)
  qed
  have fresh: "own_fresh (gc_own (dr_cells d ! a))" if a: "a < length (dr_cells d)" "a \<notin> set (task_cells s)" for a
  proof (cases "a < length (dr_cells (ja_driver s))")
    case True
    from own [OF this] obtain ops where "list_all driver_op ops"
      "gc_own (dr_cells d ! a) = own_run ops (gc_own (dr_cells (ja_driver s) ! a))" by blast
    with assms(1) a True show ?thesis by (simp add: tasks_ok_def own_fresh_run)
  next
    case False
    with evolvesD(4) [OF assms(2)] a(1) show ?thesis by simp
  qed
  from life fresh show ?thesis by (simp add: tasks_ok_def task_cells_def)
qed

lemma join_inv_driver:
  assumes inv: "join_inv s" and step: "drv_step E (ja_driver s) d" and kept: "keeps_signals (ja_driver s) d"
  shows "join_inv (s\<lparr>ja_driver := d, ja_unseen := b\<rparr>)"
proof -
  let ?t = "s\<lparr>ja_driver := d, ja_unseen := b\<rparr>"
  have r: "route_inv (as_router s)" and n: "named (ja_driver s)" and t: "tasks_ok s"
    using inv by (simp_all add: join_inv_def)
  have bounds: "ja_start s \<le> ja_read s" "ja_read s \<le> length (dr_events (ja_driver s))"
    using r by (simp_all add: route_inv_def as_router_def)
  have "route_inv (as_router ?t)"
  proof -
    have grow: "length (dr_events (ja_driver s)) \<le> length (dr_events d)"
      using events_grow [OF step] by (rule prefix_length_le)
    have "drv_step E (ds_driver (as_router s)) d" using step by (simp add: as_router_def)
    from passed_driver [OF this, of b] bounds have "passed (as_router ?t) = passed (as_router s)"
      by (simp add: passed_def as_router_def)
    with r grow addressed_step [OF step] show ?thesis by (auto simp: route_inv_def as_router_def)
  qed
  moreover have "named d" using naming.inv_step [OF n step] .
  moreover have "tasks_ok ?t"
    by (rule tasks_ok_driver [OF t driver_step_evolves [OF step kept]]) (rule join_inv_cells(2) [OF inv])
  ultimately show ?thesis by (simp add: join_inv_def)
qed

lemma set_life_fields:
  assumes "ja_tasks s ! i = (gid, shard, a, c)"
  shows "set_life i c' s = s\<lparr>ja_tasks := (ja_tasks s)[i := (gid, shard, a, c')]\<rparr>"
  by (simp add: set_life_def assms)

lemma join_inv_life:
  assumes inv: "join_inv s" and i: "i < length (ja_tasks s)" "ja_tasks s ! i = (gid, shard, a, c)"
    and c': "c' \<in> set (life_moves c (gc_own (dr_cells (ja_driver s) ! a)))"
  shows "join_inv ((set_life i c' s)\<lparr>ja_driver := on_cell a (on_own (life_effect c)) (ja_driver s)\<rparr>)"
proof -
  let ?d = "on_cell a (on_own (life_effect c)) (ja_driver s)"
  let ?ts = "(ja_tasks s)[i := (gid, shard, a, c')]"
  let ?t = "s\<lparr>ja_tasks := ?ts, ja_driver := ?d\<rparr>"
  have r: "route_inv (as_router s)" and n: "named (ja_driver s)" and t: "tasks_ok s"
    using inv by (simp_all add: join_inv_def)
  have same: "map task_grant ?ts = map task_grant (ja_tasks s)"
    using i by (metis (no_types, lifting) case_prod_conv list_update_id map_update nth_map task_grant_def)
  have cells: "task_cells ?t = task_cells s"
    using same by (simp add: task_cells_router as_router_def map_map [symmetric] del: map_map)
  have dis: "distinct (task_cells s)" by (rule join_inv_cells(1) [OF inv])
  have other: "a' \<noteq> a" if "j < length (ja_tasks s)" "j \<noteq> i" "ja_tasks s ! j = (gid', shard', a', d')" for j gid' shard' a' d'
    using nth_eq_iff_index_eq [OF dis, of i j] i that by (auto simp: task_cells_def)
  have a: "a < length (dr_cells (ja_driver s))"
    using join_inv_cells(2) [OF inv, of a] i by (force simp: task_cells_def in_set_conv_nth)
  have life: "lone_life gid' shard' (gc_own (dr_cells ?d ! a')) d'" if m: "(gid', shard', a', d') \<in> set ?ts" for gid' shard' a' d'
  proof -
    obtain j where j: "j < length (ja_tasks s)" "?ts ! j = (gid', shard', a', d')"
      using m by (auto simp: in_set_conv_nth)
    show ?thesis
    proof (cases "j = i")
      case True
      then have "gid' = gid" "shard' = shard" "a' = a" "d' = c'" using j i(1) by auto
      moreover have "lone_life gid shard (gc_own (dr_cells (ja_driver s) ! a)) c"
        using t i nth_mem [OF i(1)] by (simp add: tasks_ok_def)
      ultimately show ?thesis using lone_life_move [OF c'] a by (simp add: on_cell_nth)
    next
      case False
      then have at: "ja_tasks s ! j = (gid', shard', a', d')" using j by simp
      then have task: "(gid', shard', a', d') \<in> set (ja_tasks s)" using nth_mem [OF j(1)] by simp
      then have "a' < length (dr_cells (ja_driver s))"
        using join_inv_cells(2) [OF inv, of a'] by (force simp: task_cells_def)
      with other [OF j(1) False at] t task show ?thesis by (simp add: tasks_ok_def on_cell_nth)
    qed
  qed
  have "a \<in> set (task_cells s)" using i by (force simp: task_cells_def in_set_conv_nth)
  then have "own_fresh (gc_own (dr_cells ?d ! a'))" if "a' < length (dr_cells ?d)" "a' \<notin> set (task_cells ?t)" for a'
    using that t cells by (auto simp: tasks_ok_def on_cell_nth)
  with life have "tasks_ok ?t" by (simp add: tasks_ok_def)
  moreover have "route_inv (as_router ?t)"
    by (rule route_inv_cong [OF _ _ _ _ _ _ _ r]) (simp_all add: as_router_def same split: if_splits)
  moreover have "named ?d" using n by (rule named_on_cell) simp
  ultimately show ?thesis by (simp add: join_inv_def set_life_fields [OF i(2)])
qed

text \<open>Steps that leave the stream's cells, its events and the tasks alone.\<close>

lemma join_inv_same:
  assumes "join_inv s" and "ja_tasks t = ja_tasks s" and "dr_events (ja_driver t) = dr_events (ja_driver s)"
    and "dr_cells (ja_driver t) = dr_cells (ja_driver s)"
    and "ja_start t = ja_start s" "ja_read t = ja_read s" "ja_lost t = ja_lost s" "ja_pc t \<noteq> MainJoined"
  shows "join_inv t"
proof -
  have "route_inv (as_router t)"
    by (rule route_inv_cong [of _ "as_router s"]) (use assms in \<open>simp_all add: join_inv_def as_router_def\<close>)
  with assms show ?thesis by (simp add: join_inv_def tasks_ok_cong [of t s] named_cong [of "ja_driver t" "ja_driver s"])
qed

lemma main_grant_router: "ja_pc s = MainLoop \<Longrightarrow> as_router (main_grant r p s) = route r p (as_router s)"
  by (cases r) (auto simp: main_grant_def route_def as_router_def main_return_def task_grant_def split: GrantEvent.split)

lemma join_inv_grant:
  assumes recv: "broadcast_ok (de_recv E)" and inv: "join_inv s" and pc: "ja_pc s = MainLoop"
    and got: "de_recv E (ja_read s) (dr_events (ja_driver s)) (sender_gone (ja_driver s)) = Some (r, p)"
  shows "join_inv (main_grant r p s)"
proof -
  let ?t = "main_grant r p s"
  have route: "route_inv (as_router s)" and n: "named (ja_driver s)" and t: "tasks_ok s"
    using inv by (simp_all add: join_inv_def)
  have "route_inv (route r p (as_router s))"
    by (rule route_step_inv [OF route recv, of "sender_gone (ja_driver s)"]) (use pc got in \<open>simp_all add: as_router_def\<close>)
  then have route': "route_inv (as_router ?t)" by (simp add: main_grant_router [OF pc])
  have d: "ja_driver ?t = ja_driver s"
    by (simp add: main_grant_def main_return_def split: received.split GrantEvent.split)
  have "tasks_ok ?t"
  proof (cases "\<exists>gid shard a. r = Got (Assigned gid shard a)")
    case True
    then obtain gid shard a where r: "r = Got (Assigned gid shard a)" by blast
    have ts: "ja_tasks ?t = ja_tasks s @ [(gid, shard, a, AwaitUnload)]" by (simp add: main_grant_def r)
    have new: "a \<notin> set (task_cells s)"
      using dispatched_distinct [OF route'] unfolding task_cells_router [symmetric] by (simp add: task_cells_def ts)
    have "a < length (dr_cells (ja_driver s))"
      using dispatched_cell(1) [OF route', of gid shard a] n by (simp add: as_router_def d ts task_grant_def)
    with new t have "own_fresh (gc_own (dr_cells (ja_driver s) ! a))" by (simp add: tasks_ok_def)
    with t show ?thesis by (auto simp: tasks_ok_def task_cells_def d ts lone_life_start)
  next
    case False
    then have "ja_tasks ?t = ja_tasks s"
      by (auto simp: main_grant_def main_return_def split: received.split GrantEvent.split)
    then show ?thesis using t tasks_ok_cong [of ?t s] d by simp
  qed
  with route' n d show ?thesis by (simp add: join_inv_def)
qed

lemma join_inv_main:
  assumes "broadcast_ok (de_recv E)" and inv: "join_inv s" and "main_step E s t"
  shows "join_inv t"
  using assms(3)
proof cases
  case subscribe
  have "route_inv (as_router (subscribe s))"
    using inv subscribe by (simp add: join_inv_def route_inv_def as_router_def subscribe_def Let_def passed_def)
  then show ?thesis
    using inv tasks_ok_cong [of "subscribe s" s] by (simp add: join_inv_def subscribe subscribe_def Let_def)
next
  case (grant r p)
  then show ?thesis using join_inv_grant [OF assms(1) inv] by simp
next
  case cluster
  then show ?thesis by (intro join_inv_same [OF inv]) (simp_all add: main_cluster_def main_return_def)
next
  case interrupt
  then show ?thesis by (intro join_inv_same [OF inv]) (simp_all add: main_interrupt_def)
qed (intro join_inv_same [OF inv]; simp add: main_return_def)+

lemma join_inv_step:
  assumes "broadcast_ok (de_recv E)" and inv: "join_inv s" and "join_step E s t"
  shows "join_inv t"
  using assms(3) unfolding join_step_def
proof
  assume "task_step E s t"
  then show ?thesis
  proof cases
    case (driver d)
    then show ?thesis using join_inv_driver [OF inv] by simp
  next
    case resent
    have "route_inv (as_router (s\<lparr>ja_unseen := True\<rparr>))"
      by (rule route_inv_cong [of _ "as_router s"]) (use inv in \<open>simp_all add: join_inv_def as_router_def\<close>)
    then show ?thesis using inv tasks_ok_cong [of t s] by (simp add: resent join_inv_def)
  next
    case (life i gid shard a c c')
    then show ?thesis using join_inv_life [OF inv] by simp
  qed
qed (rule join_inv_main [OF assms(1) inv])

lemma join_inv_start: "join_start E s \<Longrightarrow> join_inv s"
  by (auto simp: join_start_def join_app_new_def join_inv_def as_router_def route_inv_def passed_def addressed_def
      named_def tasks_ok_def join_def driver_new_def)

interpretation join_system: invariant_system "join_start E" "join_step E" "\<lambda>s. broadcast_ok (de_recv E) \<longrightarrow> join_inv s" for E
  by unfold_locales (auto intro: join_inv_start join_inv_step)

section \<open>Properties\<close>

text \<open>The events the main loop has been past.\<close>

definition main_passed :: "join_app \<Rightarrow> GrantEvent list" where
  "main_passed s = take (ja_read s - ja_start s) (List.drop (ja_start s) (dr_events (ja_driver s)))"

lemma main_hands_out:
  assumes "join_inv s"
  shows "subseq (map task_grant (ja_tasks s)) (assigned_of (main_passed s))"
    and "ja_lost s = 0 \<Longrightarrow> map task_grant (ja_tasks s) = assigned_of (main_passed s)"
proof -
  have r: "route_inv (as_router s)" using assms by (simp add: join_inv_def)
  have p: "passed (as_router s) = main_passed s" by (simp add: passed_def as_router_def main_passed_def)
  from r show sub: "subseq (map task_grant (ja_tasks s)) (assigned_of (main_passed s))"
    unfolding p [symmetric] by (simp add: route_inv_def as_router_def)
  show "map task_grant (ja_tasks s) = assigned_of (main_passed s)" if "ja_lost s = 0"
  proof (rule subseq_same_length [OF sub])
    have "length (assigned_of (main_passed s)) \<le> length (ja_tasks s)"
      using r that unfolding p [symmetric] by (simp add: route_inv_def as_router_def)
    with list_emb_length [OF sub] show "length (map task_grant (ja_tasks s)) = length (assigned_of (main_passed s))" by simp
  qed
qed

text \<open>The task of a grant waits exactly where \<open>run_grant\<close> waits.\<close>

lemma life_waits: "life_moves c w = [] \<longleftrightarrow> moves_at (grant_pc c) now w g = []"
  by (cases c) (simp_all add: continue_or_return_def continue_or_bail_def)

text \<open>
  C8. The join example is a processor without a range. Its main loop starts one task for each grant
  announced in the events it has been past, in their order, as long as the broadcast has not
  lagged, and never more than one on the same ownership. At every moment a task is where a run of
  \<open>run_grant\<close> on the same grant and ownership can be without having been cancelled, on a range that is
  initialised and does not close itself; and it waits exactly when such a run waits. So the signals
  of the example obey the order of the hand-over protocol that holds for processors, and a task
  ends early only where a run does so by itself.
\<close>

theorem join_refines_processor:
  assumes "broadcast_ok (de_recv E)" and "reach (join_start E) (join_step E) s"
  shows "subseq (map task_grant (ja_tasks s)) (assigned_of (main_passed s))
    \<and> (ja_lost s = 0 \<longrightarrow> map task_grant (ja_tasks s) = assigned_of (main_passed s))
    \<and> distinct (task_cells s)
    \<and> (\<forall>(gid, shard, a, c) \<in> set (ja_tasks s).
         gid = GrantId (pbg_id (gc_pb (dr_cells (ja_driver s) ! a)))
         \<and> (\<exists>p r. reach proc_start uncancelled p \<and> pr_runs p = [r] \<and> rn_id r = gid \<and> rn_shard r = shard
              \<and> rn_own r = gc_own (dr_cells (ja_driver s) ! a) \<and> rn_pc r = grant_pc c
              \<and> is_closed (rg_initialized (rn_range r)) \<and> \<not> is_closed (rg_closed (rn_range r))
              \<and> (life_moves c (rn_own r) = [] \<longleftrightarrow> moves now r = [])))"
proof -
  have inv: "join_inv s" using join_system.reach_inv [OF assms(2)] assms(1) by simp
  have "gid = GrantId (pbg_id (gc_pb (dr_cells (ja_driver s) ! a)))
      \<and> (\<exists>p r. reach proc_start uncancelled p \<and> pr_runs p = [r] \<and> rn_id r = gid \<and> rn_shard r = shard
           \<and> rn_own r = gc_own (dr_cells (ja_driver s) ! a) \<and> rn_pc r = grant_pc c
           \<and> is_closed (rg_initialized (rn_range r)) \<and> \<not> is_closed (rg_closed (rn_range r))
           \<and> (life_moves c (rn_own r) = [] \<longleftrightarrow> moves now r = []))"
    if t: "(gid, shard, a, c) \<in> set (ja_tasks s)" for gid shard a c
  proof -
    have "lone_life gid shard (gc_own (dr_cells (ja_driver s) ! a)) c"
      using inv t by (simp add: join_inv_def tasks_ok_def)
    then obtain p g where "reach proc_start uncancelled p" and runs: "pr_runs p =
        [\<lparr>rn_id = gid, rn_shard = shard, rn_own = gc_own (dr_cells (ja_driver s) ! a), rn_range = g, rn_pc = grant_pc c\<rparr>]"
      and "is_closed (rg_initialized g)" "\<not> is_closed (rg_closed g)"
      unfolding lone_life_def lone_def by blast
    moreover have "life_moves c (gc_own (dr_cells (ja_driver s) ! a)) = [] \<longleftrightarrow>
        moves now \<lparr>rn_id = gid, rn_shard = shard, rn_own = gc_own (dr_cells (ja_driver s) ! a), rn_range = g, rn_pc = grant_pc c\<rparr> = []"
      by (simp add: moves_def life_waits [of c _ now g])
    ultimately show ?thesis using join_inv_cells(3) [OF inv t] by fastforce
  qed
  with main_hands_out [OF inv] join_inv_cells(1) [OF inv] show ?thesis by blast
qed

section \<open>The end of the main loop\<close>

text \<open>The turns that are left to the loop once nothing more is sent.\<close>

definition main_left :: "join_app \<Rightarrow> nat" where
  "main_left s = (if ja_unseen s then 1 else 0) + (length (dr_events (ja_driver s)) - ja_read s)"

text \<open>Executions, with the number of steps that \<open>main\<close> takes.\<close>

inductive join_run :: "dispatcher_env \<Rightarrow> join_app \<Rightarrow> nat \<Rightarrow> join_app \<Rightarrow> bool"
  for E :: dispatcher_env and s :: join_app where
  none: "join_run E s 0 s"
| main: "join_run E s n t \<Longrightarrow> main_step E t u \<Longrightarrow> join_run E s (Suc n) u"
| task: "join_run E s n t \<Longrightarrow> task_step E t u \<Longrightarrow> join_run E s n u"

lemma sender_gone_frozen:
  assumes "drv_step E d d'" and "sender_gone d"
  shows "sender_gone d' \<and> dr_events d' = dr_events d \<and> dr_cluster d' = dr_cluster d"
  using assms by cases (auto simp: sender_gone_def watcher_send_def send_out_def)

lemma task_step_left:
  assumes "task_step E s t" and "sender_gone (ja_driver s)"
  shows "sender_gone (ja_driver t) \<and> main_left t = main_left s \<and> ja_pc t = ja_pc s"
  using assms(1)
proof cases
  case (driver d)
  then show ?thesis using sender_gone_frozen [OF driver(3) assms(2)] by (simp add: main_left_def)
next
  case (life i gid shard a c c')
  then show ?thesis using assms(2) by (simp add: set_life_fields main_left_def sender_gone_def)
qed (use assms(2) in simp)

lemma main_step_left:
  assumes recv: "broadcast_ok (de_recv E)" and inv: "join_inv s" and gone: "sender_gone (ja_driver s)"
    and step: "main_step E s t" and pc: "ja_pc s = MainLoop"
  shows "sender_gone (ja_driver t) \<and> (ja_pc t = MainLoop \<longrightarrow> main_left t < main_left s)
    \<and> ja_pc t \<in> {MainLoop, MainShutdown, MainReturn (Inr ())}"
  using step
proof cases
  case cluster
  then show ?thesis using gone pc by (simp add: main_cluster_def main_return_def main_left_def)
next
  case (grant r p)
  have "ja_read s \<le> length (dr_events (ja_driver s))"
    using inv by (simp add: join_inv_def route_inv_def as_router_def)
  note law = broadcast_okD [OF recv this grant(3)]
  show ?thesis
  proof (cases r)
    case (Got e)
    from law(1) [OF Got] gone pc show ?thesis
      by (auto simp: grant(1) Got main_grant_def main_left_def split: GrantEvent.split)
  next
    case (Lagged n)
    with law(2) grant(1) gone pc show ?thesis by (auto simp: main_grant_def main_left_def)
  next
    case ChannelClosed
    with grant(1) gone show ?thesis by (simp add: main_grant_def main_return_def)
  qed
qed (use gone pc in \<open>simp_all add: main_return_def main_interrupt_def sender_gone_def\<close>)

lemma main_stays_out:
  assumes "main_step E s t" and "ja_pc s \<noteq> MainLoop" and "ja_pc s \<noteq> MainJoined"
  shows "ja_pc t \<noteq> MainLoop \<and> ja_pc t \<noteq> MainJoined \<and> ja_driver t = ja_driver s"
  using assms by cases (auto simp: main_return_def)

lemma join_run_left:
  assumes recv: "broadcast_ok (de_recv E)" and inv: "join_inv s" and gone: "sender_gone (ja_driver s)"
    and pc: "ja_pc s = MainLoop" and "join_run E s n t"
  shows "join_inv t \<and> sender_gone (ja_driver t) \<and> ja_pc t \<noteq> MainJoined
    \<and> (ja_pc t = MainLoop \<longrightarrow> n + main_left t \<le> main_left s)"
  using assms(5)
proof (induction rule: join_run.induct)
  case none
  then show ?case using inv gone pc by simp
next
  case (main n t u)
  then have t: "join_inv t" "sender_gone (ja_driver t)" "ja_pc t \<noteq> MainJoined" by simp_all
  have "join_inv u" by (rule join_inv_main [OF recv t(1) main(2)])
  moreover have "sender_gone (ja_driver u) \<and> ja_pc u \<noteq> MainJoined
      \<and> (ja_pc u = MainLoop \<longrightarrow> Suc n + main_left u \<le> main_left s)"
  proof (cases "ja_pc t = MainLoop")
    case True
    with main_step_left [OF recv t(1,2) main(2)] main(3) show ?thesis by auto
  next
    case False
    with main_stays_out [OF main(2) _ t(3)] t(2) show ?thesis by simp
  qed
  ultimately show ?case by simp
next
  case (task n t u)
  then have "join_inv u" using join_inv_step [OF recv, of t u] by (simp add: join_step_def)
  with task task_step_left [OF task(2)] show ?case by simp
qed

text \<open>
  C16. The main loop of the example ends after its stream has ended, whatever ended it: once the driver's
  task is over the loop can always take a step, it takes at most one turn for a snapshot it has
  not seen and one for each event it has not read, and unless it is interrupted \<open>main\<close> then returns
  without an error, even if the stream failed.
\<close>

theorem join_loop_ends:
  assumes "broadcast_ok (de_recv E)" and "reach (join_start E) (join_step E) s"
    and "sender_gone (ja_driver s)" and "ja_pc s = MainLoop"
    and "join_run E s n t" and "ja_pc t = MainLoop"
  shows "n \<le> main_left s \<and> (\<exists>u. main_step E t u \<and> ja_pc u \<noteq> MainShutdown)
    \<and> (\<forall>u. main_step E t u \<longrightarrow> ja_pc u \<in> {MainLoop, MainShutdown, MainReturn (Inr ())})"
proof -
  have inv: "join_inv s" using join_system.reach_inv [OF assms(2)] assms(1) by simp
  note t = join_run_left [OF assms(1) inv assms(3,4,5)]
  have "main_step E t (main_cluster t)" by (rule main_step.cluster) (use t assms(6) in simp_all)
  moreover have "ja_pc (main_cluster t) \<noteq> MainShutdown" using assms(6) by (simp add: main_cluster_def main_return_def)
  ultimately show ?thesis using t assms(1,6) main_step_left [of E t] by auto
qed

end
