(* ===== verification/JoinRuns.thy ===== *)
theory JoinRuns
  imports JoinLaws HandoverRuns DispatcherRuns
begin

text \<open>
  The join example up to its first grant, when the server closes the session. It witnesses the
  properties of \<open>JoinLaws\<close>; a dispatcher would wait for ever in this situation.
\<close>

definition app_with :: "driver \<Rightarrow> main_pc \<Rightarrow> join_app" where
  "app_with d c =
     \<lparr>ja_pc = c, ja_driver = d, ja_unseen = False, ja_start = 0, ja_read = 0, ja_lost = 0, ja_tasks = []\<rparr>"

definition server_close :: pb_JoinMessage where
  "server_close = session_wrap (session_Request.Closed \<lparr>cl_error = ''''\<rparr>)"

definition app_closed :: join_app where
  "app_closed = app_with (inbound_branch demo_consumer_env 0 (Item server_close) (select_enter live_assigned)) MainLoop"

abbreviation app_reach :: "join_app \<Rightarrow> bool" where
  "app_reach \<equiv> reach (join_start demo_dsp_env) (join_step demo_dsp_env)"

lemma app_driver_step:
  assumes "app_reach (app_with d c)" and "drv_step demo_consumer_env d d'" and "keeps_signals d d'"
    and "dr_cluster d' = dr_cluster d" and "c = MainLoop"
  shows "app_reach (app_with d' c)"
proof -
  have "task_step demo_dsp_env (app_with d c) ((app_with d c)\<lparr>ja_driver := d',
      ja_unseen := ja_unseen (app_with d c) \<or> dr_cluster d' \<noteq> dr_cluster (ja_driver (app_with d c))\<rparr>)"
    by (rule task_step.driver) (use assms(2,3,5) in \<open>simp_all add: app_with_def ended_def demo_dsp_env_def\<close>)
  then have "join_step demo_dsp_env (app_with d c) (app_with d' c)"
    unfolding join_step_def using assms(4) by (simp add: app_with_def)
  then show ?thesis by (rule reach_step [OF assms(1)])
qed

lemma closed_by_server:
  "inbound_branch demo_consumer_env 0 (Item server_close) d = d\<lparr>dr_pc := EarlyReturn (SessionClosed '''')\<rparr>"
  by (simp add: inbound_branch_def server_close_def handle_inbound_def session_wrap_def classify_def)

lemma app_closed_reach: "app_reach app_closed"
proof -
  have "join_app_new demo_consumer_env ''s'' (demo_instance 1 ''h1:1'') (qsn_new ''acme'' ''widgets'') =
      app_with demo_joined MainJoined"
    by (simp add: join_app_new_def app_with_def demo_joined_def)
  then have 0: "app_reach (app_with demo_joined MainJoined)"
    by (intro reach_start) (unfold join_start_def, metis demo_dsp_env_def dispatcher_env.select_convs(1))
  have "main_step demo_dsp_env (app_with demo_joined MainJoined) (subscribe (app_with demo_joined MainJoined))"
    by (rule main_step.subscribe) (simp add: app_with_def)
  moreover have "subscribe (app_with demo_joined MainJoined) = app_with demo_joined MainLoop"
    by (simp add: subscribe_def app_with_def demo_joined_def join_def driver_new_def Let_def)
  ultimately have 1: "app_reach (app_with demo_joined MainLoop)"
    using reach_step [OF 0] by (simp add: join_step_def)
  have 2: "app_reach (app_with (select_enter demo_joined) MainLoop)"
    by (rule app_driver_step [OF 1 drv_step.enter])
      (simp_all add: demo_joined_pc keeps_signals_def select_enter_def)
  have step: "drv_step demo_consumer_env (select_enter demo_joined) live_assigned"
    by (simp add: live_assigned_def drv_step.inbound [OF demo_selecting])
  have 3: "app_reach (app_with live_assigned MainLoop)"
    by (rule app_driver_step [OF 2 step])
      (simp_all add: live_assigned_eq keeps_signals_def select_enter_def demo_joined_pc)
  have 4: "app_reach (app_with (select_enter live_assigned) MainLoop)"
    by (rule app_driver_step [OF 3 drv_step.enter])
      (simp_all add: demo_joined_pc keeps_signals_def select_enter_def live_assigned_eq)
  show ?thesis
    unfolding app_closed_def
    by (rule app_driver_step [OF 4 drv_step.inbound [of _ "True"]])
      (simp_all add: closed_by_server keeps_signals_def select_enter_def live_assigned_eq demo_joined_pc)
qed

definition app_running :: join_app where
  "app_running = main_grant (Got (Assigned (GrantId ''g'') (demo_shard ''a'' ''m'') 0)) 1 app_closed"

lemma app_closed_fields:
  "sender_gone (ja_driver app_closed)" "ja_pc app_closed = MainLoop" "ja_read app_closed = 0"
  "dr_events (ja_driver app_closed) = [Assigned (GrantId ''g'') (demo_shard ''a'' ''m'') 0]"
  by (simp_all add: app_closed_def app_with_def closed_by_server sender_gone_def live_assigned_eq select_enter_def
      demo_joined_pc)

lemma app_reads: "main_step demo_dsp_env app_closed app_running"
  unfolding app_running_def
  by (rule main_step.grant) (simp_all add: app_closed_fields demo_dsp_env_def demo_broadcast_def)

theorem join_refines_processor_witness:
  "map task_grant (ja_tasks app_running) = assigned_of (main_passed app_running)
   \<and> (\<exists>p r. reach proc_start uncancelled p \<and> pr_runs p = [r] \<and> rn_id r = GrantId ''g'' \<and> rn_pc r = Step1)"
proof -
  have "app_reach app_running"
    using reach_step [OF app_closed_reach] app_reads by (simp add: join_step_def)
  note all = join_refines_processor [OF demo_dsp_ok(1) this, where now = 0]
  have none_lost: "ja_lost app_running = 0"
    and task: "(GrantId ''g'', demo_shard ''a'' ''m'', 0, AwaitUnload) \<in> set (ja_tasks app_running)"
    by (simp_all add: app_running_def main_grant_def app_closed_def app_with_def)
  have "map task_grant (ja_tasks app_running) = assigned_of (main_passed app_running)"
    by (rule mp [OF conjunct1 [OF conjunct2 [OF all]] none_lost])
  moreover from bspec [OF conjunct2 [OF conjunct2 [OF conjunct2 [OF all]]] task]
  have "\<exists>p r. reach proc_start uncancelled p \<and> pr_runs p = [r] \<and> rn_id r = GrantId ''g'' \<and> rn_pc r = Step1"
    by (simp (no_asm_use) only: prod.case grant_pc.simps) blast
  ultimately show ?thesis by blast
qed

theorem join_loop_ends_witness:
  "1 \<le> main_left app_closed \<and> (\<exists>u. main_step demo_dsp_env app_running u \<and> ja_pc u \<noteq> MainShutdown)"
  using join_loop_ends [OF demo_dsp_ok(1) app_closed_reach app_closed_fields(1,2)
      join_run.main [OF join_run.none app_reads]]
  by (simp add: app_running_def main_grant_def app_closed_fields)

end
