(* ===== verification/Decimals.thy ===== *)
theory Decimals
  imports Prelude
begin

text \<open>
  Decimal numerals of the standard library, as far as the examples use them: printing an unsigned
  integer, and \<open>str::parse::<u16>\<close> with its errors. A byte that is not a digit is an error wherever it
  stands; a digit after the number has become too large is not looked at any more.
\<close>

section \<open>Digits\<close>

definition digit :: "nat \<Rightarrow> char" where
  "digit n = char_of (48 + n)"

definition to_digit :: "char \<Rightarrow> nat option" where
  "to_digit c = (let n = of_char c in if 48 \<le> n \<and> n \<le> 57 then Some (n - 48) else None)"

lemma to_digit_digit [simp]: "n < 10 \<Longrightarrow> to_digit (digit n) = Some n"
  by (simp add: to_digit_def digit_def)

lemma to_digit_less: "to_digit c = Some n \<Longrightarrow> n < 10"
  by (auto simp: to_digit_def Let_def split: if_splits)

fun decimal :: "nat \<Rightarrow> string" where
  "decimal n = (if n < 10 then [digit n] else decimal (n div 10) @ [digit (n mod 10)])"

declare decimal.simps [simp del]

section \<open>Parsing\<close>

datatype int_error = IntEmpty | InvalidDigit | PosOverflow

fun int_error_to_string :: "int_error \<Rightarrow> string" where
  "int_error_to_string IntEmpty = ''cannot parse integer from empty string''"
| "int_error_to_string InvalidDigit = ''invalid digit found in string''"
| "int_error_to_string PosOverflow = ''number too large to fit in target type''"

text \<open>The loop over the digits: \<open>checked_mul\<close> by ten, \<open>to_digit\<close>, \<open>checked_add\<close>.\<close>

fun u16_digits :: "nat \<Rightarrow> string \<Rightarrow> int_error + nat" where
  "u16_digits r [] = Inr r"
| "u16_digits r (c # cs) =
     (case to_digit c of
        None \<Rightarrow> Inl InvalidDigit
      | Some x \<Rightarrow> if 2 ^ 16 \<le> r * 10 + x then Inl PosOverflow else u16_digits (r * 10 + x) cs)"

definition parse_u16 :: "string \<Rightarrow> int_error + 16 word" where
  "parse_u16 s =
     map_sum id of_nat
       (case s of
          [] \<Rightarrow> Inl IntEmpty
        | c # cs \<Rightarrow>
            if cs = [] \<and> (c = CHR ''+'' \<or> c = CHR ''-'') then Inl InvalidDigit
            else u16_digits 0 (if c = CHR ''+'' then cs else s))"

section \<open>What is parsed\<close>

text \<open>The value of a string of digits.\<close>

fun value_from :: "nat \<Rightarrow> string \<Rightarrow> nat option" where
  "value_from r [] = Some r"
| "value_from r (c # cs) = (case to_digit c of None \<Rightarrow> None | Some x \<Rightarrow> value_from (r * 10 + x) cs)"

lemma value_from_mono: "value_from r s = Some n \<Longrightarrow> r \<le> n"
proof (induction s arbitrary: r)
  case (Cons c cs)
  then obtain x where "value_from (r * 10 + x) cs = Some n" by (auto split: option.splits)
  from Cons.IH [OF this] show ?case by simp
qed simp

lemma value_from_append: "value_from r (s @ t) = Option.bind (value_from r s) (\<lambda>v. value_from v t)"
  by (induction s arbitrary: r) (auto split: option.split)

lemma value_decimal: "value_from 0 (decimal n) = Some n"
proof (induction n rule: decimal.induct)
  case (1 n)
  show ?case
  proof (cases "n < 10")
    case True
    then show ?thesis by (simp add: decimal.simps [of n])
  next
    case False
    then have "value_from 0 (decimal n) = Some (n div 10 * 10 + n mod 10)"
      using 1 by (simp add: decimal.simps [of n] value_from_append)
    then show ?thesis by simp
  qed
qed

lemma u16_digits_iff:
  "r < 2 ^ 16 \<Longrightarrow> u16_digits r s = Inr n \<longleftrightarrow> value_from r s = Some n \<and> n < 2 ^ 16"
proof (induction s arbitrary: r)
  case (Cons c cs)
  show ?case
  proof (cases "to_digit c")
    case (Some x)
    show ?thesis
    proof (cases "r * 10 + x < 2 ^ 16")
      case True
      with Cons.IH [OF this] Some show ?thesis by simp
    next
      case False
      with Some value_from_mono [of "r * 10 + x" cs n] show ?thesis by auto
    qed
  qed simp
qed auto

lemma to_digit_sign [simp]: "to_digit (CHR ''+'') = None" "to_digit (CHR ''-'') = None"
  by (simp_all add: to_digit_def)

text \<open>
  The parser accepts exactly the non-empty strings of digits with at most one plus sign before
  them whose value fits, and gives that value.
\<close>

theorem parse_u16_iff:
  "parse_u16 s = Inr p \<longleftrightarrow>
     (\<exists>ds n. (s = ds \<or> s = CHR ''+'' # ds) \<and> ds \<noteq> [] \<and> value_from 0 ds = Some n \<and> n < 2 ^ 16 \<and> p = of_nat n)"
proof (cases s)
  case (Cons c cs)
  have digits: "u16_digits 0 ds = Inr n \<longleftrightarrow> value_from 0 ds = Some n \<and> n < 2 ^ 16" for ds n
    by (rule u16_digits_iff) simp
  have sign: "\<not> (cs = [] \<and> (c = CHR ''+'' \<or> c = CHR ''-'')) \<or> value_from 0 s = None \<and> cs = []"
    using Cons by auto
  show ?thesis
  proof (cases "c = CHR ''+''")
    case True
    have "parse_u16 s = Inr p \<longleftrightarrow> cs \<noteq> [] \<and> (\<exists>n. u16_digits 0 cs = Inr n \<and> p = of_nat n)"
      by (cases "u16_digits 0 cs") (auto simp: parse_u16_def Cons True)
    also have "\<dots> \<longleftrightarrow> (\<exists>ds n. (s = ds \<or> s = CHR ''+'' # ds) \<and> ds \<noteq> [] \<and> value_from 0 ds = Some n
        \<and> n < 2 ^ 16 \<and> p = of_nat n)"
      unfolding digits by (auto simp: Cons True)
    finally show ?thesis .
  next
    case False
    have "parse_u16 s = Inr p \<longleftrightarrow> \<not> (cs = [] \<and> c = CHR ''-'') \<and> (\<exists>n. u16_digits 0 s = Inr n \<and> p = of_nat n)"
      by (cases "u16_digits 0 s") (auto simp: parse_u16_def Cons False)
    also have "\<dots> \<longleftrightarrow> (\<exists>n. value_from 0 s = Some n \<and> n < 2 ^ 16 \<and> p = of_nat n)"
      unfolding digits using sign False by auto
    finally show ?thesis using Cons False by auto
  qed
qed (simp add: parse_u16_def)

lemma decimal_nonempty [simp]: "decimal n \<noteq> []"
  by (subst decimal.simps) simp

theorem parse_u16_decimal: "parse_u16 (decimal (unat p)) = Inr p" for p :: "16 word"
proof -
  have "unat p < 2 ^ 16" using unsigned_less [of p] by simp
  then show ?thesis
    unfolding parse_u16_iff
    by (intro exI [of _ "decimal (unat p)"] exI [of _ "unat p"]) (simp add: value_decimal)
qed

end
