(* ===== verification/ExampleMains.thy ===== *)
theory ExampleMains
  imports Decimals RecordingRange ClientModel PeerModel
begin

text \<open>
  The command line programs \<open>examples/join.rs\<close>, \<open>examples/processor.rs\<close> and \<open>examples/peer_server.rs\<close>
  around the library: their arguments, the dispatcher they build, the factory of logging ranges, the
  task that prints the log, and how \<open>main\<close> ends. The main loop of \<open>join.rs\<close> is theory \<open>JoinExample\<close>.
  Parsing of socket addresses, the connector, and awaiting SIGINT are inputs; \<open>Box<dyn Error>\<close> is a
  datatype of the errors that are converted to it.
\<close>

section \<open>Arguments\<close>

text \<open>\<open>args.next().unwrap_or_else(..)\<close>, by the position of the argument.\<close>

definition arg_or :: "string list \<Rightarrow> nat \<Rightarrow> string \<Rightarrow> string" where
  "arg_or args i d = (if i < length args then args ! i else d)"

record example_args =
  xa_endpoint :: string
  xa_service :: QualifiedServiceName
  xa_region :: string
  xa_node :: string

definition example_service :: "string list \<Rightarrow> string + QualifiedServiceName" where
  "example_service args =
     sbind (ok_or (if 1 < length args then Some (args ! 1) else None) ''second arg must be tenant/service'')
       (\<lambda>svc_arg. ok_or (qsn_parse svc_arg) ''tenant/service format required, e.g. acme/widgets'')"

definition example_args :: "string list \<Rightarrow> string + example_args" where
  "example_args args =
     sbind (example_service args) (\<lambda>service.
       Inr \<lparr>xa_endpoint = arg_or args 0 ''http://localhost:50051'', xa_service = service,
            xa_region = arg_or args 2 ''local'', xa_node = arg_or args 3 ''local''\<rparr>)"

record peer_args = example_args +
  xa_peer_port :: "16 word"

definition peer_args :: "string list \<Rightarrow> string + peer_args" where
  "peer_args args =
     sbind (example_service args) (\<lambda>service.
     sbind (map_sum (\<lambda>e. ''bad peer_port: '' @ int_error_to_string e) id (parse_u16 (arg_or args 2 ''0''))) (\<lambda>port.
       Inr \<lparr>xa_endpoint = arg_or args 0 ''http://localhost:50051'', xa_service = service,
            xa_region = arg_or args 3 ''local'', xa_node = arg_or args 4 ''local'', xa_peer_port = port\<rparr>))"

text \<open>The address the peer server is bound to.\<close>

definition peer_bind_text :: "16 word \<Rightarrow> string" where
  "peer_bind_text port = ''127.0.0.1:'' @ decimal (unat port)"

text \<open>Which command lines the peer example accepts; without a port it lets the system choose one.\<close>

lemma arg_or_simps [simp]: "i < length args \<Longrightarrow> arg_or args i d = args ! i" "length args \<le> i \<Longrightarrow> arg_or args i d = d"
  by (simp_all add: arg_or_def)

lemma example_service_iff:
  "example_service args = Inr q \<longleftrightarrow> 1 < length args \<and> qsn_parse (args ! 1) = Some q"
  by (auto simp: example_service_def res_simps split: if_splits)

lemma parse_u16_zero: "parse_u16 ''0'' = Inr 0"
  by (simp add: parse_u16_def to_digit_def)

theorem peer_args_iff:
  "(\<exists>a. peer_args args = Inr a) \<longleftrightarrow>
     1 < length args \<and> qsn_parse (args ! 1) \<noteq> None \<and> (2 < length args \<longrightarrow> (\<exists>p. parse_u16 (args ! 2) = Inr p))"
proof (cases "example_service args")
  case (Inl e)
  then have "\<not> (1 < length args \<and> qsn_parse (args ! 1) \<noteq> None)"
    by (auto simp: example_service_def ok_or_eq_Inl split: if_splits)
  then show ?thesis by (auto simp: peer_args_def Inl)
next
  case (Inr q)
  have "(\<exists>a. peer_args args = Inr a) \<longleftrightarrow> (\<exists>p. parse_u16 (arg_or args 2 ''0'') = Inr p)"
    by (cases "parse_u16 (arg_or args 2 ''0'')") (simp_all add: peer_args_def Inr)
  with Inr [unfolded example_service_iff] parse_u16_zero show ?thesis
    by (cases "2 < length args") simp_all
qed

section \<open>The instance and the dispatcher\<close>

definition example_instance :: "InstanceId \<Rightarrow> SystemTime \<Rightarrow> string \<Rightarrow> string \<Rightarrow> 'z example_args_scheme \<Rightarrow> Instance" where
  "example_instance fresh_id now name endpoint a =
     \<lparr>inst_id = fresh_id, inst_location = location_new (xa_region a) (xa_node a),
      inst_name = InstanceName name, inst_created = now, inst_endpoint = Endpoint endpoint\<rparr>"

definition join_instance :: "InstanceId \<Rightarrow> SystemTime \<Rightarrow> example_args \<Rightarrow> Instance" where
  "join_instance fresh_id now a = example_instance fresh_id now ''splitter-rs/join-example'' [] a"

definition processor_instance :: "InstanceId \<Rightarrow> SystemTime \<Rightarrow> example_args \<Rightarrow> Instance" where
  "processor_instance fresh_id now a = example_instance fresh_id now ''splitter-rs/processor-example'' [] a"

definition peer_instance :: "InstanceId \<Rightarrow> SystemTime \<Rightarrow> peer_args \<Rightarrow> 'a PeerServer \<Rightarrow> Instance" where
  "peer_instance fresh_id now a peer = example_instance fresh_id now ''splitter-rs/peer-example'' (ps_endpoint peer) a"

text \<open>Other consumers do not connect to the first two, and dial what the server of the third publishes.\<close>

lemma example_endpoints:
  "endpoint_is_empty (inst_endpoint (join_instance i now a))"
  "endpoint_is_empty (inst_endpoint (processor_instance i now a))"
  "inst_endpoint (peer_instance i now b peer) = Endpoint (ps_endpoint peer)"
  by (simp_all add: join_instance_def processor_instance_def peer_instance_def example_instance_def endpoint_is_empty_def)

text \<open>\<open>LoggingFactory::build\<close>: it accepts every grant.\<close>

definition logging_build :: "nat \<Rightarrow> string list \<Rightarrow> GrantId \<Rightarrow> Shard \<Rightarrow> Ownership \<Rightarrow> recording option" where
  "logging_build now log gid shard w =
     Some (rr_new now (shard_to_string shard @ ''|'' @ grant_id_str gid) (from_millis 100) (from_millis 500) log)"

definition logging_factory :: "nat \<Rightarrow> string list \<Rightarrow> GrantId \<Rightarrow> Shard \<Rightarrow> Ownership \<Rightarrow> range option" where
  "logging_factory now log gid shard w = map_option (\<lambda>r. range_of (r, 0)) (logging_build now log gid shard w)"

lemma logging_factory_new: "logging_factory now log gid shard w = Some (range_new False)"
  by (simp add: logging_factory_def logging_build_def rr_new_def range_of_def range_new_def fresh_latch_def)

definition example_builder ::
  "(GrantId \<Rightarrow> Shard \<Rightarrow> Ownership \<Rightarrow> range option) \<Rightarrow> QualifiedServiceName \<Rightarrow> Instance \<Rightarrow> (processor, 'ch) DispatcherBuilder" where
  "example_builder factory service instance =
     builder_filter (processor_filter factory) (builder_new service instance)"

text \<open>So the examples start a client as \<open>ClientModel\<close> has it, whose processor takes every grant it is offered.\<close>

lemma example_client_start:
  assumes "s = build E T session_id (example_builder factory service instance) processor_new"
  shows "client_start E factory \<lparr>cl_dsp = s, cl_task = (\<lambda>i. Spawned), cl_cells = []\<rparr>"
proof -
  have "db_chain (example_builder factory service instance) = [processor_filter factory]"
    by (simp add: example_builder_def builder_filter_def builder_new_def)
  then have "dsp_start E [processor_filter factory] processor_new s"
    unfolding dsp_start_def assms by blast
  then show ?thesis by (simp add: client_start_def)
qed

lemma example_accepts:
  assumes "is_closed (pr_initialized p)"
  shows "\<exists>p'. try_handle (logging_factory now log) gid shard w p = Some (True, p')"
  using assms by (simp add: try_handle_def logging_factory_new)

section \<open>The printer of the log\<close>

text \<open>
  The log is shared by the ranges, which push lines, and the printing task, which takes all lines out
  once a second. \<open>main\<close> aborts the task before it drains the dispatcher.
\<close>

record log_state =
  lg_buffer :: "string list"
  lg_printed :: "string list"
  lg_printer :: bool

definition log_new :: log_state where
  "log_new = \<lparr>lg_buffer = [], lg_printed = [], lg_printer = True\<rparr>"

definition log_flush :: "log_state \<Rightarrow> log_state" where
  "log_flush l = l\<lparr>lg_printed := lg_printed l @ lg_buffer l, lg_buffer := []\<rparr>"

inductive log_step :: "string list \<Rightarrow> log_state \<Rightarrow> log_state \<Rightarrow> bool" where
  push: "log_step [line] l (l\<lparr>lg_buffer := lg_buffer l @ [line]\<rparr>)"
| flush: "lg_printer l \<Longrightarrow> log_step [] l (log_flush l)"
| abort: "log_step [] l (l\<lparr>lg_printer := False\<rparr>)"

inductive log_run :: "log_state \<Rightarrow> string list \<Rightarrow> log_state \<Rightarrow> bool" for l :: log_state where
  none: "log_run l [] l"
| more: "log_run l xs m \<Longrightarrow> log_step ys m n \<Longrightarrow> log_run l (xs @ ys) n"

text \<open>
  No line is lost or printed twice while the task runs, but what the ranges log after it was aborted
  is never printed: the drain at the end of the examples happens unseen.
\<close>

lemma log_run_exact: "log_run l xs m \<Longrightarrow> lg_printed m @ lg_buffer m = lg_printed l @ lg_buffer l @ xs"
  by (induction rule: log_run.induct) (auto simp: log_flush_def elim: log_step.cases)

theorem aborted_printer_hides_log:
  assumes "\<not> lg_printer l" and "log_run l xs m"
  shows "lg_printed m = lg_printed l \<and> lg_buffer m = lg_buffer l @ xs \<and> \<not> lg_printer m"
  using assms(2,1) by (induction rule: log_run.induct) (auto elim!: log_step.cases)

theorem aborted_printer_hides_log_witness:
  "lg_printed (log_new\<lparr>lg_printer := False, lg_buffer := [''r drain start'']\<rparr>) = []"
proof -
  have "log_run (log_new\<lparr>lg_printer := False\<rparr>) ([] @ [''r drain start''])
      (log_new\<lparr>lg_printer := False, lg_buffer := [] @ [''r drain start'']\<rparr>)"
    by (rule log_run.more [OF log_run.none])
      (use log_step.push [of "''r drain start''" "log_new\<lparr>lg_printer := False\<rparr>"] in \<open>simp add: log_new_def\<close>)
  from aborted_printer_hides_log [OF _ this] show ?thesis by (simp add: log_new_def)
qed

section \<open>How the programs start and end\<close>

datatype 't main_error = MainText string | MainIo string | MainClient ClientError | MainServe "'t ServeError"

text \<open>
  \<open>peer_server.rs\<close> brings its server up first, so that its endpoint is known, and then connects; an error
  of the connector returns from \<open>main\<close> and drops the handle. The second component is the server.
\<close>

definition peer_main_start ::
  "(string \<Rightarrow> string + 'a) \<Rightarrow> ('a, 'l) network \<Rightarrow> (string \<Rightarrow> string + 'ch) \<Rightarrow> string list \<Rightarrow>
   ('t main_error + peer_args \<times> 'ch) \<times> 'a PeerServer option" where
  "peer_main_start parse_addr net connect args =
     (case sbind (map_sum MainText id (peer_args args)) (\<lambda>a.
           sbind (map_sum MainText id (parse_addr (peer_bind_text (xa_peer_port a)))) (\<lambda>bind.
           sbind (map_sum MainIo id (serve net (peer_builder_new bind))) (\<lambda>peer. Inr (a, peer)))) of
        Inl e \<Rightarrow> (Inl e, None)
      | Inr (a, peer) \<Rightarrow>
          (case connect (xa_endpoint a) of
             Inl e \<Rightarrow> (Inl (MainText e), Some (peer_drop peer))
           | Inr channel \<Rightarrow> (Inr (a, channel), Some peer)))"

lemma map_sum_Inr [simp]: "map_sum f id r = Inr x \<longleftrightarrow> r = Inr x"
  by (cases r) simp_all

lemma peer_main_start_ok:
  "(case peer_main_start parse_addr net connect args of
      (Inl e, s) \<Rightarrow> (\<forall>peer. s = Some peer \<longrightarrow> ps_aborted peer \<and> \<not> ps_task peer)
    | (Inr (a, channel), s) \<Rightarrow> peer_args args = Inr a \<and> connect (xa_endpoint a) = Inr channel
        \<and> (\<exists>peer. s = Some peer \<and> ps_endpoint peer = ''http://'' @ net_display net (ps_local_addr peer)))"
proof -
  have up: "ps_task peer \<and> ps_endpoint peer = ''http://'' @ net_display net (ps_local_addr peer)"
    if "serve net (peer_builder_new bind) = Inr peer" for bind peer
    using that by (auto simp: serve_def sbind_eq_Inr peer_builder_new_def)
  show ?thesis
    by (auto simp: peer_main_start_def peer_drop_def fire_shutdown_def peer_note_def ps_signals_def ps_aborted_def Let_def sbind_eq_Inr dest!: up
        split: sum.split prod.split)
qed

text \<open>From \<open>ctrl_c\<close> on, given what awaiting it and the drain gave; \<open>peer_server.rs\<close> then stops its server.\<close>

definition processor_main_end :: "string + unit \<Rightarrow> ClientError + unit \<Rightarrow> 't main_error + unit" where
  "processor_main_end signal drain =
     sbind (map_sum MainIo id signal) (\<lambda>_. map_sum MainClient id drain)"

definition peer_main_end ::
  "string + unit \<Rightarrow> ClientError + unit \<Rightarrow> ('t + unit) joined \<Rightarrow> 'a PeerServer \<Rightarrow> ('t main_error + unit) \<times> 'a PeerServer" where
  "peer_main_end signal drain outcome peer =
     (case processor_main_end signal drain of
        Inl e \<Rightarrow> (Inl e, peer_drop peer)
      | Inr _ \<Rightarrow> apfst (map_sum MainServe id) (peer_shutdown outcome peer))"

text \<open>
  The peer example stops its server once in every case, but gracefully only if the dispatcher's drain
  succeeded: an error of the stream makes \<open>?\<close> return, and dropping the handle aborts the server.
\<close>

theorem peer_main_end_graceful:
  fixes outcome :: "('t + unit) joined"
  assumes "serve net b = Inr s" and "peer_main_end signal drain outcome s = (r, s')"
  shows "ps_signals s' = 1 \<and> \<not> ps_task s'
    \<and> (ps_aborted s' \<longleftrightarrow> signal \<noteq> Inr () \<or> drain \<noteq> Inr ())
    \<and> (r = Inr () \<longleftrightarrow> signal = Inr () \<and> drain = Inr () \<and> (outcome = Returned (Inr ()) \<or> outcome = Cancelled))"
proof -
  have s: "ps_shutdown s" "ps_task s" "ps_log s = []"
    using assms(1) by (auto simp: serve_def sbind_eq_Inr)
  show ?thesis
  proof (cases "signal = Inr () \<and> drain = Inr ()")
    case True
    then show ?thesis
      using assms(2) s
      by (cases outcome) (auto simp: peer_main_end_def processor_main_end_def peer_shutdown_def peer_drop_def
          fire_shutdown_def peer_note_def ps_signals_def ps_aborted_def serve_result_def Let_def apfst_def map_prod_def split: sum.splits)
  next
    case False
    then obtain e where "(processor_main_end signal drain :: 't main_error + unit) = Inl e"
      by (cases signal; cases drain) (auto simp: processor_main_end_def)
    then have "r = Inl e" "s' = peer_drop s" using assms(2) by (auto simp: peer_main_end_def)
    with False s show ?thesis by (auto simp: peer_drop_def fire_shutdown_def peer_note_def ps_signals_def ps_aborted_def Let_def)
  qed
qed

theorem peer_main_end_graceful_witness:
  "ps_aborted (snd (peer_main_end (Inr ()) (Inl (SessionClosed ''stream ended'')) (Cancelled :: (string + unit) joined)
     \<lparr>ps_endpoint = ''http://h:1'', ps_local_addr = ''h:1'', ps_shutdown = True, ps_task = True, ps_log = []\<rparr>))"
  using peer_main_end_graceful [OF demo_serve surjective_pairing] by blast

end
