(* ===== verification/UnitTests.thy ===== *)
theory UnitTests
  imports Decimals OwnershipModel GrantMaps PoolModel ProxyModel ProcessorModel ConsumerModel PeerModel
begin

text \<open>
  The unit tests of the repository, carried over to the model: a definition per test that says what the
  test asserts, and a theorem per module that the model passes them. They compare the model with
  what the authors of the code expect of it.

  The time at which a test starts is an argument, and what it measures by a timeout is whether a wait
  has a result: \<open>resolves\<close> asks that for every ready branch. An operation that a test spawns as a task
  of its own may take place before or after the wait is entered (\<open>resolves_after\<close>). In the tests of
  retrying only sleeping takes time.
\<close>

section \<open>Errors\<close>

definition not_owned_roundtrips_via_grpc :: bool where
  "not_owned_roundtrips_via_grpc \<longleftrightarrow>
     (let status = into_grpc NotOwned in st_code status = OutOfRange \<and> from_grpc status = NotOwned)"

definition draining_roundtrips_via_grpc :: bool where
  "draining_roundtrips_via_grpc \<longleftrightarrow>
     (let status = into_grpc ClientError.Draining in st_code status = Aborted \<and> from_grpc status = ClientError.Draining)"

definition unavailable_is_ownership_but_preserves_status :: bool where
  "unavailable_is_ownership_but_preserves_status \<longleftrightarrow>
     (let err = from_grpc \<lparr>st_code = Unavailable, st_message = ''peer down''\<rparr>
      in is_ownership err \<and> (case err of Transport s \<Rightarrow> True | _ \<Rightarrow> False))"

text \<open>13 is the number of the gRPC code \<open>Internal\<close>.\<close>

definition other_codes_are_not_ownership :: bool where
  "other_codes_are_not_ownership \<longleftrightarrow> \<not> is_ownership (from_grpc \<lparr>st_code = OtherCode 13, st_message = ''boom''\<rparr>)"

lemma error_tests:
  "not_owned_roundtrips_via_grpc" "draining_roundtrips_via_grpc"
  "unavailable_is_ownership_but_preserves_status" "other_codes_are_not_ownership"
  by (simp_all add: not_owned_roundtrips_via_grpc_def draining_roundtrips_via_grpc_def from_grpc_def
      unavailable_is_ownership_but_preserves_status_def other_codes_are_not_ownership_def)

section \<open>Latches\<close>

text \<open>\<open>closed()\<close> returns at once if the flag is set.\<close>

definition close_before_await_resolves_immediately :: "'w watch_lib \<Rightarrow> bool" where
  "close_before_await_resolves_immediately W \<longleftrightarrow> latch_is_closed (latch_close W (latch_new W))"

definition multiple_close_is_idempotent :: "'w watch_lib \<Rightarrow> bool" where
  "multiple_close_is_idempotent W \<longleftrightarrow>
     latch_is_closed (latch_close W (latch_close W (latch_close W (latch_new W))))
     \<and> latch_close W (latch_close W (latch_close W (latch_new W))) = latch_close W (latch_new W)"

text \<open>
  Two readers have been made, and each is in \<open>closed()\<close> at any of its points; the latch can be closed, and
  after that the call of each of them returns.
\<close>

definition close_after_await_wakes_observers :: "'w watch_lib \<Rightarrow> bool" where
  "close_after_await_wakes_observers W \<longleftrightarrow>
     (\<forall>s p q. reach (latch_start W) (latch_step W) s \<longrightarrow> sys_closers s = [CIdle] \<longrightarrow> sys_readers s = [p, q] \<longrightarrow>
        {p, q} \<subseteq> {Holding, Checked, Polling, Waiting} \<longrightarrow>
        (\<exists>c t u. (latch_step W)\<^sup>*\<^sup>* s c \<and> sys_closers c = [CDone] \<and> sys_readers c = [p, q]
          \<and> (closed_step W 0)\<^sup>*\<^sup>* c t \<and> (closed_step W 1)\<^sup>*\<^sup>* t u
          \<and> sys_readers u = [reader_pc.Returned, reader_pc.Returned]))"

lemma latch_tests_sequential:
  "close_before_await_resolves_immediately W" "multiple_close_is_idempotent W"
  by (simp_all add: close_before_await_resolves_immediately_def multiple_close_is_idempotent_def
      latch_close_def latch_is_closed_def)

text \<open>One reader returns, and the others see the same.\<close>

lemma reader_returns:
  assumes W: "watch_laws W" and closed: "l_closed (sys_latch s)"
    and j: "j < length (sys_readers s)" and p: "sys_readers s ! j \<in> {Holding, Checked, Polling, Waiting}"
    and val: "sys_readers s ! j \<noteq> Holding \<Longrightarrow> w_value W (l_tx (sys_latch s))"
  shows "\<exists>t. (closed_step W j)\<^sup>*\<^sup>* s t \<and> sys_readers t = (sys_readers s)[j := reader_pc.Returned]
    \<and> l_closed (sys_latch t) \<and> w_value W (l_tx (sys_latch t)) = w_value W (l_tx (sys_latch s))"
proof -
  note simps = watch_simps [OF W] set_reader_def set_tx_def
  have polling: "(closed_step W j)\<^sup>*\<^sup>* u (set_reader j reader_pc.Returned (set_tx (w_drop_rx W) u))"
    if "sys_readers u ! j = Polling" "j < length (sys_readers u)" "w_value W (l_tx (sys_latch u))" for u
    using closed_step.borrow_true [of j u W] that by (simp add: r_into_rtranclp)
  have via: ?thesis
    if "closed_step W j s u" "sys_readers u = (sys_readers s)[j := Polling]" "l_closed (sys_latch u)"
      "w_value W (l_tx (sys_latch u)) = w_value W (l_tx (sys_latch s))" "sys_readers s ! j \<noteq> Holding" for u
    using converse_rtranclp_into_rtranclp [of "closed_step W j", OF that(1) polling [of u]] that j val
    by (intro exI [of _ "set_reader j reader_pc.Returned (set_tx (w_drop_rx W) u)"]) (simp add: simps)
  from p consider "sys_readers s ! j = Holding" | "sys_readers s ! j = Checked" | "sys_readers s ! j = Polling"
    | "sys_readers s ! j = Waiting" by auto
  then show ?thesis
  proof cases
    case 1
    with closed_step.check_set [of j s W] j closed show ?thesis
      by (intro exI [of _ "set_reader j reader_pc.Returned s"]) (simp add: simps r_into_rtranclp)
  next
    case 2
    with j closed val show ?thesis
      by (intro via [OF closed_step.clone_rx [of j s W]]) (simp_all add: simps)
  next
    case 3
    with polling [of s] j closed val show ?thesis
      by (intro exI [of _ "set_reader j reader_pc.Returned (set_tx (w_drop_rx W) s)"]) (simp add: simps)
  next
    case 4
    with j closed val show ?thesis
      by (intro via [OF closed_step.changed [of j s W]]) (simp_all add: simps)
  qed
qed

text \<open>The close, whether or not the flag was set already.\<close>

lemma closer_finishes:
  assumes W: "watch_laws W" and inv: "latch_inv W s" and idle: "sys_closers s = [CIdle]"
  shows "\<exists>c. (latch_step W)\<^sup>*\<^sup>* s c \<and> sys_closers c = [CDone] \<and> sys_readers c = sys_readers s
    \<and> l_closed (sys_latch c) \<and> latch_inv W c"
proof -
  let ?m = "set_closer 0 (if l_closed (sys_latch s) then CDone else CSending)
      (s\<lparr>sys_latch := (sys_latch s)\<lparr>l_closed := True\<rparr>\<rparr>)"
  have m: "latch_step W s ?m" by (rule latch_step.close_swap) (simp add: idle)
  show ?thesis
  proof (cases "l_closed (sys_latch s)")
    case True
    with m latch_inv_step [OF W inv m] idle show ?thesis
      by (intro exI [of _ ?m]) (simp add: set_closer_def r_into_rtranclp)
  next
    case False
    let ?c = "set_closer 0 CDone (set_tx (w_send W True) ?m)"
    have c: "latch_step W ?m ?c" by (rule latch_step.close_send) (use False idle in \<open>simp add: set_closer_def\<close>)
    with m have "(latch_step W)\<^sup>*\<^sup>* s ?c" by (meson converse_rtranclp_into_rtranclp r_into_rtranclp)
    with latch_inv_step [OF W latch_inv_step [OF W inv m] c] idle show ?thesis
      by (intro exI [of _ ?c]) (simp add: set_closer_def set_tx_def)
  qed
qed

lemma close_after_await_passes:
  assumes W: "watch_laws W"
  shows "close_after_await_wakes_observers W"
  unfolding close_after_await_wakes_observers_def
proof (intro allI impI)
  fix s p q
  assume s: "reach (latch_start W) (latch_step W) s" "sys_closers s = [CIdle]" "sys_readers s = [p, q]"
    and pq: "{p, q} \<subseteq> {Holding, Checked, Polling, Waiting}"
  obtain c where c: "(latch_step W)\<^sup>*\<^sup>* s c" "sys_closers c = [CDone]" "sys_readers c = [p, q]"
    "l_closed (sys_latch c)" "latch_inv W c"
    using closer_finishes [OF W latch_reach_inv [OF W s(1)] s(2)] s(3) by auto
  have val: "w_value W (l_tx (sys_latch c))" if "j < 2" "[p, q] ! j \<noteq> Holding" for j
    using latch_invD(6) [OF c(5), of j] that pq c(2-4) by (auto simp: in_closed_def less_Suc_eq numeral_2_eq_2)
  obtain t where t: "(closed_step W 0)\<^sup>*\<^sup>* c t" "sys_readers t = [reader_pc.Returned, q]" "l_closed (sys_latch t)"
    "w_value W (l_tx (sys_latch t)) = w_value W (l_tx (sys_latch c))"
    using reader_returns [OF W c(4), of 0] val [of 0] pq c(3) by auto
  obtain u where "(closed_step W 1)\<^sup>*\<^sup>* t u" "sys_readers u = [reader_pc.Returned, reader_pc.Returned]"
    using reader_returns [OF W t(3), of 1] val [of 1] pq t(2,4) by auto
  with c(1-3) t(1) show "\<exists>c t u. (latch_step W)\<^sup>*\<^sup>* s c \<and> sys_closers c = [CDone] \<and> sys_readers c = [p, q]
      \<and> (closed_step W 0)\<^sup>*\<^sup>* c t \<and> (closed_step W 1)\<^sup>*\<^sup>* t u
      \<and> sys_readers u = [reader_pc.Returned, reader_pc.Returned]"
    by blast
qed

section \<open>Grant map\<close>

definition mk_shard :: Shard where
  "mk_shard =
     \<lparr>sh_domain = \<lparr>qdn_service = qsn_new ''t'' ''s'', qdn_name = DomainName ''d''\<rparr>, sh_kind = DomainType.Global,
      sh_region = default, sh_from = [], sh_to = []\<rparr>"

text \<open>The state and the value under an id.\<close>

definition entry_of :: "nat GrantMap \<Rightarrow> GrantId \<Rightarrow> (GrantState \<times> nat) option" where
  "entry_of m i = map_option (\<lambda>(_, state, v). (state, v)) (gm_get m i)"

definition state_transitions_overwrite_in_place :: bool where
  "state_transitions_overwrite_in_place \<longleftrightarrow>
     (let i = GrantId ''g1''; m0 = gm_new;
          m1 = gm_allocated m0 i mk_shard 1; m2 = gm_loaded m1 i mk_shard 2; m3 = gm_activate m2 i mk_shard 3;
          m4 = gm_revoke m3 i mk_shard 4; m5 = gm_unloaded m4 i mk_shard 5
      in entry_of m1 i = Some (GrantState.Allocated, 1) \<and> entry_of m2 i = Some (GrantState.AllocatedLoaded, 2)
         \<and> entry_of m3 i = Some (GrantState.Active, 3) \<and> entry_of m4 i = Some (GrantState.Revoked, 4)
         \<and> entry_of m5 i = Some (GrantState.RevokedUnloaded, 5))"

definition delete_removes_entry :: bool where
  "delete_removes_entry \<longleftrightarrow>
     (let i = GrantId ''g1''; m = gm_allocated gm_new i mk_shard (1::nat)
      in gm_len m = 1
         \<and> (case gm_delete m i of
              (Some (_, state, v), m') \<Rightarrow> state = GrantState.Allocated \<and> v = 1 \<and> gm_is_empty m' \<and> fst (gm_delete m' i) = None
            | (None, _) \<Rightarrow> False))"

lemma grant_map_tests: "state_transitions_overwrite_in_place" "delete_removes_entry"
  by (simp_all add: state_transitions_overwrite_in_place_def delete_removes_entry_def entry_of_def gm_write_defs
      Let_def gm_write_def gm_new_def gm_len_def gm_is_empty_def gm_delete_def gm_get_def)

section \<open>Ownership\<close>

definition far_future :: "SystemTime \<Rightarrow> SystemTime" where
  "far_future now = now + int (from_secs 3600)"

definition resolves :: "('a \<Rightarrow> bool) \<Rightarrow> 'a list \<Rightarrow> bool" where
  "resolves ok results \<longleftrightarrow> results \<noteq> [] \<and> list_all ok results"

definition resolves_after :: "(Ownership \<Rightarrow> 'a \<Rightarrow> bool) \<Rightarrow> (Ownership \<Rightarrow> Ownership) \<Rightarrow> (Ownership \<Rightarrow> 'a list) \<Rightarrow> Ownership \<Rightarrow> bool" where
  "resolves_after ok spawned waits w \<longleftrightarrow> list_all (ok w) (waits w) \<and> resolves (ok (spawned w)) (waits (spawned w))"

definition initial_active_state_fires_active_immediately :: "SystemTime \<Rightarrow> bool" where
  "initial_active_state_fires_active_immediately now \<longleftrightarrow>
     resolves (\<lambda>r. r = Inr ()) (wait_for_active (ownership_new GrantState.Active (far_future now) now))"

definition initial_revoked_state_fires_revoked :: "SystemTime \<Rightarrow> bool" where
  "initial_revoked_state_fires_revoked now \<longleftrightarrow>
     resolves (\<lambda>r. r = Inl ClientError.Revoked) (wait_for_active (ownership_new GrantState.Revoked (far_future now) now))"

definition expiration_in_past_pre_closes_expired :: "SystemTime \<Rightarrow> bool" where
  "expiration_in_past_pre_closes_expired now \<longleftrightarrow>
     resolves (\<lambda>r. r = Inl ClientError.Expired)
       (wait_for_active (ownership_new GrantState.Allocated (now - int (from_secs 1)) now))"

definition wait_for_unload_returns_loader_when_activated :: "SystemTime \<Rightarrow> bool" where
  "wait_for_unload_returns_loader_when_activated now \<longleftrightarrow>
     resolves_after (\<lambda>w r. r = Inr (ow_loader w)) activate wait_for_unload
       (ownership_new GrantState.Allocated (far_future now) now)"

definition wait_for_unload_returns_loader_when_counterpart_unloaded :: "SystemTime \<Rightarrow> bool" where
  "wait_for_unload_returns_loader_when_counterpart_unloaded now \<longleftrightarrow>
     resolves_after (\<lambda>w r. \<exists>l. r = Inr l) counterpart_unloaded wait_for_unload
       (ownership_new GrantState.Allocated (far_future now) now)"

definition wait_for_revoke_returns_unloader :: "SystemTime \<Rightarrow> bool" where
  "wait_for_revoke_returns_unloader now \<longleftrightarrow>
     resolves_after (\<lambda>w r. r = Inr (ow_unloader w)) revoke wait_for_revoke
       (ownership_new GrantState.Active (far_future now) now)"

definition wait_for_load_resolves_on_counterpart_loaded :: "SystemTime \<Rightarrow> bool" where
  "wait_for_load_resolves_on_counterpart_loaded now \<longleftrightarrow>
     resolves_after (\<lambda>w r. r = Inr ()) counterpart_loaded wait_for_load
       (ownership_new GrantState.Revoked (far_future now) now)"

definition loader_load_and_unloader_unload_are_idempotent :: "SystemTime \<Rightarrow> bool" where
  "loader_load_and_unloader_unload_are_idempotent now \<longleftrightarrow>
     (let w = ownership_new GrantState.Allocated (far_future now) now;
          l = loader_load (loader_load (ow_loader w)); u = unloader_unload (unloader_unload (ow_unloader w))
      in is_closed (ld_load l) \<and> is_closed (ul_unload u))"

definition request_revoke_closes_signal :: "SystemTime \<Rightarrow> bool" where
  "request_revoke_closes_signal now \<longleftrightarrow>
     (let w = ownership_new GrantState.Active (far_future now) now
      in \<not> is_closed (ow_request_revoke w) \<and> is_closed (ow_request_revoke (request_revoke w)))"

text \<open>The waiter of the test is a timer that sleeps.\<close>

definition set_expiration_wakes_waiters :: "SystemTime \<Rightarrow> pb_Grant \<Rightarrow> bool" where
  "set_expiration_wakes_waiters now g \<longleftrightarrow>
     (let sleeping = (cell_new (ownership_new GrantState.Active (far_future now) now) g)\<lparr>gc_timer := TSleep (far_future now)\<rparr>
      in gc_timer (set_expiration_cell (now + int (from_secs 10)) sleeping) = TWoken (far_future now))"

lemma ownership_tests:
  "initial_active_state_fires_active_immediately now" "initial_revoked_state_fires_revoked now"
  "expiration_in_past_pre_closes_expired now" "wait_for_unload_returns_loader_when_activated now"
  "wait_for_unload_returns_loader_when_counterpart_unloaded now" "wait_for_revoke_returns_unloader now"
  "wait_for_load_resolves_on_counterpart_loaded now" "loader_load_and_unloader_unload_are_idempotent now"
  "request_revoke_closes_signal now" "set_expiration_wakes_waiters now g"
  by (simp_all add: initial_active_state_fires_active_immediately_def initial_revoked_state_fires_revoked_def
      expiration_in_past_pre_closes_expired_def wait_for_unload_returns_loader_when_activated_def
      wait_for_unload_returns_loader_when_counterpart_unloaded_def wait_for_revoke_returns_unloader_def
      wait_for_load_resolves_on_counterpart_loaded_def loader_load_and_unloader_unload_are_idempotent_def
      request_revoke_closes_signal_def set_expiration_wakes_waiters_def set_expiration_cell_def cell_new_def
      resolves_def resolves_after_def wait_defs own_op_defs far_future_def from_secs_def Let_def)

section \<open>Connection pool\<close>

definition ME :: InstanceId where "ME = InstanceId 1"
definition OTHER :: InstanceId where "OTHER = InstanceId 2"
definition PEER_A :: InstanceId where "PEER_A = InstanceId 10"
definition PEER_B :: InstanceId where "PEER_B = InstanceId 11"

definition mk_instance :: "InstanceId \<Rightarrow> string \<Rightarrow> Instance" where
  "mk_instance i endpoint =
     \<lparr>inst_id = i, inst_location = location_default, inst_name = InstanceName ''test'', inst_created = 0,
      inst_endpoint = Endpoint endpoint\<rparr>"

definition mk_cluster :: "Instance list \<Rightarrow> ClusterMap" where
  "mk_cluster consumers =
     \<lparr>cmap_id = \<lparr>ci_version = 1, ci_origin = None, ci_timestamp = 0\<rparr>,
      cmap_consumers = fold (\<lambda>c m. m(inst_id c \<mapsto> \<lparr>ce_consumer = c, ce_grants = []\<rparr>)) consumers Map.empty,
      cmap_grants = Map.empty, cmap_shards = []\<rparr>"

text \<open>\<open>T\<close> is tonic's lazy connector; the snapshots are scanned in the order they are built in.\<close>

definition applied :: "Instance list \<Rightarrow> 'ch ConnectionPool \<Rightarrow> 'ch ConnectionPool" where
  "applied consumers = apply_cluster (map inst_id consumers) (mk_cluster consumers)"

definition is_ok :: "'e + 'a \<Rightarrow> bool" where
  "is_ok r \<longleftrightarrow> (case r of Inl e \<Rightarrow> False | Inr x \<Rightarrow> True)"

definition self_resolve_returns_no_resolution :: "(string \<Rightarrow> string + 'ch) \<Rightarrow> bool" where
  "self_resolve_returns_no_resolution T \<longleftrightarrow> pool_resolve (pool_new T ME) ME = Inl NoResolution"

definition unknown_id_returns_no_resolution :: "(string \<Rightarrow> string + 'ch) \<Rightarrow> bool" where
  "unknown_id_returns_no_resolution T \<longleftrightarrow> pool_resolve (pool_new T ME) OTHER = Inl NoResolution"

definition apply_cluster_adds_known_peers :: "(string \<Rightarrow> string + 'ch) \<Rightarrow> bool" where
  "apply_cluster_adds_known_peers T \<longleftrightarrow>
     (let pool = applied [mk_instance ME ''1.1.1.1:50052'', mk_instance PEER_A ''2.2.2.2:50052'',
                          mk_instance PEER_B ''3.3.3.3:50052''] (pool_new T ME)
      in pool_len pool = 2 \<and> is_ok (pool_resolve pool PEER_A) \<and> is_ok (pool_resolve pool PEER_B)
         \<and> pool_resolve pool ME = Inl NoResolution)"

definition apply_cluster_drops_departed_peers :: "(string \<Rightarrow> string + 'ch) \<Rightarrow> bool" where
  "apply_cluster_drops_departed_peers T \<longleftrightarrow>
     (let pool1 = applied [mk_instance PEER_A ''2.2.2.2:50052'', mk_instance PEER_B ''3.3.3.3:50052''] (pool_new T ME);
          pool2 = applied [mk_instance PEER_A ''2.2.2.2:50052''] pool1
      in pool_len pool1 = 2 \<and> pool_len pool2 = 1 \<and> is_ok (pool_resolve pool2 PEER_A)
         \<and> pool_resolve pool2 PEER_B = Inl NoResolution)"

definition apply_cluster_skips_empty_endpoints :: "(string \<Rightarrow> string + 'ch) \<Rightarrow> bool" where
  "apply_cluster_skips_empty_endpoints T \<longleftrightarrow> pool_len (applied [mk_instance PEER_A ''''] (pool_new T ME)) = 0"

lemmas pool_test_defs =
  ME_def OTHER_def PEER_A_def PEER_B_def mk_instance_def mk_cluster_def applied_def is_ok_def pool_new_def
  pool_with_dial_def pool_resolve_def pool_len_def apply_cluster_def consumer_values_def scan_consumer_def
  dial_entry_def retain_seen_def endpoint_is_empty_def default_dial_def normalize_endpoint_def

text \<open>The connector must accept the two addresses of the tests.\<close>

lemma pool_tests:
  "self_resolve_returns_no_resolution T" "unknown_id_returns_no_resolution T" "apply_cluster_skips_empty_endpoints T"
  by (simp_all add: self_resolve_returns_no_resolution_def unknown_id_returns_no_resolution_def
      apply_cluster_skips_empty_endpoints_def pool_test_defs List.map_filter_simps)

lemma pool_tests_dial:
  assumes "T ''http://2.2.2.2:50052'' = Inr a" and "T ''http://3.3.3.3:50052'' = Inr b"
  shows "apply_cluster_adds_known_peers T" "apply_cluster_drops_departed_peers T"
proof -
  show "apply_cluster_adds_known_peers T" "apply_cluster_drops_departed_peers T"
    by (simp_all add: apply_cluster_adds_known_peers_def apply_cluster_drops_departed_peers_def pool_test_defs
        List.map_filter_simps assms Let_def dom_if)
qed

end
