(* ===== verification/RunTests.thy ===== *)
theory RunTests
  imports UnitTests RecordingRange
begin

text \<open>
  The unit tests of routing, retrying, the processor and the peer server, carried over to the model
  like those of \<open>UnitTests\<close>.

  The world of a call is a clock and a counter, the atomic of the tests. The closures of the mock proxy
  are functions of that world; an assertion inside a closure is a flag that must stay set.
\<close>

record call_world =
  cw_now :: SystemTime
  cw_count :: nat
  cw_ok :: bool

definition world_at :: "SystemTime \<Rightarrow> call_world" where
  "world_at now = \<lparr>cw_now = now, cw_count = 0, cw_ok = True\<rparr>"

definition tick :: "call_world \<Rightarrow> call_world" where
  "tick w = w\<lparr>cw_count := Suc (cw_count w)\<rparr>"

definition sleep_exactly :: "Duration \<Rightarrow> call_world \<Rightarrow> call_world" where
  "sleep_exactly d w = w\<lparr>cw_now := cw_now w + int d\<rparr>"

section \<open>Routing\<close>

definition remote_ok :: "string \<Rightarrow> nat \<Rightarrow> call_world \<Rightarrow> (Status + string) \<times> call_world" where
  "remote_ok client req w = (Inr (''remote:'' @ client @ '':'' @ decimal req), w)"

definition local_ok :: "nat \<Rightarrow> nat \<Rightarrow> call_world \<Rightarrow> (ClientError + string) \<times> call_world" where
  "local_ok v req w = (Inr (''local:'' @ decimal v @ '':'' @ decimal req), w)"

definition mock_proxy ::
  "(call_world \<Rightarrow> (ClientError + string) \<times> call_world) \<Rightarrow> (GrantState list \<Rightarrow> call_world \<Rightarrow> nat option \<times> call_world) \<Rightarrow>
   (call_world, nat, string, nat) Proxy" where
  "mock_proxy on_resolve on_lookup = \<lparr>px_resolve = (\<lambda>k. on_resolve), px_lookup = (\<lambda>k. on_lookup)\<rparr>"

definition attempt :: "(call_world, nat, string, nat) Proxy \<Rightarrow> (ClientError + string) \<times> call_world" where
  "attempt p = handle p 7 42 remote_ok local_ok (world_at 0)"

text \<open>\<open>resolve\<close> panics in the first test, so it holds for any \<open>resolve\<close>.\<close>

definition active_local_grant_takes_fast_path :: "(call_world \<Rightarrow> (ClientError + string) \<times> call_world) \<Rightarrow> bool" where
  "active_local_grant_takes_fast_path any_resolve \<longleftrightarrow>
     (let (r, w) = attempt (mock_proxy any_resolve
            (\<lambda>states w. (Some 99, w\<lparr>cw_ok := cw_ok w \<and> states = [GrantState.Active]\<rparr>)))
      in r = Inr ''local:99:42'' \<and> cw_ok w)"

definition no_local_active_resolves_remote :: bool where
  "no_local_active_resolves_remote \<longleftrightarrow>
     fst (attempt (mock_proxy (\<lambda>w. (Inr ''peer-a'', w)) (\<lambda>states w. (None, w)))) = Inr ''remote:peer-a:42''"

definition no_resolution_falls_back_to_any_state_local :: bool where
  "no_resolution_falls_back_to_any_state_local \<longleftrightarrow>
     (let (r, w) = attempt (mock_proxy (\<lambda>w. (Inl NoResolution, w))
            (\<lambda>states w.
               if cw_count w = 0 then (None, tick (w\<lparr>cw_ok := cw_ok w \<and> states = [GrantState.Active]\<rparr>))
               else (Some 5, tick (w\<lparr>cw_ok := cw_ok w \<and> states = []\<rparr>))))
      in r = Inr ''local:5:42'' \<and> cw_count w = 2 \<and> cw_ok w)"

definition no_resolution_no_local_is_not_owned :: bool where
  "no_resolution_no_local_is_not_owned \<longleftrightarrow>
     fst (attempt (mock_proxy (\<lambda>w. (Inl NoResolution, w)) (\<lambda>states w. (None, w)))) = Inl NotOwned"

definition remote_status_translates_to_client_error :: bool where
  "remote_status_translates_to_client_error \<longleftrightarrow>
     (let p = mock_proxy (\<lambda>w. (Inr ''peer-a'', w)) (\<lambda>states w. (None, w));
          remote = (\<lambda>client req w. (Inl \<lparr>st_code = OutOfRange, st_message = ''not owned''\<rparr>, w))
      in fst (handle p 7 42 remote local_ok (world_at 0)) = Inl NotOwned)"

definition resolve_returning_unavailable_propagates :: bool where
  "resolve_returning_unavailable_propagates \<longleftrightarrow>
     (case fst (attempt (mock_proxy (\<lambda>w. (Inl (Transport \<lparr>st_code = Unavailable, st_message = ''down''\<rparr>), w))
            (\<lambda>states w. (None, w)))) of
        Inl (Transport s) \<Rightarrow> True
      | _ \<Rightarrow> False)"

lemma decimals: "decimal 42 = ''42''" "decimal 99 = ''99''" "decimal 5 = ''5''"
  by code_simp+

lemma proxy_tests:
  "active_local_grant_takes_fast_path any_resolve" "no_local_active_resolves_remote"
  "no_resolution_falls_back_to_any_state_local" "no_resolution_no_local_is_not_owned"
  "remote_status_translates_to_client_error" "resolve_returning_unavailable_propagates"
  by (simp_all add: active_local_grant_takes_fast_path_def no_local_active_resolves_remote_def
      no_resolution_falls_back_to_any_state_local_def no_resolution_no_local_is_not_owned_def
      remote_status_translates_to_client_error_def resolve_returning_unavailable_propagates_def
      attempt_def mock_proxy_def handle_def remote_ok_def local_ok_def world_at_def tick_def from_grpc_def
      Let_def decimals)

section \<open>Retrying\<close>

definition fast_backoff :: "Duration \<Rightarrow> OwnershipBackoff" where
  "fast_backoff timeout = \<lparr>bo_initial = from_millis 1, bo_max = from_millis 4, bo_timeout = timeout\<rparr>"

definition retried ::
  "(call_world \<Rightarrow> (ClientError + 'v) \<times> call_world) \<Rightarrow> Duration \<Rightarrow> ((fault + 'v) \<times> call_world) option" where
  "retried operation timeout =
     retry_ownership \<lparr>env_now = cw_now, env_sleep = sleep_exactly, env_op = operation\<rparr> (fast_backoff timeout) (world_at 0)"

text \<open>The result of a call and the number of attempts.\<close>

definition ends_with :: "((fault + 'v) \<times> call_world) option \<Rightarrow> (fault + 'v \<Rightarrow> bool) \<Rightarrow> (nat \<Rightarrow> bool) \<Rightarrow> bool" where
  "ends_with out result attempts \<longleftrightarrow> (case out of None \<Rightarrow> False | Some (r, w) \<Rightarrow> result r \<and> attempts (cw_count w))"

definition succeeds_immediately_without_retry :: bool where
  "succeeds_immediately_without_retry \<longleftrightarrow>
     ends_with (retried (\<lambda>w. (Inr (42::int), tick w)) (from_secs 1)) (\<lambda>r. r = Inr 42) (\<lambda>n. n = 1)"

definition retries_ownership_errors_until_success :: bool where
  "retries_ownership_errors_until_success \<longleftrightarrow>
     ends_with (retried (\<lambda>w. (if cw_count w < 3 then Inl NotOwned else Inr ''ok'', tick w)) (from_millis 500))
       (\<lambda>r. r = Inr ''ok'') (\<lambda>n. n = 4)"

definition non_ownership_errors_are_not_retried :: bool where
  "non_ownership_errors_are_not_retried \<longleftrightarrow>
     ends_with (retried (\<lambda>w. (Inl (InvalidMessage ''nope'') :: ClientError + unit, tick w)) (from_secs 1))
       (\<lambda>r. r = Inl (Err (InvalidMessage ''nope''))) (\<lambda>n. n = 1)"

definition unavailable_transport_is_ownership_and_retried :: bool where
  "unavailable_transport_is_ownership_and_retried \<longleftrightarrow>
     ends_with (retried (\<lambda>w. (Inl (Transport \<lparr>st_code = Unavailable, st_message = ''peer down''\<rparr>) :: ClientError + unit, tick w))
         (from_millis 50)) (\<lambda>r. True) (\<lambda>n. 1 < n)"

definition timeout_surfaces_last_ownership_error :: bool where
  "timeout_surfaces_last_ownership_error \<longleftrightarrow>
     ends_with (retried (\<lambda>w. (Inl ClientError.Draining :: ClientError + unit, tick w)) (from_millis 20))
       (\<lambda>r. r = Inl (Err ClientError.Draining)) (\<lambda>n. True)"

lemmas retry_test_defs =
  ends_with_def retried_def retry_ownership_def fast_backoff_def world_at_def tick_def sleep_exactly_def
  add_duration_def next_delay_def duration_max_def from_millis_def from_secs_def Let_def

lemma retry_tests_one: "succeeds_immediately_without_retry" "non_ownership_errors_are_not_retried"
  by (simp_all add: succeeds_immediately_without_retry_def non_ownership_errors_are_not_retried_def
      retry_test_defs retry_loop.simps)

lemma retry_test_four: "retries_ownership_errors_until_success"
  by (simp add: retries_ownership_errors_until_success_def retry_test_defs retry_loop.simps)

lemma retry_test_deadline: "timeout_surfaces_last_ownership_error"
  by (simp add: timeout_surfaces_last_ownership_error_def retry_test_defs retry_loop.simps)

lemma retry_test_unavailable: "unavailable_transport_is_ownership_and_retried"
  by (simp add: unavailable_transport_is_ownership_and_retried_def retry_test_defs retry_loop.simps)

definition retry_recovers_after_transient_not_owned :: bool where
  "retry_recovers_after_transient_not_owned \<longleftrightarrow>
     (let p = mock_proxy (\<lambda>w. (if cw_count w < 2 then Inl NoResolution else Inr ''peer-a'', tick w)) (\<lambda>states w. (None, w))
      in ends_with (handle_with_retry cw_now sleep_exactly p 7 (from_secs 30) 42 remote_ok local_ok (world_at 0))
           (\<lambda>r. r = Inr ''remote:peer-a:42'') (\<lambda>n. 3 \<le> n))"

definition retry_does_not_retry_non_ownership_errors :: bool where
  "retry_does_not_retry_non_ownership_errors \<longleftrightarrow>
     (let p = mock_proxy (\<lambda>w. (Inl (InvalidMessage ''bad''), tick w)) (\<lambda>states w. (None, w))
      in ends_with (handle_with_retry cw_now sleep_exactly p 7 (from_secs 1) 42 remote_ok local_ok (world_at 0))
           (\<lambda>r. r = Inl (Err (InvalidMessage ''bad''))) (\<lambda>n. n = 1))"

lemma proxy_retry_tests: "retry_recovers_after_transient_not_owned" "retry_does_not_retry_non_ownership_errors"
  by (simp_all add: retry_recovers_after_transient_not_owned_def retry_does_not_retry_non_ownership_errors_def
      handle_with_retry_def backoff_new_def retry_test_defs retry_loop.simps mock_proxy_def handle_def
      remote_ok_def decimals)

section \<open>Processor\<close>

text \<open>
  One run of a processor with its recording range. Between the sleeps of a test the task of the run
  goes on as far as it can; \<open>None\<close>: several branches are ready, or there are too many steps.
\<close>

type_synonym run_world = "processor \<times> recording"

definition with_range :: "run_world \<Rightarrow> run_world" where
  "with_range s =
     (case s of (p, r) \<Rightarrow>
        (set_run 0 ((pr_runs p ! 0)\<lparr>rn_range := range_of (r, rg_close_calls (rn_range (pr_runs p ! 0)))\<rparr>) p, r))"

definition perform :: "pc \<times> effect \<Rightarrow> run_world \<Rightarrow> run_world" where
  "perform mv s =
     (case s of (p, r) \<Rightarrow>
        with_range (move_run 0 mv p, case snd mv of CallDrain t \<Rightarrow> rr_drain 0 t r | CallClose \<Rightarrow> rr_close r | _ \<Rightarrow> r))"

fun settle :: "nat \<Rightarrow> run_world \<Rightarrow> run_world option" where
  "settle 0 s = None"
| "settle (Suc n) (p, r) =
     (case moves 0 (pr_runs p ! 0) of
        [] \<Rightarrow> Some (p, r)
      | [mv] \<Rightarrow> settle n (perform mv (p, r))
      | _ \<Rightarrow> None)"

abbreviation eight :: nat where
  "eight \<equiv> Suc (Suc (Suc (Suc (Suc (Suc (Suc (Suc 0)))))))"

definition on_range :: "(recording \<Rightarrow> recording) \<Rightarrow> run_world \<Rightarrow> run_world option" where
  "on_range f s = settle eight (with_range (apsnd f s))"

definition on_ownership :: "own_op \<Rightarrow> run_world \<Rightarrow> run_world option" where
  "on_ownership x s =
     (case s of (p, r) \<Rightarrow> settle eight (set_run 0 ((pr_runs p ! 0)\<lparr>rn_own := own_apply x (rn_own (pr_runs p ! 0))\<rparr>) p, r))"

definition fixed_build :: recording where
  "fixed_build = rr_new 0 ''r'' (from_millis 10) (from_millis 10) []"

text \<open>\<open>try_handle\<close> of a grant that is allocated until a far future; its run and its range.\<close>

definition taken :: "run_world option" where
  "taken =
     (case try_handle (\<lambda>_ _ _. Some (range_of (fixed_build, 0))) (GrantId ''g'') mk_shard
             (ownership_new GrantState.Allocated (far_future 0) 0) (processor_init processor_new) of
        Some (True, p) \<Rightarrow> settle eight (p, fixed_build)
      | _ \<Rightarrow> None)"

definition rejecting_factory_returns_false :: bool where
  "rejecting_factory_returns_false \<longleftrightarrow>
     (case try_handle (\<lambda>_ _ _. None) (GrantId ''g'') mk_shard (ownership_new GrantState.Allocated (far_future 0) 0)
             (processor_init processor_new) of
        Some (took, p) \<Rightarrow> \<not> took
      | None \<Rightarrow> False)"

text \<open>The range initialises and the drain is done by the tasks that it spawns, after 10 ms each.\<close>

definition full_lifecycle :: "run_world option" where
  "full_lifecycle =
     fold (\<lambda>f s. Option.bind s f)
       [on_range rr_run_init, on_ownership CounterpartUnloaded, on_ownership Activate, on_ownership Revoke,
        on_range (rr_run_drain 0), on_ownership CounterpartLoaded] taken"

definition full_lifecycle_records_all_phases :: bool where
  "full_lifecycle_records_all_phases \<longleftrightarrow>
     (case full_lifecycle of
        None \<Rightarrow> False
      | Some (p, r) \<Rightarrow> rn_pc (pr_runs p ! 0) = Exited
          \<and> {''r initialized'', ''r drain start'', ''r drain done'', ''r closed''} \<subseteq> set (rr_log r)
          \<and> is_closed (ld_load (ow_loader (rn_own (pr_runs p ! 0))))
          \<and> is_closed (ul_unload (ow_unloader (rn_own (pr_runs p ! 0))))
          \<and> gm_is_empty (pr_grants p))"

definition exit_on_expiration_cleans_up :: bool where
  "exit_on_expiration_cleans_up \<longleftrightarrow>
     (case fold (\<lambda>f s. Option.bind s f) [on_range rr_run_init, on_ownership Expire] taken of
        None \<Rightarrow> False
      | Some (p, r) \<Rightarrow> rn_pc (pr_runs p ! 0) = Exited \<and> gm_is_empty (pr_grants p) \<and> ''r closed'' \<in> set (rr_log r))"

lemmas processor_test_defs =
  taken_def fixed_build_def try_handle_def processor_init_def processor_new_def run_new_def rr_new_def
  on_range_def on_ownership_def with_range_def perform_def set_run_def move_run_def moves_def range_of_def
  continue_or_bail_def wait_defs own_op_defs rr_run_init_def rr_run_drain_def rr_drain_def rr_close_def
  rr_write_def far_future_def gm_new_def gm_write_def gm_delete_def gm_is_empty_def gm_len_def Let_def

lemma processor_tests:
  "rejecting_factory_returns_false" "exit_on_expiration_cleans_up"
  by (simp_all add: rejecting_factory_returns_false_def exit_on_expiration_cleans_up_def processor_test_defs)

lemma processor_test_lifecycle: "full_lifecycle_records_all_phases"
  by (simp add: full_lifecycle_records_all_phases_def full_lifecycle_def processor_test_defs)

section \<open>Peer server\<close>

text \<open>The system lets the tests bind a port of the loopback address; the server ends when it is told to.\<close>

definition loopback :: "('a, 'l) network \<Rightarrow> 'a \<Rightarrow> bool" where
  "loopback net addr \<longleftrightarrow>
     (case sbind (net_bind net addr) (net_local_addr net) of
        Inl e \<Rightarrow> False
      | Inr a \<Rightarrow> take 10 (net_display net a) = ''127.0.0.1:'')"

definition unwrapped :: "string + 'a PeerServer \<Rightarrow> ('a PeerServer \<Rightarrow> bool) \<Rightarrow> bool" where
  "unwrapped r test \<longleftrightarrow> (case r of Inl e \<Rightarrow> False | Inr peer \<Rightarrow> test peer)"

definition serve_advertises_local_addr_by_default :: "('a, 'l) network \<Rightarrow> 'a \<Rightarrow> bool" where
  "serve_advertises_local_addr_by_default net addr \<longleftrightarrow>
     unwrapped (serve net (peer_builder_new addr)) (\<lambda>peer.
       take 17 (ps_endpoint peer) = ''http://127.0.0.1:'' \<and> take 10 (net_display net (ps_local_addr peer)) = ''127.0.0.1:''
       \<and> fst (peer_shutdown (Returned (Inr () :: string + unit)) peer) = Inr ())"

definition explicit_advertise_override :: "('a, 'l) network \<Rightarrow> 'a \<Rightarrow> bool" where
  "explicit_advertise_override net addr \<longleftrightarrow>
     unwrapped (serve net (peer_advertise ''splitter-rs.internal:50052'' (peer_builder_new addr))) (\<lambda>peer.
       ps_endpoint peer = ''splitter-rs.internal:50052''
       \<and> fst (peer_shutdown (Returned (Inr () :: string + unit)) peer) = Inr ())"

definition drop_before_shutdown_still_aborts :: "('a, 'l) network \<Rightarrow> 'a \<Rightarrow> bool" where
  "drop_before_shutdown_still_aborts net addr \<longleftrightarrow>
     unwrapped (serve net (peer_builder_new addr)) (\<lambda>peer. ps_aborted (peer_drop peer))"

lemma peer_tests:
  assumes "loopback net addr"
  shows "serve_advertises_local_addr_by_default net addr" "explicit_advertise_override net addr"
    "drop_before_shutdown_still_aborts net addr"
proof -
  obtain l a where net: "net_bind net addr = Inr l" "net_local_addr net l = Inr a" "take 10 (net_display net a) = ''127.0.0.1:''"
    using assms by (auto simp: loopback_def sbind_def split: sum.splits)
  note defs = serve_advertises_local_addr_by_default_def explicit_advertise_override_def
    drop_before_shutdown_still_aborts_def unwrapped_def serve_def peer_builder_new_def peer_advertise_def
    peer_shutdown_def peer_drop_def fire_shutdown_def serve_result_def peer_note_def ps_aborted_def Let_def net
  show "serve_advertises_local_addr_by_default net addr" "explicit_advertise_override net addr"
    "drop_before_shutdown_still_aborts net addr"
    by (simp_all add: defs)
qed

end
