(* ===== verification/EndToEnd.thy ===== *)
theory EndToEnd
  imports ExampleMains ConsumerFlow
begin

text \<open>
  Models \<open>splitter-client/tests/e2e.rs\<close>: what its tests ask of a run of the driver against a
  coordinator, which is not part of the repository. A test sees the driver as it is joined and as it
  is when an awaited thing happened or five seconds have passed. The lemmas say which answers of the
  coordinator, and which scheduling, make the tests pass.
\<close>

section \<open>Environment of the tests\<close>

record e2e_env =
  ee_endpoint :: string
  ee_service :: QualifiedServiceName

text \<open>\<open>var\<close> is \<open>std::env::var\<close>, without its error.\<close>

definition read_env :: "(string \<Rightarrow> string option) \<Rightarrow> e2e_env option" where
  "read_env var =
     Option.bind (var ''SPLITTER_ENDPOINT'') (\<lambda>endpoint.
     Option.bind (var ''SPLITTER_SERVICE'') (\<lambda>service_raw.
     Option.bind (qsn_parse service_raw) (\<lambda>service.
     Some \<lparr>ee_endpoint = endpoint, ee_service = service\<rparr>)))"

definition e2e_instance :: "InstanceId \<Rightarrow> SystemTime \<Rightarrow> Instance" where
  "e2e_instance fresh_id now =
     \<lparr>inst_id = fresh_id, inst_location = location_new ''local'' ''test'',
      inst_name = InstanceName ''splitter-rs-e2e'', inst_created = now, inst_endpoint = Endpoint []\<rparr>"

text \<open>Without the environment variables a test is skipped, which counts as passed.\<close>

definition gated :: "(e2e_env \<Rightarrow> bool) \<Rightarrow> e2e_env option \<Rightarrow> bool" where
  "gated body env = (case env of None \<Rightarrow> True | Some e \<Rightarrow> body e)"

section \<open>The tests\<close>

text \<open>
  \<open>snap\<close> is the value that \<open>cluster.changed()\<close> reported within five seconds, if it did, and \<open>res\<close>
  the result of the shutdown.
\<close>

definition join_receives_initial_cluster_update :: "e2e_env option \<Rightarrow> ClusterMap option \<Rightarrow> ClientError + unit \<Rightarrow> bool" where
  "join_receives_initial_cluster_update env snap res =
     gated (\<lambda>e. case snap of None \<Rightarrow> False
       | Some cm \<Rightarrow> 0 < sint (ci_version (cmap_id cm)) \<and> res = Inr ()) env"

text \<open>The driver as joined, and when its task has ended or the timeout has passed.\<close>

definition shutdown_closes_driver_cleanly :: "string \<Rightarrow> e2e_env option \<Rightarrow> driver \<Rightarrow> driver \<Rightarrow> bool" where
  "shutdown_closes_driver_cleanly t env d d' =
     gated (\<lambda>e. \<not> is_closed (dr_closed d)
       \<and> (case driver_outcome t (dr_pc d') of
            None \<Rightarrow> False
          | Some res \<Rightarrow> shutdown_result (Some res) = Inr () \<and> is_closed (dr_closed d'))) env"

definition bogus_service :: "string \<Rightarrow> e2e_env \<Rightarrow> QualifiedServiceName" where
  "bogus_service uuid e = (ee_service e)\<lparr>qsn_service := ServiceName (''does-not-exist-'' @ uuid)\<rparr>"

definition join_returns_error_when_service_missing :: "e2e_env option \<Rightarrow> driver \<Rightarrow> bool" where
  "join_returns_error_when_service_missing env d' = gated (\<lambda>e. is_closed (dr_closed d')) env"

section \<open>When they pass\<close>

lemma read_env_both:
  "read_env [''SPLITTER_ENDPOINT'' \<mapsto> ''http://h:1'', ''SPLITTER_SERVICE'' \<mapsto> ''t/s'']
     = Some \<lparr>ee_endpoint = ''http://h:1'', ee_service = qsn_new ''t'' ''s''\<rparr>"
  "read_env [''SPLITTER_ENDPOINT'' \<mapsto> ''http://h:1''] = None"
  "read_env [''SPLITTER_ENDPOINT'' \<mapsto> ''http://h:1'', ''SPLITTER_SERVICE'' \<mapsto> ''t''] = None"
  by (simp_all add: read_env_def qsn_parse_def)

text \<open>Only the identity set at the start of an application is kept: no stage changes it.\<close>

lemma update_grant_id: "update_grant cm g = Inr cm' \<Longrightarrow> cmap_id cm' = cmap_id cm"
  by (auto simp: update_grant_def Let_def res_simps split: option.splits)

lemma assign_grant_id: "assign_grant cid cm g = Inr cm' \<Longrightarrow> cmap_id cm' = cmap_id cm"
  by (auto simp: assign_grant_def put_grant_def res_simps)

lemma apply_assignment_id:
  assumes "apply_assignment U cm a = Inr cm'"
  shows "cmap_id cm' = cmap_id cm"
proof -
  obtain i where "fold_res (assign_grant (inst_id i)) (ensure_consumer i cm) (as_grants a) = Inr cm'"
    using assms by (auto simp: apply_assignment_def res_simps)
  then show ?thesis
    by (rule fold_res_invariant [where I = "\<lambda>c. cmap_id c = cmap_id cm"]) (simp_all add: assign_grant_id)
qed

lemma apply_assignments_id:
  assumes "fold_res (apply_assignment U) cm as = Inr cm'"
  shows "cmap_id cm' = cmap_id cm"
  using assms by (rule fold_res_invariant [where I = "\<lambda>c. cmap_id c = cmap_id cm"]) (simp_all add: apply_assignment_id)

lemma folds_id:
  "cmap_id (fold drop_grant gids cm) = cmap_id cm"
  "cmap_id (fold (\<lambda>gid. drop_grant (GrantId gid)) raw cm) = cmap_id cm"
  "cmap_id (fold (remove_id U) cids cm) = cmap_id cm"
  by (induction gids arbitrary: cm, simp_all)
    (induction raw arbitrary: cm, simp_all, induction cids arbitrary: cm,
      simp_all add: remove_id_def split: sum.split)

lemma stages_id:
  "shards_stage ord p cm = Inr cm' \<Longrightarrow> cmap_id cm' = cmap_id cm"
  "assign_stage U q cm = Inr cm' \<Longrightarrow> cmap_id cm' = cmap_id cm"
  "update_stage r cm = Inr cm' \<Longrightarrow> cmap_id cm' = cmap_id cm"
  "unassign_stage s cm = Inr cm' \<Longrightarrow> cmap_id cm' = cmap_id cm"
  "remove_stage U t cm = Inr cm' \<Longrightarrow> cmap_id cm' = cmap_id cm"
proof -
  show "update_stage r cm = Inr cm' \<Longrightarrow> cmap_id cm' = cmap_id cm"
    unfolding update_stage_def lift_err_eq_Inr
    by (erule fold_res_invariant [where I = "\<lambda>c. cmap_id c = cmap_id cm"]) (simp_all add: update_grant_id)
qed (auto simp: shards_stage_def assign_stage_def unassign_stage_def remove_stage_def Let_def res_simps
    folds_id dest: apply_assignments_id)

lemma opt_stages_id:
  "opt_stage (shards_stage ord) v cm = Inr cm' \<Longrightarrow> cmap_id cm' = cmap_id cm"
  "opt_stage (assign_stage U) w cm = Inr cm' \<Longrightarrow> cmap_id cm' = cmap_id cm"
  "opt_stage update_stage x cm = Inr cm' \<Longrightarrow> cmap_id cm' = cmap_id cm"
  "opt_stage unassign_stage y cm = Inr cm' \<Longrightarrow> cmap_id cm' = cmap_id cm"
  "opt_stage (remove_stage U) z cm = Inr cm' \<Longrightarrow> cmap_id cm' = cmap_id cm"
  by (auto simp: opt_stage_def stages_id split: option.splits)

text \<open>The version of a snapshot is the version of the message.\<close>

lemma snapshot_version:
  assumes "cluster_apply U ord cm msg = Inr cm'"
  shows "ci_version (cmap_id cm') = cm_version msg"
  using assms
proof (cases rule: cluster_apply_cases)
  case (snapshot snap timestamp)
  then show ?thesis by (auto simp: apply_snapshot_def res_simps dest: apply_assignments_id)
next
  case (change ch timestamp)
  then show ?thesis
    by (auto simp: apply_change_def Let_def sbind_eq_Inr dest!: opt_stages_id)
qed

lemma initial_update_iff:
  assumes "cluster_apply U ord cluster_empty msg = Inr cm"
  shows "join_receives_initial_cluster_update (Some e) (Some cm) (Inr ()) \<longleftrightarrow> 0 < sint (cm_version msg)"
  by (simp add: join_receives_initial_cluster_update_def gated_def snapshot_version [OF assms])

text \<open>A driver that waits when the shutdown is requested can pass the second test.\<close>

lemma shutdown_test_passes:
  assumes "reach (drv_start E) (drv_step E) d" and "dr_pc d = Selecting True" and "is_closed (dr_shutdown d)"
    and "dr_out_open d"
  shows "\<exists>d'. (drv_step E)\<^sup>*\<^sup>* d d'
    \<and> shutdown_closes_driver_cleanly t env (join E session_id consumer service opts) d'"
proof -
  obtain d' where "(drv_step E)\<^sup>*\<^sup>* d d'" "dr_pc d' = Finish None" "is_closed (dr_closed d')"
    using shutdown_honoured [OF assms] by blast
  then show ?thesis
    by (intro exI [of _ d'])
      (simp add: shutdown_closes_driver_cleanly_def gated_def driver_outcome_def shutdown_result_def join_def
        driver_new_def split: option.split)
qed

text \<open>If the request comes before the driver has started to wait, no continuation passes it.\<close>

lemma shutdown_test_fails:
  assumes "d = join E session_id consumer service opts"
    and "(drv_step E)\<^sup>*\<^sup>* (d\<lparr>dr_shutdown := close_latch (dr_shutdown d)\<rparr>) d'"
  shows "\<not> shutdown_closes_driver_cleanly t (Some e) d d'"
proof -
  have "deaf (d\<lparr>dr_shutdown := close_latch (dr_shutdown d)\<rparr>)"
    by (simp add: deaf_def assms(1) join_def driver_new_def)
  with deaf_steps [OF assms(2)] have "dr_pc d' \<noteq> Finish None" by (auto simp: deaf_def)
  then show ?thesis
    by (auto simp: shutdown_closes_driver_cleanly_def gated_def driver_outcome_def shutdown_result_def
        split: driver_pc.splits option.splits)
qed

text \<open>
  The third test passes if the coordinator fails the stream, and never does if it refuses the
  service by closing the session.
\<close>

lemma missing_service_failed:
  "join_returns_error_when_service_missing env (inbound_branch E now (Failed status) d)"
  by (simp add: join_returns_error_when_service_missing_def gated_def inbound_branch_def split: option.split)

lemma missing_service_closed:
  assumes "\<not> is_closed (dr_closed d)"
    and "(drv_step E)\<^sup>*\<^sup>* (inbound_branch E now (Item (session_wrap (session_Request.Closed \<lparr>cl_error = error\<rparr>))) d) d'"
  shows "\<not> join_returns_error_when_service_missing (Some e) d'"
proof -
  have "inbound_branch E now (Item (session_wrap (session_Request.Closed \<lparr>cl_error = error\<rparr>))) d
      = d\<lparr>dr_pc := EarlyReturn (SessionClosed error)\<rparr>"
    by (simp add: inbound_branch_def handle_inbound_def session_wrap_def classify_def)
  with loop_left_frozen [OF assms(2)] assms(1) show ?thesis
    by (simp add: loop_left_simps join_returns_error_when_service_missing_def gated_def)
qed

end
