(* ===== verification/Spec2Isabelle.thy ===== *)
theory Spec2Isabelle
  imports Errors Clock Ids Wire Wrap Session Latches OwnershipModel GrantMaps ClusterModel ClusterLaws
    PoolModel ResolverModel RetryModel ProxyModel ProcessorModel ProcessorLaws RecordingRange
    ConsumerModel ConsumerLaws ConsumerTasks ConsumerSpec ConsumerActions ConsumerFrames ConsumerFlow ConsumerRuns
    DispatcherModel DispatcherLaws DispatcherSystem DispatcherSync DispatcherRuns PeerModel
    HandoverModel HandoverLaws HandoverRuns ClientModel ClientLaws ClientProgress ClientRuns
    FleetModel FleetLaws ClientFleet FleetRuns JoinExample JoinLaws JoinRuns Decimals ExampleMains
    UnitTests RunTests EndToEnd
begin

text \<open>
  A verification development for the splitter client in Rust (\<open>src/splitter-client\<close>,
  \<open>src/splitter-peer\<close>). A coordinator splits a service's key space into shards and leases them to
  consumers as grants; the client joins a service, keeps its grants alive, hands them over without
  overlap, and routes calls to the consumer that owns a key.

  The parts and how they interact.
  A consumer opens a \<open>Join\<close> stream (\<open>consumer.rs\<close>). The driver task of the stream reads messages of
  the coordinator, keeps a table of grants, and for each of them an \<open>Ownership\<close> (\<open>ownership.rs\<close>), a
  bundle of one-shot latches (\<open>latch.rs\<close>) shared with the user and with four helper tasks. Cluster
  messages update a snapshot of all consumers and their grants (\<open>cluster.rs\<close>). The dispatcher
  (\<open>dispatcher.rs\<close>) starts a stream, offers each new grant to a chain of filters, and keeps a pool
  of channels to the other consumers in step with the snapshots (\<open>pool.rs\<close>). The usual filter is
  the processor (\<open>processor.rs\<close>), which runs the hand-over protocol of a grant and lists its state in
  a table (\<open>grant_map.rs\<close>). Calls are routed by key to a local range or to the owner's channel
  (\<open>proxy.rs\<close>, \<open>resolver.rs\<close>), retried while ownership moves (\<open>retry.rs\<close>, \<open>error.rs\<close>), and served
  by a peer server (\<open>splitter-peer/src/lib.rs\<close>).

  Which theory models what.
  \<^item> \<open>Prelude\<close>: results as sums, folds that may fail, the ready branches of a \<open>select!\<close>, reachability
    with the locale \<open>invariant_system\<close>, and iteration orders of hash maps.
  \<^item> \<open>Errors\<close>, \<open>Clock\<close>, \<open>Ids\<close>, \<open>Wire\<close>, \<open>Wrap\<close>, \<open>Session\<close>: \<open>error.rs\<close>; \<open>SystemTime\<close> and \<open>Duration\<close> with
    their overflow panics; \<open>ids.rs\<close>; the messages of the \<open>.proto\<close> files; \<open>wrap.rs\<close>; \<open>session.rs\<close>.
  \<^item> \<open>Latches\<close>, \<open>OwnershipModel\<close>, \<open>GrantMaps\<close>: the latch over a watch channel and its abstraction to a
    flag; the ownership, its operations and its waits; the grant table as an interface.
  \<^item> \<open>ClusterModel\<close>, \<open>ClusterLaws\<close>, \<open>PoolModel\<close>, \<open>ResolverModel\<close>: snapshots, changes and lookups; the
    pool; resolution of a key.
  \<^item> \<open>RetryModel\<close>, \<open>ProxyModel\<close>: the backoff loop, the routing decision and their combination.
  \<^item> \<open>ProcessorModel\<close>, \<open>ProcessorLaws\<close>, \<open>RecordingRange\<close>: any number of concurrent \<open>run_grant\<close> tasks
    over one table, with cancellation; the instrumented range of the examples.
  \<^item> \<open>ConsumerModel\<close>: the driver. Ownerships live in a store of cells, since the driver, the helper
    tasks and the dispatcher share them; \<open>drv_step\<close> interleaves the loop, the user, the helpers and
    the outside. \<open>ConsumerLaws\<close>, \<open>ConsumerTasks\<close> and \<open>ConsumerFrames\<close> hold its invariants,
    \<open>ConsumerFlow\<close> the flow control of its outbound channel, \<open>ConsumerSpec\<close> the abstract lease table and
    the refinement of each message, \<open>ConsumerActions\<close> the driver's steps as named actions and the
    refinement of each of them, \<open>ConsumerRuns\<close> concrete executions.
  \<^item> \<open>DispatcherModel\<close>: the filter chain, \<open>build\<close> step by step, the background tasks, \<open>drain\<close> and
    \<open>drop\<close>; \<open>dsp_step\<close> interleaves them with the driver. \<open>DispatcherLaws\<close>, \<open>DispatcherSystem\<close> and
    \<open>DispatcherSync\<close> hold its laws, \<open>DispatcherRuns\<close> concrete executions.
  \<^item> \<open>HandoverModel\<close>: a stream and a processor over shared ownerships; \<open>node_step\<close> interleaves the
    steps of both. \<open>HandoverLaws\<close> shows that each part behaves as it does alone and what its reports
    mean, \<open>HandoverRuns\<close> is a complete hand-over.
  \<^item> \<open>ClientModel\<close>, \<open>ClientLaws\<close>, \<open>ClientProgress\<close>, \<open>ClientRuns\<close>: a whole client, a dispatcher with a
    processor as its filter and one task for each dispatched grant; it refines the composition above.
  \<^item> \<open>FleetModel\<close>, \<open>FleetLaws\<close>: any number of consumers that learn of each other only by what the
    coordinator relays. \<open>ClientFleet\<close>: the same for whole clients, by refinement; \<open>FleetRuns\<close> is a
    hand-over between two of them.
  \<^item> \<open>JoinExample\<close>, \<open>JoinLaws\<close>, \<open>JoinRuns\<close>: the program \<open>examples/join.rs\<close>, which drives each grant itself.
    \<open>Decimals\<close>, \<open>ExampleMains\<close>: the rest of the examples, from their arguments to their end.
  \<^item> \<open>UnitTests\<close>, \<open>RunTests\<close>: the unit tests of the repository as definitions, which the model passes.
    \<open>EndToEnd\<close>: \<open>tests/e2e.rs\<close>, and which answers of the coordinator make its tests pass.
  \<^item> \<open>PeerModel\<close>: the peer server, and how the endpoint it publishes is dialled by a pool.

  How the code is represented. Structs are records, enums datatypes, \<open>Result\<close> a sum, a panic the
  error \<open>Panic\<close> of the type \<open>fault\<close>. A handler that may panic half-way returns its result beside the
  new state. Hash maps are partial maps; where their iteration order could matter it is an
  argument that enumerates the keys. An async function is a list of next moves or a step relation:
  between two awaits other tasks may do anything, and a \<open>select!\<close> takes any ready branch. Strings
  are lists of characters, wire integers are words, the clock is an argument.

  What the groups of lemmas show.
  \<^item> Hand-over: load and unload are signalled in the order of the protocol, a run ends after expiry,
    its range is closed exactly once, the table shows its state. Together with the stream: what is
    reported to the coordinator is true of the range (\<open>updates_report_truth\<close>). Between consumers: a
    range takes over only from one that has drained, for any number of whole
    clients (\<open>client_fleet_handover\<close>).
  \<^item> Stream: the driver refines the lease table (\<open>messages_refine_lease_table\<close> per message,
    \<open>driver_refines_lease_system\<close> per step, whatever its cause); its events replay to its table; no ownership is
    forgotten; signals are reported at most once; the outbound stream is well typed and bounded,
    and a driver that finds it full waits (\<open>outbound_flow_control\<close>).
  \<^item> Snapshots: referential integrity, exact effect of removals, independence of iteration orders,
    correct lookup; the pool equals a pointwise reference definition and follows the stream.
  \<^item> Dispatcher: which grants reach the chain and in what order, how the chain decides, what the
    ways of shutting down leave behind; with a processor, each grant becomes one run or is given back.
  \<^item> Routing: what an attempt calls, at most once and never again after an answer
    (\<open>handle_calls_once\<close>); results and termination of retrying.
  \<^item> Examples: the life-cycle task of the join example is \<open>run_grant\<close> for a range that initialises and
    drains at once, its main loop ends with its stream; a recording range is a range of the processor.
  \<^item> Places where the code does less than it means to: \<open>server_close_skips_cleanup\<close>,
    \<open>shutdown_lost\<close>, \<open>shortened_lease_missed\<close>, \<open>early_grants_never_dispatched\<close>,
    \<open>stream_end_noticed\<close>, \<open>late_cleanup_unlists_active_run\<close>,
    \<open>reassigned_grant_lost_with_old_consumer\<close>, \<open>timestamp_panics_iff\<close>.

  Bounds. The retry loop is a partial function; \<open>retry_terminates\<close> shows that it returns, with the
  number of attempts it takes at most. The other functions are total, and no fuel is used. After
  expiry a run of the processor takes at most 18 more steps of its own. The broadcast channel has
  the capacity 256 and the outbound channel the capacity 64 of \<open>consumer.rs\<close>.

  Hypotheses on code that is not here. The uuid crate prints and parses consistently; tokio's watch
  channel wakes its receivers (theory \<open>Latches\<close>); its broadcast channel delivers in order and
  reports what it skips (\<open>broadcast_ok\<close>); \<open>tonic\<close> channels and dialling are functions; the
  coordinator relays only updates that were sent, between matching grants (\<open>relayed\<close>). Each such
  hypothesis is shown to be satisfiable by a concrete instance.

  Not modelled. The byte encoding of protobuf messages and the crate roots that include generated
  code; the network; logging; the texts of \<open>Display\<close> for errors; the fresh uuids; memory reclamation
  of cells; the output of the examples and their awaiting of SIGINT.
\<close>

end
